(* ===== verification/Sched_Prelude.thy ===== *)
theory Sched_Prelude
  imports Main "HOL-Library.Word" "HOL-Library.List_Lexorder" "HOL-Library.Char_ord"
begin

text \<open>
  Shared vocabulary of the development: the machine integers of the Go code, Go byte
  strings, Go error values, the comma-ok reading of a Go map, and the generic facts on
  lists, maps and filters that the component theories use.

  A Go \<^verbatim>\<open>string\<close> is a sequence of bytes and is a HOL \<^typ>\<open>string\<close> here; \<^verbatim>\<open>int32\<close> and
  \<^verbatim>\<open>int64\<close> are words read with \<^term>\<open>sint\<close>. A Go \<^verbatim>\<open>map[K]V\<close> is a partial function; a
  \<^verbatim>\<open>range\<close> over a map visits the keys in an order the language leaves open, so every
  function that ranges over a map takes that order as an argument (\<^term>\<open>range_order\<close>).
\<close>

section \<open>Types\<close>

type_synonym i32 = "32 word"
type_synonym i64 = "64 word"
type_synonym byte = "8 word"
type_synonym bytes = "byte list"

text \<open>
  Error values. The first five are the sentinels of \<^verbatim>\<open>internal/store/store.go\<close>, the next
  three those of \<^verbatim>\<open>internal/coordinator/dag.go\<close> (the two that are wrapped carry the task
  ids of the message), \<open>InvalidDAG\<close> is the wrapping done by \<^verbatim>\<open>SubmitWorkflow\<close>, \<open>EOF\<close> and
  \<open>ErrUnexpectedEOF\<close> belong to package \<^verbatim>\<open>io\<close>, and \<open>LibErr\<close> is an error of bbolt or of the
  protobuf runtime. \<open>GoPanic\<close> is a run-time panic and \<open>Diverges\<close> a loop that does not
  return; neither is ever swallowed by an \<^verbatim>\<open>err != nil\<close> branch.
\<close>

datatype err =
    ErrNotFound | ErrStaleExecution | ErrInvalidDAG | ErrTaskNotFound | ErrWorkflowNotFound
  | ErrCyclicDAG string | ErrMissingDependency string string | ErrDuplicateTaskID
  | InvalidDAG err
  | EOF | ErrUnexpectedEOF
  | LibErr string
  | GoPanic | Diverges

definition fatal :: "err \<Rightarrow> bool" where
  "fatal e \<longleftrightarrow> e = GoPanic \<or> e = Diverges"

definition panics :: "err + 'a \<Rightarrow> bool" where
  "panics r = (case r of Inl e \<Rightarrow> fatal e | Inr _ \<Rightarrow> False)"

lemma panics_simps [simp]: "panics (Inl e) = fatal e" "\<not> panics (Inr a)"
  by (simp_all add: panics_def)

section \<open>Shared collections of facts\<close>

named_theorems store_simps \<open>effect of a store operation on the abstract tables\<close>
named_theorems codec_simps \<open>decoding what was just encoded\<close>
named_theorems inv_intros \<open>preservation of the invariants\<close>

section \<open>Go maps\<close>

definition go_len :: "('k \<rightharpoonup> 'v) \<Rightarrow> nat" where
  "go_len m = card (dom m)"

definition range_order :: "('k \<rightharpoonup> 'v) \<Rightarrow> 'k list \<Rightarrow> bool" where
  "range_order m ord \<longleftrightarrow> distinct ord \<and> set ord = dom m"

lemma range_orderD:
  assumes "range_order m ord"
  shows "distinct ord" and "set ord = dom m"
  using assms by (auto simp: range_order_def)

lemma go_len_range: "range_order m ord \<Longrightarrow> go_len m = length ord"
  by (metis range_orderD go_len_def distinct_card)

text \<open>\<^verbatim>\<open>delete(m, k)\<close> for every key of a list.\<close>

definition map_delete :: "'k list \<Rightarrow> ('k \<rightharpoonup> 'v) \<Rightarrow> ('k \<rightharpoonup> 'v)" where
  "map_delete ks m = fold (\<lambda>k m. m(k := None)) ks m"

lemma map_delete_apply: "map_delete ks m k = (if k \<in> set ks then None else m k)"
  unfolding map_delete_def by (induction ks arbitrary: m) auto

lemma dom_map_delete [simp]: "dom (map_delete ks m) = dom m - set ks"
  by (auto simp: dom_def map_delete_apply split: if_splits)

section \<open>Lists\<close>

lemma count_list_concat: "count_list (concat xss) x = (\<Sum>xs\<leftarrow>xss. count_list xs x)"
  by (induction xss) (auto simp: count_list_append)

lemma count_list_replicate: "count_list (replicate n y) x = (if x = y then n else 0)"
  by (induction n) auto

lemma sum_list_single:
  assumes "distinct xs"
  shows "(\<Sum>x\<leftarrow>xs. if x = y then f x else (0::nat)) = (if y \<in> set xs then f y else 0)"
  using assms by (induction xs) auto

lemma sum_count_list_subset:
  assumes "finite A" and "set xs \<subseteq> A"
  shows "(\<Sum>a\<in>A. count_list xs a) = length xs"
  using assms(2)
proof (induction xs)
  case Nil
  then show ?case by simp
next
  case (Cons x xs)
  have "(\<Sum>a\<in>A. count_list (x # xs) a) = (\<Sum>a\<in>A. (if a = x then 1 else 0) + count_list xs a)"
    by (rule sum.cong) auto
  with Cons assms(1) show ?case
    by (simp add: sum.distrib)
qed

lemma length_le_count_pos: "x \<in> set xs \<longleftrightarrow> 0 < count_list xs x"
  by (simp add: count_list_0_iff neq0_conv [symmetric])

lemma map_filter_rec [simp]:
  "List.map_filter f [] = []"
  "List.map_filter f (x # xs) = (case f x of None \<Rightarrow> List.map_filter f xs | Some y \<Rightarrow> y # List.map_filter f xs)"
  by (simp_all add: List.map_filter_def split: option.split)

lemma map_filter_Nil_iff: "List.map_filter f xs = [] \<longleftrightarrow> (\<forall>x\<in>set xs. f x = None)"
  by (induction xs) (auto split: option.splits)

lemma set_map_filter_conv: "set (List.map_filter f xs) = {y. \<exists>x\<in>set xs. f x = Some y}"
  by (induction xs) (auto split: option.splits)

lemma ball_dom_conv: "(\<forall>k\<in>dom m. P (the (m k))) \<longleftrightarrow> (\<forall>k v. m k = Some v \<longrightarrow> P v)"
  by (auto simp: dom_def)

lemma bex_dom_conv: "(\<exists>k\<in>dom m. P (the (m k))) \<longleftrightarrow> (\<exists>k v. m k = Some v \<and> P v)"
  by (fastforce simp: dom_def)

lemma map_filter_id:
  assumes "\<forall>x\<in>set xs. g x = x"
  shows "List.map_filter (\<lambda>x. if P x then Some (g x) else None) xs = filter P xs"
  using assms by (induction xs) auto

end
