(* ===== verification/Proto_Types.thy ===== *)
theory Proto_Types
  imports Sched_Prelude
begin

text \<open>
  The message and enum types of \<^verbatim>\<open>internal/proto/scheduler/scheduler.pb.go\<close> that the
  program uses. A protobuf enum is an open \<^verbatim>\<open>int32\<close>: each datatype has the named values
  and one constructor for the numbers that have no name, with the conversions to and from
  \<^verbatim>\<open>int32\<close> that the Go code writes as \<^verbatim>\<open>int32(s)\<close> and \<^verbatim>\<open>scheduler.TaskState(n)\<close>.
\<close>

section \<open>Enums\<close>

datatype FailurePolicy =
    FAIL_FAST | SKIP_DOWNSTREAM | CONTINUE_INDEPENDENT | POLICY_UNRECOGNIZED i32

datatype WorkflowState =
    WORKFLOW_RUNNING | WORKFLOW_COMPLETE | WORKFLOW_FAILED | WORKFLOW_CANCELLED
  | WORKFLOW_UNRECOGNIZED i32

datatype TaskState =
    TASK_PENDING | TASK_QUEUED | TASK_RUNNING | TASK_COMPLETE | TASK_FAILED | TASK_SKIPPED
  | TASK_UNKNOWN | TASK_UNRECOGNIZED i32

fun int32_of_WorkflowState :: "WorkflowState \<Rightarrow> i32" where
  "int32_of_WorkflowState WORKFLOW_RUNNING = 0"
| "int32_of_WorkflowState WORKFLOW_COMPLETE = 1"
| "int32_of_WorkflowState WORKFLOW_FAILED = 2"
| "int32_of_WorkflowState WORKFLOW_CANCELLED = 3"
| "int32_of_WorkflowState (WORKFLOW_UNRECOGNIZED n) = n"

definition WorkflowState_of_int32 :: "i32 \<Rightarrow> WorkflowState" where
  "WorkflowState_of_int32 n =
     (if n = 0 then WORKFLOW_RUNNING else if n = 1 then WORKFLOW_COMPLETE
      else if n = 2 then WORKFLOW_FAILED else if n = 3 then WORKFLOW_CANCELLED
      else WORKFLOW_UNRECOGNIZED n)"

fun int32_of_TaskState :: "TaskState \<Rightarrow> i32" where
  "int32_of_TaskState TASK_PENDING = 0"
| "int32_of_TaskState TASK_QUEUED = 1"
| "int32_of_TaskState TASK_RUNNING = 2"
| "int32_of_TaskState TASK_COMPLETE = 3"
| "int32_of_TaskState TASK_FAILED = 4"
| "int32_of_TaskState TASK_SKIPPED = 5"
| "int32_of_TaskState TASK_UNKNOWN = 6"
| "int32_of_TaskState (TASK_UNRECOGNIZED n) = n"

definition TaskState_of_int32 :: "i32 \<Rightarrow> TaskState" where
  "TaskState_of_int32 n =
     (if n = 0 then TASK_PENDING else if n = 1 then TASK_QUEUED
      else if n = 2 then TASK_RUNNING else if n = 3 then TASK_COMPLETE
      else if n = 4 then TASK_FAILED else if n = 5 then TASK_SKIPPED
      else if n = 6 then TASK_UNKNOWN else TASK_UNRECOGNIZED n)"

text \<open>A value is canonical when its number denotes it again.\<close>

definition canonical_task_state :: "TaskState \<Rightarrow> bool" where
  "canonical_task_state s \<longleftrightarrow> TaskState_of_int32 (int32_of_TaskState s) = s"

definition canonical_workflow_state :: "WorkflowState \<Rightarrow> bool" where
  "canonical_workflow_state s \<longleftrightarrow> WorkflowState_of_int32 (int32_of_WorkflowState s) = s"

lemma TaskState_roundtrip [codec_simps]: "int32_of_TaskState (TaskState_of_int32 n) = n"
  by (simp add: TaskState_of_int32_def)

lemma WorkflowState_roundtrip [codec_simps]:
  "int32_of_WorkflowState (WorkflowState_of_int32 n) = n"
  by (simp add: WorkflowState_of_int32_def)

lemma canonical_task_state_named [simp]:
  "canonical_task_state TASK_PENDING" "canonical_task_state TASK_QUEUED"
  "canonical_task_state TASK_RUNNING" "canonical_task_state TASK_COMPLETE"
  "canonical_task_state TASK_FAILED" "canonical_task_state TASK_SKIPPED"
  "canonical_task_state TASK_UNKNOWN"
  by (simp_all add: canonical_task_state_def TaskState_of_int32_def)

lemma canonical_workflow_state_named [simp]:
  "canonical_workflow_state WORKFLOW_RUNNING" "canonical_workflow_state WORKFLOW_COMPLETE"
  "canonical_workflow_state WORKFLOW_FAILED" "canonical_workflow_state WORKFLOW_CANCELLED"
  by (simp_all add: canonical_workflow_state_def WorkflowState_of_int32_def)

section \<open>Messages\<close>

text \<open>
  A \<^verbatim>\<open>map<string, string>\<close> field is the association list of its entries in the order a
  \<^verbatim>\<open>range\<close> over it takes; the code never looks a key of such a field up.
\<close>

record TaskSpec =
  TaskId :: string
  Dependencies :: "string list"
  Command :: string
  Env :: "(string \<times> string) list"
  TimeoutSeconds :: i32
  MaxRetries :: i32

record WorkflowSpec =
  WorkflowId :: string
  Tasks :: "TaskSpec list"
  Failure_Policy :: FailurePolicy

record TaskAssignment =
  ta_TaskId :: string
  ta_ExecutionId :: string
  ta_Command :: string
  ta_Env :: "(string \<times> string) list"
  ta_TimeoutSeconds :: i32

record TaskStatus =
  ts_TaskId :: string
  ts_State :: TaskState
  ts_AttemptCount :: i32
  ts_Output :: string
  ts_Error :: string

record WorkflowStatus =
  ws_WorkflowId :: string
  ws_State :: WorkflowState
  ws_TaskStatuses :: "TaskStatus list"
  ws_SubmittedAtUnixMs :: i64
  ws_CompletedAtUnixMs :: i64

end
