(* ===== verification/Codec.thy ===== *)
theory Codec
  imports Proto_Types
begin

text \<open>
  The persistent records of \<^verbatim>\<open>internal/store/store.go\<close> and their byte format in
  \<^verbatim>\<open>internal/store/serialization.go\<close>. \<^verbatim>\<open>bytes.Buffer\<close> is the list of bytes written so far,
  \<^verbatim>\<open>bytes.Reader\<close> the list of bytes not read yet. The readers follow the standard library:
  \<^verbatim>\<open>binary.Read\<close> of an \<open>n\<close>-byte integer needs all \<open>n\<close> bytes (\<^verbatim>\<open>EOF\<close> if none is left,
  \<^verbatim>\<open>ErrUnexpectedEOF\<close> if fewer are left, which are consumed); \<^verbatim>\<open>Reader.Read\<close> into a buffer
  returns \<^verbatim>\<open>EOF\<close> exactly when nothing is left, even for an empty buffer, and otherwise
  fills as much of the zeroed buffer as it can without an error; \<^verbatim>\<open>make\<close> with a negative
  length panics. Writing fixed-size values and strings to a \<^verbatim>\<open>bytes.Buffer\<close> never fails, so
  the \<^verbatim>\<open>marshal\<close> functions return bytes.
\<close>

section \<open>Records\<close>

record TaskStateRecord =
  TaskID :: string
  WorkflowID :: string
  State :: TaskState
  ExecutionID :: string
  AttemptCount :: i32
  LastUpdated :: i64
  Output :: string
  Error :: string
  InDegree :: i32
  DownstreamTaskIDs :: "string list"

record WorkflowStateRecord =
  wsr_WorkflowID :: string
  wsr_State :: WorkflowState
  SubmittedAtMs :: i64
  CompletedAtMs :: i64

record WorkerRecord =
  WorkerID :: string
  LastHeartbeat :: i64
  RunningTaskIDs :: "string list"
  QueuedTaskIDs :: "string list"
  wr_LastUpdated :: i64

section \<open>Little-endian integers and strings\<close>

definition bytes_of_string :: "string \<Rightarrow> bytes" where
  "bytes_of_string s = map (\<lambda>c. word_of_nat (of_char c)) s"

definition string_of_bytes :: "bytes \<Rightarrow> string" where
  "string_of_bytes bs = map (\<lambda>b. char_of (unat b)) bs"

fun le_put :: "nat \<Rightarrow> 'a::len word \<Rightarrow> bytes" where
  "le_put 0 w = []"
| "le_put (Suc n) w = ucast w # le_put n (drop_bit 8 w)"

fun le_get :: "bytes \<Rightarrow> 'a::len word" where
  "le_get [] = 0"
| "le_get (b # bs) = or (ucast b) (push_bit 8 (le_get bs))"

definition write_int32 :: "i32 \<Rightarrow> bytes" where
  "write_int32 w = le_put 4 w"

definition write_int64 :: "i64 \<Rightarrow> bytes" where
  "write_int64 w = le_put 8 w"

definition writeString :: "string \<Rightarrow> bytes" where
  "writeString s = write_int32 (word_of_nat (length s)) @ bytes_of_string s"

definition binary_Read :: "nat \<Rightarrow> bytes \<Rightarrow> (err + 'a::len word) \<times> bytes" where
  "binary_Read n buf =
     (if buf = [] then (Inl EOF, [])
      else if length buf < n then (Inl ErrUnexpectedEOF, [])
      else (Inr (le_get (take n buf)), drop n buf))"

definition buf_Read :: "nat \<Rightarrow> bytes \<Rightarrow> (err + bytes) \<times> bytes" where
  "buf_Read n buf =
     (if buf = [] then (Inl EOF, [])
      else (Inr (take n buf @ replicate (n - length buf) 0), drop n buf))"

section \<open>Task records\<close>

definition marshalTaskRecord :: "TaskStateRecord \<Rightarrow> bytes" where
  "marshalTaskRecord r =
     writeString (TaskID r) @ writeString (WorkflowID r)
     @ write_int32 (int32_of_TaskState (State r)) @ writeString (ExecutionID r)
     @ write_int32 (AttemptCount r) @ write_int64 (LastUpdated r)
     @ writeString (Output r) @ writeString (Error r) @ write_int32 (InDegree r)
     @ write_int32 (word_of_nat (length (DownstreamTaskIDs r)))
     @ concat (map writeString (DownstreamTaskIDs r))"

text \<open>\<^verbatim>\<open>readString\<close> as \<^verbatim>\<open>unmarshalTaskRecord\<close> defines it: every error is returned.\<close>

definition readString :: "bytes \<Rightarrow> (err + string) \<times> bytes" where
  "readString buf =
     (case binary_Read 4 buf of
        (Inl e, r) \<Rightarrow> (Inl e, r)
      | (Inr l, r) \<Rightarrow>
          if sint (l :: i32) < 0 then (Inl GoPanic, r)
          else (case buf_Read (nat (sint l)) r of
                  (Inl e, r') \<Rightarrow> (Inl e, r')
                | (Inr b, r') \<Rightarrow> (Inr (string_of_bytes b), r')))"

text \<open>The loop over the downstream ids: an error ends it and keeps what was read.\<close>

fun readDownstream :: "nat \<Rightarrow> bytes \<Rightarrow> err + string list" where
  "readDownstream 0 buf = Inr []"
| "readDownstream (Suc n) buf =
     (case readString buf of
        (Inl e, _) \<Rightarrow> if fatal e then Inl e else Inr []
      | (Inr s, r) \<Rightarrow> (case readDownstream n r of Inl e \<Rightarrow> Inl e | Inr ss \<Rightarrow> Inr (s # ss)))"

definition rbind :: "(err + 'a) \<times> bytes \<Rightarrow> ('a \<Rightarrow> bytes \<Rightarrow> err + 'b) \<Rightarrow> err + 'b" where
  "rbind x k = (case x of (Inl e, _) \<Rightarrow> Inl e | (Inr a, r) \<Rightarrow> k a r)"

definition unmarshalTaskRecord :: "bytes \<Rightarrow> err + TaskStateRecord" where
  "unmarshalTaskRecord data =
     rbind (readString data) (\<lambda>taskID r.
     rbind (readString r) (\<lambda>workflowID r.
     rbind (binary_Read 4 r) (\<lambda>state r.
     rbind (readString r) (\<lambda>executionID r.
     rbind (binary_Read 4 r) (\<lambda>attemptCount r.
     rbind (binary_Read 8 r) (\<lambda>lastUpdated r.
     rbind (readString r) (\<lambda>output r.
     rbind (readString r) (\<lambda>errStr r.
     rbind (binary_Read 4 r) (\<lambda>inDegree r.
       case (case binary_Read 4 r of
               (Inl e, _) \<Rightarrow> Inr []
             | (Inr downstreamCount, r) \<Rightarrow>
                 if sint (downstreamCount :: i32) < 0 then Inl GoPanic
                 else readDownstream (nat (sint downstreamCount)) r) of
         Inl e \<Rightarrow> Inl e
       | Inr downstreamIDs \<Rightarrow>
           Inr \<lparr>TaskID = taskID, WorkflowID = workflowID,
                State = TaskState_of_int32 state, ExecutionID = executionID,
                AttemptCount = attemptCount, LastUpdated = lastUpdated,
                Output = output, Error = errStr, InDegree = inDegree,
                DownstreamTaskIDs = downstreamIDs\<rparr>)))))))))"

section \<open>Workflow-state and worker records\<close>

definition marshalWorkflowState :: "WorkflowStateRecord \<Rightarrow> bytes" where
  "marshalWorkflowState r =
     writeString (wsr_WorkflowID r) @ write_int32 (int32_of_WorkflowState (wsr_State r))
     @ write_int64 (SubmittedAtMs r) @ write_int64 (CompletedAtMs r)"

definition marshalWorkerRecord :: "WorkerRecord \<Rightarrow> bytes" where
  "marshalWorkerRecord r =
     writeString (WorkerID r) @ write_int64 (LastHeartbeat r)
     @ write_int32 (word_of_nat (length (RunningTaskIDs r)))
     @ concat (map writeString (RunningTaskIDs r))
     @ write_int32 (word_of_nat (length (QueuedTaskIDs r)))
     @ concat (map writeString (QueuedTaskIDs r))
     @ write_int64 (wr_LastUpdated r)"

text \<open>
  The decoders of these two records drop every read error: a variable that could not be
  read keeps its zero value and decoding goes on.
\<close>

definition read_int :: "nat \<Rightarrow> bytes \<Rightarrow> 'a::len word \<times> bytes" where
  "read_int n buf = (case binary_Read n buf of (Inl _, r) \<Rightarrow> (0, r) | (Inr w, r) \<Rightarrow> (w, r))"

definition read_string :: "bytes \<Rightarrow> (err + string) \<times> bytes" where
  "read_string buf =
     (case read_int 4 buf of
        (l, r) \<Rightarrow>
          if sint (l :: i32) < 0 then (Inl GoPanic, r)
          else (case buf_Read (nat (sint l)) r of
                  (Inl _, r') \<Rightarrow> (Inr (string_of_bytes (replicate (nat (sint l)) 0)), r')
                | (Inr b, r') \<Rightarrow> (Inr (string_of_bytes b), r')))"

fun read_strings :: "nat \<Rightarrow> bytes \<Rightarrow> (err + string list) \<times> bytes" where
  "read_strings 0 buf = (Inr [], buf)"
| "read_strings (Suc n) buf =
     (case read_string buf of
        (Inl e, r) \<Rightarrow> (Inl e, r)
      | (Inr s, r) \<Rightarrow>
          (case read_strings n r of
             (Inl e, r') \<Rightarrow> (Inl e, r')
           | (Inr ss, r') \<Rightarrow> (Inr (s # ss), r')))"

definition read_string_slice :: "bytes \<Rightarrow> (err + string list) \<times> bytes" where
  "read_string_slice buf =
     (case read_int 4 buf of
        (n, r) \<Rightarrow> if sint (n :: i32) < 0 then (Inl GoPanic, r) else read_strings (nat (sint n)) r)"

definition unmarshalWorkflowState :: "bytes \<Rightarrow> err + WorkflowStateRecord" where
  "unmarshalWorkflowState data =
     rbind (read_string data) (\<lambda>workflowID r.
       case read_int 4 r of (state, r) \<Rightarrow>
       case read_int 8 r of (submittedAt, r) \<Rightarrow>
       case read_int 8 r of (completedAt, r) \<Rightarrow>
         Inr \<lparr>wsr_WorkflowID = workflowID, wsr_State = WorkflowState_of_int32 state,
              SubmittedAtMs = submittedAt, CompletedAtMs = completedAt\<rparr>)"

definition unmarshalWorkerRecord :: "bytes \<Rightarrow> err + WorkerRecord" where
  "unmarshalWorkerRecord data =
     rbind (read_string data) (\<lambda>workerID r.
       case read_int 8 r of (lastHeartbeat, r) \<Rightarrow>
       rbind (read_string_slice r) (\<lambda>runningTaskIDs r.
       rbind (read_string_slice r) (\<lambda>queuedTaskIDs r.
       case read_int 8 r of (lastUpdated, r) \<Rightarrow>
         Inr \<lparr>WorkerID = workerID, LastHeartbeat = lastHeartbeat,
              RunningTaskIDs = runningTaskIDs, QueuedTaskIDs = queuedTaskIDs,
              wr_LastUpdated = lastUpdated\<rparr>)))"

section \<open>Which records survive the format\<close>

text \<open>
  Lengths are written as \<^verbatim>\<open>int32\<close>, and an empty string at the very end of the data reads
  back as \<^verbatim>\<open>EOF\<close>. A record that a bbolt bucket accepts is short enough
  (\<open>storable_task_by_size\<close> below).
\<close>

definition decodable_ids :: "string list \<Rightarrow> bool" where
  "decodable_ids ids \<longleftrightarrow> length ids < 2 ^ 31 \<and> (\<forall>s\<in>set ids. length s < 2 ^ 31) \<and> (ids = [] \<or> last ids \<noteq> [])"

definition storable_task :: "TaskStateRecord \<Rightarrow> bool" where
  "storable_task r \<longleftrightarrow>
     length (TaskID r) < 2 ^ 31 \<and> length (WorkflowID r) < 2 ^ 31 \<and>
     length (ExecutionID r) < 2 ^ 31 \<and> length (Output r) < 2 ^ 31 \<and>
     length (Error r) < 2 ^ 31 \<and> canonical_task_state (State r) \<and>
     decodable_ids (DownstreamTaskIDs r)"

definition storable_worker :: "WorkerRecord \<Rightarrow> bool" where
  "storable_worker r \<longleftrightarrow> length (WorkerID r) < 2 ^ 31 \<and>
     length (RunningTaskIDs r) < 2 ^ 31 \<and> length (QueuedTaskIDs r) < 2 ^ 31 \<and>
     (\<forall>s \<in> set (RunningTaskIDs r) \<union> set (QueuedTaskIDs r). length s < 2 ^ 31)"

section \<open>Decoding inverts encoding\<close>

lemma string_bytes [codec_simps]: "string_of_bytes (bytes_of_string s) = s"
  unfolding string_of_bytes_def bytes_of_string_def
  by (induction s) (simp_all add: unat_of_nat take_bit_eq_mod)

lemma length_bytes_of_string [simp]: "length (bytes_of_string s) = length s"
  by (simp add: bytes_of_string_def)
lemma bytes_of_string_Nil [simp]: "bytes_of_string s = [] \<longleftrightarrow> s = []"
  by (simp add: bytes_of_string_def)

lemma length_le_put [simp]: "length (le_put n w) = n"
  by (induction n arbitrary: w) auto

lemma le_get_le_put: "le_get (le_put n (w :: 'a::len word)) = (take_bit (8 * n) w :: 'a word)"
proof (induction n arbitrary: w)
  case 0
  then show ?case by simp
next
  case (Suc n)
  then show ?case
    by (auto intro!: bit_word_eqI simp: bit_simps)
qed

lemma sint_of_nat32: "n < 2 ^ 31 \<Longrightarrow> sint (word_of_nat n :: i32) = int n"
  by (subst of_int_of_nat_eq [symmetric], subst signed_of_int) (simp add: signed_take_bit_int_eq_self)

lemma binary_Read_int32 [codec_simps]: "binary_Read 4 (write_int32 w @ r) = (Inr w, r)"
  by (cases r) (auto simp: binary_Read_def write_int32_def le_get_le_put take_bit_word_eq_self simp flip: length_0_conv)

lemma binary_Read_int64 [codec_simps]: "binary_Read 8 (write_int64 w @ r) = (Inr w, r)"
  by (cases r) (auto simp: binary_Read_def write_int64_def le_get_le_put take_bit_word_eq_self simp flip: length_0_conv)

lemma buf_Read_append:
  "bs @ r \<noteq> [] \<Longrightarrow> buf_Read (length bs) (bs @ r) = (Inr bs, r)"
  by (auto simp: buf_Read_def)

lemma readString_writeString:
  assumes "length s < 2 ^ 31" and "s \<noteq> [] \<or> r \<noteq> []"
  shows "readString (writeString s @ r) = (Inr s, r)"
proof -
  have "buf_Read (length s) (bytes_of_string s @ r) = (Inr (bytes_of_string s), r)"
    using buf_Read_append [of "bytes_of_string s" r] assms(2) by auto
  with assms(1) show ?thesis
    by (simp add: readString_def writeString_def codec_simps sint_of_nat32)
qed

lemma writeString_not_Nil [simp]: "writeString s \<noteq> []" "write_int32 w \<noteq> []" "write_int64 v \<noteq> []"
  by (simp_all add: writeString_def write_int32_def write_int64_def flip: length_0_conv)

lemma readDownstream_concat:
  assumes "\<forall>s\<in>set ids. length s < 2 ^ 31" and "ids = [] \<or> last ids \<noteq> []"
  shows "readDownstream (length ids) (concat (map writeString ids)) = Inr ids"
  using assms
proof (induction ids)
  case Nil
  then show ?case by simp
next
  case (Cons s ids)
  have "s \<noteq> [] \<or> concat (map writeString ids) \<noteq> []"
    using Cons.prems(2) by (cases ids) auto
  then have "readString (writeString s @ concat (map writeString ids)) = (Inr s, concat (map writeString ids))"
    using Cons.prems(1) by (intro readString_writeString) auto
  with Cons show ?case
    by (auto split: if_splits)
qed

lemma rbind_simps [simp]:
  "rbind (Inr a, r) k = k a r" "rbind (Inl e, r) k = Inl e"
  by (simp_all add: rbind_def)

lemma task_record_roundtrip [codec_simps]:
  assumes "storable_task r"
  shows "unmarshalTaskRecord (marshalTaskRecord r) = Inr r"
  using assms
  by (simp add: unmarshalTaskRecord_def marshalTaskRecord_def storable_task_def decodable_ids_def
      readString_writeString readDownstream_concat codec_simps sint_of_nat32
      canonical_task_state_def)

lemma task_record_legacy:
  assumes "storable_task r"
  shows "unmarshalTaskRecord
           (writeString (TaskID r) @ writeString (WorkflowID r)
            @ write_int32 (int32_of_TaskState (State r)) @ writeString (ExecutionID r)
            @ write_int32 (AttemptCount r) @ write_int64 (LastUpdated r)
            @ writeString (Output r) @ writeString (Error r) @ write_int32 (InDegree r))
         = Inr (r\<lparr>DownstreamTaskIDs := []\<rparr>)"
  using assms binary_Read_int32 [of _ "[]"]
  by (simp add: unmarshalTaskRecord_def storable_task_def
      readString_writeString codec_simps canonical_task_state_def binary_Read_def [of 4 "[]"])

lemma length_writeString [simp]: "length (writeString s) = 4 + length s"
  by (simp add: writeString_def write_int32_def)

lemma length_write_int [simp]: "length (write_int32 w) = 4" "length (write_int64 v) = 8"
  by (simp_all add: write_int32_def write_int64_def)

lemma length_concat_writeString:
  "length (concat (map writeString ids)) = 4 * length ids + (\<Sum>s\<leftarrow>ids. length s)"
  by (induction ids) auto

lemma length_marshalTaskRecord:
  "length (marshalTaskRecord r) =
     44 + length (TaskID r) + length (WorkflowID r) + length (ExecutionID r)
     + length (Output r) + length (Error r)
     + 4 * length (DownstreamTaskIDs r) + (\<Sum>s\<leftarrow>DownstreamTaskIDs r. length s)"
  by (simp add: marshalTaskRecord_def length_concat_writeString)

lemma length_le_sum_lengths: "s \<in> set ids \<Longrightarrow> length s \<le> (\<Sum>s\<leftarrow>ids. length s)"
  by (rule member_le_sum_list) auto

lemma storable_task_by_size:
  assumes "length (marshalTaskRecord r) < 2 ^ 31" and "canonical_task_state (State r)"
    and "[] \<notin> set (DownstreamTaskIDs r)"
  shows "storable_task r"
proof -
  have "decodable_ids (DownstreamTaskIDs r)"
    unfolding decodable_ids_def
    using assms(1,3) length_le_sum_lengths [of _ "DownstreamTaskIDs r"]
    by (fastforce simp: length_marshalTaskRecord dest: last_in_set)
  with assms show ?thesis
    by (simp add: storable_task_def length_marshalTaskRecord)
qed

lemma read_int_write [codec_simps]:
  "read_int 4 (write_int32 w @ r) = (w, r)" "read_int 8 (write_int64 v @ r) = (v, r)"
  by (simp_all add: read_int_def codec_simps)

lemma read_int_write_end [codec_simps]: "read_int 8 (write_int64 v) = (v, [])"
  using read_int_write(2) [of v "[]"] by simp

lemma read_string_writeString:
  assumes "length s < 2 ^ 31" and "s \<noteq> [] \<or> r \<noteq> []"
  shows "read_string (writeString s @ r) = (Inr s, r)"
proof -
  have "buf_Read (length s) (bytes_of_string s @ r) = (Inr (bytes_of_string s), r)"
    using buf_Read_append [of "bytes_of_string s" r] assms(2) by auto
  with assms(1) show ?thesis
    by (simp add: read_string_def writeString_def codec_simps sint_of_nat32)
qed

lemma read_strings_concat:
  assumes "\<forall>s\<in>set ids. length s < 2 ^ 31" and "r \<noteq> []"
  shows "read_strings (length ids) (concat (map writeString ids) @ r) = (Inr ids, r)"
  using assms(1) by (induction ids) (auto simp: read_string_writeString assms(2))

lemma read_string_slice_write:
  assumes "\<forall>s\<in>set ids. length s < 2 ^ 31" and "length ids < 2 ^ 31" and "r \<noteq> []"
  shows "read_string_slice (write_int32 (word_of_nat (length ids)) @ concat (map writeString ids) @ r)
         = (Inr ids, r)"
  using assms by (simp add: read_string_slice_def codec_simps sint_of_nat32 read_strings_concat)

lemma workflow_state_roundtrip [codec_simps]:
  assumes "length (wsr_WorkflowID r) < 2 ^ 31" and "canonical_workflow_state (wsr_State r)"
  shows "unmarshalWorkflowState (marshalWorkflowState r) = Inr r"
  using assms
  by (simp add: unmarshalWorkflowState_def marshalWorkflowState_def read_string_writeString
      codec_simps canonical_workflow_state_def)

lemma worker_record_roundtrip [codec_simps]:
  assumes "storable_worker r"
  shows "unmarshalWorkerRecord (marshalWorkerRecord r) = Inr r"
  using assms
  by (simp add: unmarshalWorkerRecord_def marshalWorkerRecord_def read_string_writeString
      read_string_slice_write codec_simps storable_worker_def)

lemma readDownstream_prefix:
  assumes "\<forall>s\<in>set ids. length s < 2 ^ 31" and "r \<noteq> []"
  shows "readDownstream (length ids + n) (concat (map writeString ids) @ r) =
           (case readDownstream n r of Inl e \<Rightarrow> Inl e | Inr ss \<Rightarrow> Inr (ids @ ss))"
  using assms(1)
  by (induction ids) (auto simp: readString_writeString assms(2) split: sum.splits)

lemma readDownstream_empty_last: "readDownstream (Suc 0) (writeString []) = Inr []"
  by (simp add: readString_def writeString_def bytes_of_string_def buf_Read_def fatal_def
      binary_Read_int32 [of _ "[]", simplified])

section \<open>Properties\<close>

text \<open>
  C38. Whatever task record is small enough for a bucket value, has a state with a number
  of its own and names no task by the empty string, decodes to itself.
\<close>

theorem task_record_decodes_to_itself:
  assumes "length (marshalTaskRecord r) < 2 ^ 31"
    and "canonical_task_state (State r)"
    and "[] \<notin> set (DownstreamTaskIDs r)"
  shows "unmarshalTaskRecord (marshalTaskRecord r) = Inr r"
  using assms by (intro task_record_roundtrip storable_task_by_size)

definition sample_record :: TaskStateRecord where
  "sample_record =
     \<lparr>TaskID = ''build'', WorkflowID = ''wf-1'', State = TASK_RUNNING, ExecutionID = ''e-1'',
      AttemptCount = 1, LastUpdated = 1700000000000, Output = [], Error = ''exit 2'',
      InDegree = 0, DownstreamTaskIDs = [''test'', ''lint'']\<rparr>"

theorem task_record_decodes_to_itself_witness:
  "unmarshalTaskRecord (marshalTaskRecord sample_record) = Inr sample_record"
  by (rule task_record_decodes_to_itself)
     (simp_all add: sample_record_def marshalTaskRecord_def)

end
