(* ===== verification/Bolt.thy ===== *)
theory Bolt
  imports Codec
begin

text \<open>
  The libraries the store is written against, as a parameter. bbolt and the protobuf
  runtime are not part of the repository, so every store operation takes a record of the
  library calls it makes (\<open>bolt\<close>), over an arbitrary type of buckets, and the locale
  \<open>bolt_spec\<close> states what their documentation promises: a bucket is a map from non-empty
  keys to values of bounded size, \<^verbatim>\<open>ForEach\<close> visits every pair once in key order, and
  \<^verbatim>\<open>DB.Update\<close> either commits what its function did or leaves the database as it was.
  A commit may fail at any time.
\<close>

section \<open>The library interface\<close>

text \<open>The five top-level buckets that \<^verbatim>\<open>store.New\<close> creates.\<close>

record 'b DB =
  bucket_workflows :: 'b
  bucket_task_state :: 'b
  bucket_workers :: 'b
  bucket_meta :: 'b
  bucket_workflow_state :: 'b

text \<open>
  \<open>db_update db r\<close> is the effect of \<^verbatim>\<open>db.Update(fn)\<close> on the database \<open>db\<close> when \<open>fn\<close>, run
  on it, ends with the result \<open>r\<close> (an error, or the modified buckets): the database
  afterwards and the error that \<^verbatim>\<open>Update\<close> returns, if any.
\<close>

record 'b bolt =
  b_empty :: 'b
  b_get :: "'b \<Rightarrow> string \<Rightarrow> bytes option"
  b_put :: "'b \<Rightarrow> string \<Rightarrow> bytes \<Rightarrow> err + 'b"
  b_delete :: "'b \<Rightarrow> string \<Rightarrow> err + 'b"
  b_foreach :: "'b \<Rightarrow> (string \<times> bytes) list"
  db_update :: "'b DB \<Rightarrow> err + 'b DB \<Rightarrow> 'b DB \<times> err option"
  proto_marshal :: "WorkflowSpec \<Rightarrow> err + bytes"
  proto_unmarshal :: "bytes \<Rightarrow> err + WorkflowSpec"

text \<open>
  \<^verbatim>\<open>db.Update\<close> with the variables its function captures: they are meaningful to the
  callers only when no error is returned.
\<close>

definition Update :: "'b bolt \<Rightarrow> 'b DB \<Rightarrow> err + 'b DB \<times> 'a \<Rightarrow> 'b DB \<times> (err + 'a)" where
  "Update B db r =
     (case r of
        Inl e \<Rightarrow> (case db_update B db (Inl e) of
                    (db', None) \<Rightarrow> (db', Inl e)
                  | (db', Some e') \<Rightarrow> (db', Inl e'))
      | Inr (db1, a) \<Rightarrow> (case db_update B db (Inr db1) of
                           (db', None) \<Rightarrow> (db', Inr a)
                         | (db', Some e) \<Rightarrow> (db', Inl e)))"

text \<open>
  \<^verbatim>\<open>store.New\<close>: \<open>opened\<close> is what \<^verbatim>\<open>bbolt.Open\<close> returns, an error or the buckets that the file
  already holds; \<open>created\<close> is the error, if any, of the transaction in which
  \<^verbatim>\<open>CreateBucketIfNotExists\<close> adds the missing ones.
\<close>

definition create_bucket :: "'b bolt \<Rightarrow> (string \<rightharpoonup> 'b) \<Rightarrow> string \<Rightarrow> 'b" where
  "create_bucket B file name = (case file name of Some b \<Rightarrow> b | None \<Rightarrow> b_empty B)"

definition New :: "'b bolt \<Rightarrow> err + (string \<rightharpoonup> 'b) \<Rightarrow> err option \<Rightarrow> err + 'b DB" where
  "New B opened created =
     (case opened of
        Inl e \<Rightarrow> Inl e
      | Inr file \<Rightarrow>
          (case created of
             Some e \<Rightarrow> Inl e
           | None \<Rightarrow>
               Inr \<lparr>bucket_workflows = create_bucket B file ''workflows'',
                    bucket_task_state = create_bucket B file ''task_state'',
                    bucket_workers = create_bucket B file ''workers'',
                    bucket_meta = create_bucket B file ''meta'',
                    bucket_workflow_state = create_bucket B file ''workflow_state''\<rparr>))"

section \<open>What the libraries promise\<close>

locale bolt_spec =
  fixes B :: "'b bolt"
  assumes get_empty: "b_get B (b_empty B) k = None"
    and get_put: "b_put B b k v = Inr b' \<Longrightarrow>
          b_get B b' k' = (if k' = k then Some v else b_get B b k')"
    and put_limits: "b_put B b k v = Inr b' \<Longrightarrow>
          k \<noteq> [] \<and> length k \<le> 32768 \<and> length v \<le> 2147483646"
    and put_accepts: "k \<noteq> [] \<Longrightarrow> length k \<le> 32768 \<Longrightarrow> length v \<le> 2147483646 \<Longrightarrow>
          \<exists>b'. b_put B b k v = Inr b'"
    and put_error: "b_put B b k v = Inl e \<Longrightarrow> \<exists>m. e = LibErr m"
    and get_delete: "b_delete B b k = Inr b' \<Longrightarrow>
          b_get B b' k' = (if k' = k then None else b_get B b k')"
    and delete_error: "b_delete B b k = Inl e \<Longrightarrow> \<exists>m. e = LibErr m"
    and foreach_get: "(k, v) \<in> set (b_foreach B b) \<longleftrightarrow> b_get B b k = Some v"
    and foreach_sorted: "sorted (map fst (b_foreach B b))"
    and foreach_distinct: "distinct (map fst (b_foreach B b))"
    and update_error: "db_update B db (Inl e) = (db, Some e)"
    and update_commit: "db_update B db (Inr db') = (db', None) \<or>
          (\<exists>m. db_update B db (Inr db') = (db, Some (LibErr m)))"
    and proto_roundtrip: "proto_marshal B w = Inr d \<Longrightarrow> proto_unmarshal B d = Inr w"
    and proto_marshal_error: "proto_marshal B w = Inl e \<Longrightarrow> \<exists>m. e = LibErr m"
    and proto_unmarshal_error: "proto_unmarshal B d = Inl e \<Longrightarrow> \<exists>m. e = LibErr m"
begin

lemma Update_Inl [simp]: "Update B db (Inl e) = (db, Inl e)"
  by (simp add: Update_def update_error)

lemma Update_Inr_cases:
  obtains (commit) "Update B db (Inr (db1, a)) = (db1, Inr a)"
  | (failed) m where "Update B db (Inr (db1, a)) = (db, Inl (LibErr m))"
  using update_commit [of db db1] by (auto simp: Update_def)

text \<open>A transaction that returns an error leaves the database as it was.\<close>

lemma Update_error_unchanged: "Update B db r = (db', Inl e) \<Longrightarrow> db' = db"
  using update_commit [of db] by (auto simp: Update_def update_error split: sum.splits prod.splits option.splits)
     (metis Pair_inject option.distinct(1))+

lemma Update_ok:
  assumes "Update B db r = (db', Inr a)"
  shows "r = Inr (db', a)"
proof (cases r)
  case (Inl e)
  with assms show ?thesis by simp
next
  case (Inr p)
  obtain db1 a1 where p: "p = (db1, a1)" by fastforce
  show ?thesis
    using assms unfolding Inr p
    by (cases rule: Update_Inr_cases [of db db1 a1]) auto
qed

lemma Update_error_cases:
  assumes "Update B db r = (db', Inl e)"
  shows "r = Inl e \<or> (\<exists>m. e = LibErr m)"
proof (cases r)
  case (Inl e)
  with assms show ?thesis by simp
next
  case (Inr p)
  obtain db1 a1 where p: "p = (db1, a1)" by fastforce
  show ?thesis
    using assms unfolding Inr p
    by (cases rule: Update_Inr_cases [of db db1 a1]) auto
qed

lemma finite_bucket: "finite {k. b_get B b k \<noteq> None}"
proof -
  have "{k. b_get B b k \<noteq> None} = fst ` set (b_foreach B b)"
    by (force simp: foreach_get [symmetric])
  then show ?thesis by simp
qed

end

end
