(* ===== verification/Task_Store.thy ===== *)
theory Task_Store
  imports Bolt "HOL-Library.While_Combinator"
begin

text \<open>
  Task state: the operations of \<^verbatim>\<open>internal/store/task_state.go\<close> over the library
  interface of theory \<open>Bolt\<close>. Every operation takes the library \<open>B\<close>, the clock readings
  it makes (\<open>now\<close>, or \<open>clk i\<close> for the reading of the \<open>i\<close>-th round of a loop) and the
  database, and returns the database afterwards with an error or a value. Operations that
  only read return no database; a scan with \<^verbatim>\<open>ForEach\<close> returns what it had collected when
  it stopped and the error that stopped it.
\<close>

section \<open>Operations\<close>

type_synonym clock = "nat \<Rightarrow> i64"

definition terminal :: "TaskState \<Rightarrow> bool" where
  "terminal s \<longleftrightarrow> s = TASK_COMPLETE \<or> s = TASK_FAILED \<or> s = TASK_SKIPPED"

definition GetTask :: "'b bolt \<Rightarrow> 'b DB \<Rightarrow> string \<Rightarrow> err + TaskStateRecord" where
  "GetTask B db taskID =
     (case b_get B (bucket_task_state db) taskID of
        None \<Rightarrow> Inl ErrTaskNotFound
      | Some data \<Rightarrow> unmarshalTaskRecord data)"

text \<open>\<^verbatim>\<open>b.Put([]byte(id), marshalTaskRecord(record))\<close> on the task bucket of a transaction.\<close>

definition put_task :: "'b bolt \<Rightarrow> 'b DB \<Rightarrow> string \<Rightarrow> TaskStateRecord \<Rightarrow> err + 'b DB" where
  "put_task B db taskID record =
     (case b_put B (bucket_task_state db) taskID (marshalTaskRecord record) of
        Inl e \<Rightarrow> Inl e
      | Inr b \<Rightarrow> Inr (db\<lparr>bucket_task_state := b\<rparr>))"

definition initial_record ::
    "i64 \<Rightarrow> string \<Rightarrow> (string \<rightharpoonup> i32) \<Rightarrow> (string \<rightharpoonup> string list) \<Rightarrow> TaskSpec \<Rightarrow> TaskStateRecord" where
  "initial_record now workflowID inDegrees downstream task =
     \<lparr>TaskID = TaskId task, WorkflowID = workflowID, State = TASK_PENDING, ExecutionID = [],
      AttemptCount = 0, LastUpdated = now, Output = [], Error = [],
      InDegree = (case inDegrees (TaskId task) of None \<Rightarrow> 0 | Some n \<Rightarrow> n),
      DownstreamTaskIDs = (case downstream (TaskId task) of None \<Rightarrow> [] | Some ds \<Rightarrow> ds)\<rparr>"

fun init_tasks ::
    "'b bolt \<Rightarrow> clock \<Rightarrow> nat \<Rightarrow> string \<Rightarrow> (string \<rightharpoonup> i32) \<Rightarrow> (string \<rightharpoonup> string list)
     \<Rightarrow> TaskSpec list \<Rightarrow> 'b DB \<Rightarrow> err + 'b DB" where
  "init_tasks B clk i workflowID inDegrees downstream [] db = Inr db"
| "init_tasks B clk i workflowID inDegrees downstream (task # tasks) db =
     (case put_task B db (TaskId task)
             (initial_record (clk i) workflowID inDegrees downstream task) of
        Inl e \<Rightarrow> Inl e
      | Inr db' \<Rightarrow> init_tasks B clk (Suc i) workflowID inDegrees downstream tasks db')"

definition InitializeTasksForWorkflow ::
    "'b bolt \<Rightarrow> clock \<Rightarrow> 'b DB \<Rightarrow> string \<Rightarrow> TaskSpec list \<Rightarrow> (string \<rightharpoonup> i32)
     \<Rightarrow> (string \<rightharpoonup> string list) \<Rightarrow> 'b DB \<times> (err + unit)" where
  "InitializeTasksForWorkflow B clk db workflowID tasks inDegrees downstream =
     Update B db
       (case init_tasks B clk 0 workflowID inDegrees downstream tasks db of
          Inl e \<Rightarrow> Inl e
        | Inr db' \<Rightarrow> Inr (db', ()))"

text \<open>
  The read-modify-write transaction that \<^verbatim>\<open>UpdateTaskState\<close>, \<^verbatim>\<open>AssignTask\<close>, \<^verbatim>\<open>FailTask\<close>
  and \<^verbatim>\<open>RequeueTask\<close> each spell out: get and decode, change some fields, encode and put.
\<close>

definition modify_task ::
    "'b bolt \<Rightarrow> 'b DB \<Rightarrow> string \<Rightarrow> (TaskStateRecord \<Rightarrow> TaskStateRecord) \<Rightarrow> 'b DB \<times> (err + unit)" where
  "modify_task B db taskID change =
     Update B db
       (case GetTask B db taskID of
          Inl e \<Rightarrow> Inl e
        | Inr record \<Rightarrow>
            (case put_task B db taskID (change record) of
               Inl e \<Rightarrow> Inl e
             | Inr db' \<Rightarrow> Inr (db', ())))"

definition UpdateTaskState ::
    "'b bolt \<Rightarrow> i64 \<Rightarrow> 'b DB \<Rightarrow> string \<Rightarrow> TaskState \<Rightarrow> 'b DB \<times> (err + unit)" where
  "UpdateTaskState B now db taskID newState =
     modify_task B db taskID (\<lambda>record. record\<lparr>State := newState, LastUpdated := now\<rparr>)"

definition AssignTask ::
    "'b bolt \<Rightarrow> i64 \<Rightarrow> 'b DB \<Rightarrow> string \<Rightarrow> string \<Rightarrow> 'b DB \<times> (err + unit)" where
  "AssignTask B now db taskID executionID =
     modify_task B db taskID
       (\<lambda>record. record\<lparr>State := TASK_RUNNING, ExecutionID := executionID, LastUpdated := now\<rparr>)"

definition FailTask ::
    "'b bolt \<Rightarrow> i64 \<Rightarrow> 'b DB \<Rightarrow> string \<Rightarrow> string \<Rightarrow> i32 \<Rightarrow> 'b DB \<times> (err + unit)" where
  "FailTask B now db taskID errMsg attemptCount =
     modify_task B db taskID
       (\<lambda>record. record\<lparr>State := TASK_FAILED, Error := errMsg, AttemptCount := attemptCount,
                        LastUpdated := now\<rparr>)"

definition RequeueTask ::
    "'b bolt \<Rightarrow> i64 \<Rightarrow> 'b DB \<Rightarrow> string \<Rightarrow> string \<Rightarrow> 'b DB \<times> (err + unit)" where
  "RequeueTask B now db taskID newExecutionID =
     modify_task B db taskID
       (\<lambda>record. record\<lparr>State := TASK_QUEUED, ExecutionID := newExecutionID, LastUpdated := now\<rparr>)"

text \<open>
  The loop of \<^verbatim>\<open>CompleteTask\<close> over the ids that depend on the completed task; \<open>ready\<close> is
  \<^verbatim>\<open>downstreamReady\<close>. A missing or undecodable record and a task that is not PENDING are
  passed over.
\<close>

definition decremented :: "i64 \<Rightarrow> TaskStateRecord \<Rightarrow> TaskStateRecord" where
  "decremented now ds =
     (let n = InDegree ds - 1;
          n = (if sint n < 0 then 0 else n);
          ds = ds\<lparr>InDegree := n\<rparr>;
          ds = (if n = 0 then ds\<lparr>State := TASK_QUEUED\<rparr> else ds)
      in ds\<lparr>LastUpdated := now\<rparr>)"

fun decrement_downstream ::
    "'b bolt \<Rightarrow> clock \<Rightarrow> nat \<Rightarrow> string list \<Rightarrow> 'b DB \<Rightarrow> string list \<Rightarrow> err + 'b DB \<times> string list" where
  "decrement_downstream B clk i [] db ready = Inr (db, ready)"
| "decrement_downstream B clk i (downstreamID # ids) db ready =
     (case b_get B (bucket_task_state db) downstreamID of
        None \<Rightarrow> decrement_downstream B clk (Suc i) ids db ready
      | Some dsData \<Rightarrow>
          (case unmarshalTaskRecord dsData of
             Inl e \<Rightarrow> if fatal e then Inl e else decrement_downstream B clk (Suc i) ids db ready
           | Inr ds \<Rightarrow>
               if State ds \<noteq> TASK_PENDING then decrement_downstream B clk (Suc i) ids db ready
               else
                 (case put_task B db downstreamID (decremented (clk i) ds) of
                    Inl e \<Rightarrow> Inl e
                  | Inr db' \<Rightarrow>
                      decrement_downstream B clk (Suc i) ids db'
                        (if InDegree (decremented (clk i) ds) = 0
                         then ready @ [downstreamID] else ready))))"

definition CompleteTask ::
    "'b bolt \<Rightarrow> clock \<Rightarrow> 'b DB \<Rightarrow> string \<Rightarrow> string \<Rightarrow> string \<Rightarrow> 'b DB \<times> (err + string list)" where
  "CompleteTask B clk db taskID executionID output =
     Update B db
       (case GetTask B db taskID of
          Inl e \<Rightarrow> Inl e
        | Inr task \<Rightarrow>
            if ExecutionID task \<noteq> executionID then Inl ErrStaleExecution
            else if State task = TASK_COMPLETE then Inr (db, [])
            else
              (case put_task B db taskID
                      (task\<lparr>State := TASK_COMPLETE, Output := output, LastUpdated := clk 0\<rparr>) of
                 Inl e \<Rightarrow> Inl e
               | Inr db' \<Rightarrow> decrement_downstream B clk 1 (DownstreamTaskIDs task) db' []))"

text \<open>\<^verbatim>\<open>View\<close> with \<^verbatim>\<open>ForEach\<close>: collect from the decoded records, stop at the first error.\<close>

fun scan :: "(TaskStateRecord \<Rightarrow> 'a option) \<Rightarrow> (string \<times> bytes) list \<Rightarrow> 'a list \<times> err option" where
  "scan f [] = ([], None)"
| "scan f ((k, v) # kvs) =
     (case unmarshalTaskRecord v of
        Inl e \<Rightarrow> ([], Some e)
      | Inr record \<Rightarrow>
          (case scan f kvs of
             (xs, e) \<Rightarrow> ((case f record of None \<Rightarrow> xs | Some x \<Rightarrow> x # xs), e)))"

definition GetTasksInState :: "'b bolt \<Rightarrow> 'b DB \<Rightarrow> TaskState \<Rightarrow> string list \<times> err option" where
  "GetTasksInState B db state =
     scan (\<lambda>record. if State record = state then Some (TaskID record) else None)
       (b_foreach B (bucket_task_state db))"

definition GetTasksForWorkflow :: "'b bolt \<Rightarrow> 'b DB \<Rightarrow> string \<Rightarrow> string list \<times> err option" where
  "GetTasksForWorkflow B db workflowID =
     scan (\<lambda>record. if WorkflowID record = workflowID then Some (TaskID record) else None)
       (b_foreach B (bucket_task_state db))"

definition status_of :: "TaskStateRecord \<Rightarrow> TaskStatus" where
  "status_of record =
     \<lparr>ts_TaskId = TaskID record, ts_State = State record, ts_AttemptCount = AttemptCount record,
      ts_Output = Output record, ts_Error = Error record\<rparr>"

definition GetTaskStatusesForWorkflow ::
    "'b bolt \<Rightarrow> 'b DB \<Rightarrow> string \<Rightarrow> TaskStatus list \<times> err option" where
  "GetTaskStatusesForWorkflow B db workflowID =
     scan (\<lambda>record. if WorkflowID record \<noteq> workflowID then None else Some (status_of record))
       (b_foreach B (bucket_task_state db))"

text \<open>
  \<^verbatim>\<open>CancelWorkflowTasks\<close> puts into the bucket that its \<^verbatim>\<open>ForEach\<close> is visiting. The model
  takes the pairs of the bucket as they were when the loop began, each put replacing the
  value of the key being visited.
\<close>

fun cancel_tasks ::
    "'b bolt \<Rightarrow> clock \<Rightarrow> nat \<Rightarrow> string \<Rightarrow> (string \<times> bytes) list \<Rightarrow> 'b DB \<Rightarrow> string list
     \<Rightarrow> err + 'b DB \<times> string list" where
  "cancel_tasks B clk i workflowID [] db cancelled = Inr (db, cancelled)"
| "cancel_tasks B clk i workflowID ((k, v) # kvs) db cancelled =
     (case unmarshalTaskRecord v of
        Inl e \<Rightarrow> Inl e
      | Inr record \<Rightarrow>
          if WorkflowID record \<noteq> workflowID \<or> terminal (State record)
          then cancel_tasks B clk (Suc i) workflowID kvs db cancelled
          else
            (case put_task B db k (record\<lparr>State := TASK_SKIPPED, LastUpdated := clk i\<rparr>) of
               Inl e \<Rightarrow> Inl e
             | Inr db' \<Rightarrow>
                 cancel_tasks B clk (Suc i) workflowID kvs db' (cancelled @ [TaskID record])))"

definition CancelWorkflowTasks ::
    "'b bolt \<Rightarrow> clock \<Rightarrow> 'b DB \<Rightarrow> string \<Rightarrow> 'b DB \<times> (err + string list)" where
  "CancelWorkflowTasks B clk db workflowID =
     Update B db
       (cancel_tasks B clk 0 workflowID (b_foreach B (bucket_task_state db)) db [])"

text \<open>
  The breadth-first loop of \<^verbatim>\<open>SkipDownstreamTasks\<close>. Its state is the database, the
  visited set, the queue, the ids skipped so far, the number of rounds, and a panic that
  ended it.
\<close>

record 'b skip_loop =
  sl_db :: "'b DB"
  sl_visited :: "string set"
  sl_queue :: "string list"
  sl_skipped :: "string list"
  sl_round :: nat
  sl_panic :: "err option"

definition skip_guard :: "'b skip_loop \<Rightarrow> bool" where
  "skip_guard s \<longleftrightarrow> sl_queue s \<noteq> [] \<and> sl_panic s = None"

definition skip_visit :: "'b bolt \<Rightarrow> clock \<Rightarrow> string \<Rightarrow> 'b skip_loop \<Rightarrow> 'b skip_loop" where
  "skip_visit B clk taskID s =
     (case GetTask B (sl_db s) taskID of
        Inl e \<Rightarrow> if fatal e then s\<lparr>sl_panic := Some e\<rparr> else s
      | Inr task \<Rightarrow>
          (let s = s\<lparr>sl_queue := sl_queue s @ DownstreamTaskIDs task\<rparr> in
           if terminal (State task) then s
           else
             (case UpdateTaskState B (clk (sl_round s)) (sl_db s) taskID TASK_SKIPPED of
                (db', Inl e) \<Rightarrow>
                  if fatal e then s\<lparr>sl_db := db', sl_panic := Some e\<rparr> else s\<lparr>sl_db := db'\<rparr>
              | (db', Inr _) \<Rightarrow> s\<lparr>sl_db := db', sl_skipped := sl_skipped s @ [taskID]\<rparr>)))"

definition skip_step :: "'b bolt \<Rightarrow> clock \<Rightarrow> 'b skip_loop \<Rightarrow> 'b skip_loop" where
  "skip_step B clk s =
     (case sl_queue s of
        [] \<Rightarrow> s
      | taskID # queue \<Rightarrow>
          (let s = s\<lparr>sl_queue := queue, sl_round := Suc (sl_round s)\<rparr> in
           if taskID \<in> sl_visited s then s
           else skip_visit B clk taskID (s\<lparr>sl_visited := insert taskID (sl_visited s)\<rparr>)))"

definition SkipDownstreamTasks ::
    "'b bolt \<Rightarrow> clock \<Rightarrow> 'b DB \<Rightarrow> string \<Rightarrow> 'b DB \<times> (err + string list)" where
  "SkipDownstreamTasks B clk db failedTaskID =
     (case GetTask B db failedTaskID of
        Inl e \<Rightarrow> (db, Inl e)
      | Inr failedTask \<Rightarrow>
          (case while_option skip_guard (skip_step B clk)
                  \<lparr>sl_db = db, sl_visited = {}, sl_queue = DownstreamTaskIDs failedTask,
                   sl_skipped = [], sl_round = 0, sl_panic = None\<rparr> of
             None \<Rightarrow> (db, Inl Diverges)
           | Some s \<Rightarrow>
               (sl_db s, (case sl_panic s of Some e \<Rightarrow> Inl e | None \<Rightarrow> Inr (sl_skipped s)))))"

definition IsWorkflowComplete :: "'b bolt \<Rightarrow> 'b DB \<Rightarrow> string \<Rightarrow> bool \<times> err option" where
  "IsWorkflowComplete B db workflowID =
     (case scan (\<lambda>record. if WorkflowID record = workflowID \<and> \<not> terminal (State record)
                          then Some (TaskID record) else None)
             (b_foreach B (bucket_task_state db)) of
        (unfinished, e) \<Rightarrow> (unfinished = [], e))"

end
