(* ===== verification/Task_Table.thy ===== *)
theory Task_Table
  imports Task_Store
begin

text \<open>
  What the task store promises. \<open>task_table\<close> abstracts the task bucket to a map from task
  ids to records. Under the invariant \<open>tasks_wf\<close> every operation of theory \<open>Task_Store\<close> is
  shown to act on that map as stated by its case rule (\<open>modify_task_cases\<close>,
  \<open>CompleteTask_cases\<close>, \<open>CancelWorkflowTasks_cases\<close>, \<open>SkipDownstreamTasks_ok\<close>,
  \<open>InitializeTasksForWorkflow_cases\<close>), to keep the invariant, to touch no other bucket, and
  to leave the database unchanged when it returns an error. The breadth-first loop of
  \<^verbatim>\<open>SkipDownstreamTasks\<close> is shown to end.
\<close>

section \<open>The task table\<close>

definition task_table :: "'b bolt \<Rightarrow> 'b DB \<Rightarrow> string \<rightharpoonup> TaskStateRecord" where
  "task_table B db = (\<lambda>t. case GetTask B db t of Inl _ \<Rightarrow> None | Inr r \<Rightarrow> Some r)"

text \<open>
  Well-formedness of a record under its key: what is stored decodes and is within the
  limits of a bucket, the record carries its own key, and no downstream id is empty.
\<close>

definition record_wf :: "string \<Rightarrow> TaskStateRecord \<Rightarrow> bool" where
  "record_wf k r \<longleftrightarrow> TaskID r = k \<and> canonical_task_state (State r) \<and> [] \<notin> set (DownstreamTaskIDs r)"

definition tasks_wf :: "'b bolt \<Rightarrow> 'b DB \<Rightarrow> bool" where
  "tasks_wf B db \<longleftrightarrow>
     (\<forall>k d. b_get B (bucket_task_state db) k = Some d \<longrightarrow>
        k \<noteq> [] \<and> length k \<le> 32768 \<and> length d \<le> 2147483646 \<and>
        (\<exists>r. d = marshalTaskRecord r \<and> storable_task r \<and> record_wf k r))"

text \<open>\<open>db'\<close> differs from \<open>db\<close> at most in the task bucket.\<close>

definition only_tasks_changed :: "'b DB \<Rightarrow> 'b DB \<Rightarrow> bool" where
  "only_tasks_changed db db' \<longleftrightarrow> db' = db\<lparr>bucket_task_state := bucket_task_state db'\<rparr>"

section \<open>Specifications on the table\<close>

lemma only_tasks_changed_refl [simp]: "only_tasks_changed db db"
  by (simp add: only_tasks_changed_def)

lemma only_tasks_changed_trans [trans]:
  assumes "only_tasks_changed a b" and "only_tasks_changed b c"
  shows "only_tasks_changed a c"
  using assms by (cases a; cases b; cases c) (simp add: only_tasks_changed_def)

lemma only_tasks_changedD:
  assumes "only_tasks_changed db db'"
  shows "bucket_workflows db' = bucket_workflows db" "bucket_workers db' = bucket_workers db"
    "bucket_meta db' = bucket_meta db" "bucket_workflow_state db' = bucket_workflow_state db"
  using assms by (cases db; cases db'; simp add: only_tasks_changed_def)+

lemma decremented_simps [simp]:
  "TaskID (decremented now r) = TaskID r" "WorkflowID (decremented now r) = WorkflowID r"
  "DownstreamTaskIDs (decremented now r) = DownstreamTaskIDs r"
  "ExecutionID (decremented now r) = ExecutionID r"
  "AttemptCount (decremented now r) = AttemptCount r"
  by (simp_all add: decremented_def Let_def)

lemma record_wf_decremented: "record_wf k r \<Longrightarrow> record_wf k (decremented now r)"
  by (auto simp: record_wf_def decremented_def Let_def)

fun abs_decrement ::
    "clock \<Rightarrow> nat \<Rightarrow> string list \<Rightarrow> (string \<rightharpoonup> TaskStateRecord) \<Rightarrow> string list
     \<Rightarrow> (string \<rightharpoonup> TaskStateRecord) \<times> string list" where
  "abs_decrement clk i [] T ready = (T, ready)"
| "abs_decrement clk i (d # ids) T ready =
     (case T d of
        None \<Rightarrow> abs_decrement clk (Suc i) ids T ready
      | Some ds \<Rightarrow>
          if State ds \<noteq> TASK_PENDING then abs_decrement clk (Suc i) ids T ready
          else abs_decrement clk (Suc i) ids (T(d \<mapsto> decremented (clk i) ds))
                 (if InDegree (decremented (clk i) ds) = 0 then ready @ [d] else ready))"

definition task_keys :: "'b bolt \<Rightarrow> 'b DB \<Rightarrow> string list" where
  "task_keys B db = map fst (b_foreach B (bucket_task_state db))"

definition cancellable :: "string \<Rightarrow> TaskStateRecord \<Rightarrow> bool" where
  "cancellable w r \<longleftrightarrow> WorkflowID r = w \<and> \<not> terminal (State r)"

definition cancels :: "string \<Rightarrow> TaskStateRecord \<Rightarrow> TaskStateRecord \<Rightarrow> bool" where
  "cancels w r r' \<longleftrightarrow>
     (if cancellable w r then \<exists>now. r' = r\<lparr>State := TASK_SKIPPED, LastUpdated := now\<rparr> else r' = r)"

text \<open>A database on which no commit fails.\<close>

definition reliable :: "'b bolt \<Rightarrow> bool" where
  "reliable B \<longleftrightarrow> (\<forall>db db'. db_update B db (Inr db') = (db', None))"

definition ds_rel :: "(string \<rightharpoonup> TaskStateRecord) \<Rightarrow> (string \<times> string) set" where
  "ds_rel T = {(u, v). \<exists>r. T u = Some r \<and> v \<in> set (DownstreamTaskIDs r)}"

definition skips :: "bool \<Rightarrow> TaskStateRecord \<Rightarrow> TaskStateRecord \<Rightarrow> bool" where
  "skips b r r' \<longleftrightarrow>
     (if b then \<not> terminal (State r) \<and> (\<exists>now. r' = r\<lparr>State := TASK_SKIPPED, LastUpdated := now\<rparr>)
      else r' = r)"

definition skip_inv ::
    "'b bolt \<Rightarrow> 'b DB \<Rightarrow> string \<Rightarrow> 'b skip_loop \<Rightarrow> bool" where
  "skip_inv B db t s \<longleftrightarrow>
     sl_panic s = None \<and> tasks_wf B (sl_db s) \<and> only_tasks_changed db (sl_db s) \<and>
     sl_visited s \<subseteq> (ds_rel (task_table B db))\<^sup>+ `` {t} \<and>
     set (sl_queue s) \<subseteq> (ds_rel (task_table B db))\<^sup>+ `` {t} \<and>
     ds_rel (task_table B db) `` insert t (sl_visited s) \<subseteq> sl_visited s \<union> set (sl_queue s) \<and>
     set (sl_skipped s) \<subseteq> sl_visited s \<and> distinct (sl_skipped s) \<and>
     (\<forall>v. rel_option (skips (v \<in> set (sl_skipped s))) (task_table B db v) (task_table B (sl_db s) v)) \<and>
     (reliable B \<longrightarrow> (\<forall>v\<in>sl_visited s. \<forall>r. task_table B db v = Some r \<longrightarrow>
        \<not> terminal (State r) \<longrightarrow> v \<in> set (sl_skipped s)))"

definition skip_order :: "'b bolt \<Rightarrow> 'b DB \<Rightarrow> ('b skip_loop \<times> 'b skip_loop) set" where
  "skip_order B db = inv_image (less_than <*lex*> less_than)
     (\<lambda>s. (card (dom (task_table B db) - sl_visited s), length (sl_queue s)))"

lemma wf_skip_order: "wf (skip_order B db)"
  by (simp add: skip_order_def wf_inv_image wf_lex_prod)

lemma skips_downstream: "skips b r r' \<Longrightarrow> DownstreamTaskIDs r' = DownstreamTaskIDs r"
  by (auto simp: skips_def split: if_splits)

section \<open>The operations meet their specifications\<close>

context bolt_spec
begin

lemma task_bucket_cases:
  assumes "tasks_wf B db"
  obtains
    (absent) "b_get B (bucket_task_state db) t = None" "task_table B db t = None"
  | (stored) r where "b_get B (bucket_task_state db) t = Some (marshalTaskRecord r)"
      "task_table B db t = Some r" "storable_task r" "record_wf t r"
proof (cases "b_get B (bucket_task_state db) t")
  case None
  then show ?thesis by (intro absent) (simp_all add: task_table_def GetTask_def)
next
  case (Some d)
  with assms obtain r where "d = marshalTaskRecord r" "storable_task r" "record_wf t r"
    by (auto simp: tasks_wf_def)
  with Some show ?thesis
    by (intro stored) (simp_all add: task_table_def GetTask_def codec_simps)
qed

lemma GetTask_table:
  assumes "tasks_wf B db"
  shows "GetTask B db t = (case task_table B db t of None \<Rightarrow> Inl ErrTaskNotFound | Some r \<Rightarrow> Inr r)"
  using assms by (cases rule: task_bucket_cases [of db t]) (simp_all add: GetTask_def codec_simps)

lemma raw_get_table:
  assumes "tasks_wf B db"
  shows "b_get B (bucket_task_state db) t = map_option marshalTaskRecord (task_table B db t)"
  using assms by (cases rule: task_bucket_cases [of db t]) simp_all

lemma table_record:
  assumes "tasks_wf B db" and "task_table B db t = Some r"
  shows "record_wf t r" and "storable_task r"
  using assms by (cases rule: task_bucket_cases [of db t]; simp)+

lemma finite_task_table: "finite (dom (task_table B db))"
  by (rule finite_subset [OF _ finite_bucket [of "bucket_task_state db"]])
     (auto simp: task_table_def GetTask_def split: option.splits)

lemma put_task_ok:
  assumes "tasks_wf B db" and "record_wf k r" and "put_task B db k r = Inr db'"
  shows "tasks_wf B db'" and "task_table B db' = (task_table B db)(k \<mapsto> r)"
    and "only_tasks_changed db db'"
proof -
  from assms(3) obtain b where b: "b_put B (bucket_task_state db) k (marshalTaskRecord r) = Inr b"
    and db': "db' = db\<lparr>bucket_task_state := b\<rparr>"
    by (auto simp: put_task_def split: sum.splits)
  have "length (marshalTaskRecord r) < 2 ^ 31"
    using put_limits [OF b] by simp
  with assms(2) have st: "storable_task r"
    by (intro storable_task_by_size) (auto simp: record_wf_def)
  show "tasks_wf B db'"
    using assms(1,2) st put_limits [OF b] by (auto simp: tasks_wf_def db' get_put [OF b])
  show "task_table B db' = (task_table B db)(k \<mapsto> r)"
    using st by (auto simp: task_table_def GetTask_def db' get_put [OF b] codec_simps)
  show "only_tasks_changed db db'"
    by (simp add: only_tasks_changed_def db')
qed

lemma put_task_error: "put_task B db k r = Inl e \<Longrightarrow> \<exists>m. e = LibErr m"
  by (auto simp: put_task_def dest: put_error split: sum.splits)

lemma put_task_accepts:
  assumes "k \<noteq> []" and "length k \<le> 32768" and "length (marshalTaskRecord r) \<le> 2147483646"
  shows "\<exists>db'. put_task B db k r = Inr db'"
  using put_accepts [OF assms, of "bucket_task_state db"] by (auto simp: put_task_def)

lemma modify_task_cases:
  assumes "tasks_wf B db" and "\<And>r. record_wf t r \<Longrightarrow> record_wf t (change r)"
  obtains
    (ok) db' r where "modify_task B db t change = (db', Inr ())" "task_table B db t = Some r"
      "task_table B db' = (task_table B db)(t \<mapsto> change r)" "tasks_wf B db'"
      "only_tasks_changed db db'"
  | (error) e where "modify_task B db t change = (db, Inl e)" "\<not> fatal e"
      "task_table B db t = None \<longrightarrow> e = ErrTaskNotFound"
proof (cases "task_table B db t")
  case None
  with assms(1) show ?thesis
    by (intro error) (auto simp: modify_task_def GetTask_table fatal_def)
next
  case (Some r)
  have wf: "record_wf t (change r)"
    using Some assms by (blast dest: table_record(1))
  show ?thesis
  proof (cases "put_task B db t (change r)")
    case (Inl e)
    with Some assms(1) put_task_error [OF Inl] show ?thesis
      by (intro error) (auto simp: modify_task_def GetTask_table fatal_def)
  next
    case (Inr db')
    have m: "modify_task B db t change = Update B db (Inr (db', ()))"
      using Some Inr assms(1) by (simp add: modify_task_def GetTask_table)
    show ?thesis
    proof (cases rule: Update_Inr_cases [of db db' "()"])
      case commit
      then show ?thesis
        using ok [of db' r] Some m put_task_ok [OF assms(1) wf Inr] by simp
    next
      case (failed m)
      then show ?thesis
        using error [of "LibErr m"] Some by (simp add: \<open>modify_task B db t change = _\<close> fatal_def)
    qed
  qed
qed

lemma decrement_downstream_ok:
  assumes "tasks_wf B db" and "decrement_downstream B clk i ids db ready = Inr (db', ready')"
  shows "tasks_wf B db' \<and> only_tasks_changed db db' \<and>
         abs_decrement clk i ids (task_table B db) ready = (task_table B db', ready')"
  using assms
proof (induction ids arbitrary: i db ready)
  case Nil
  then show ?case by simp
next
  case (Cons d ids)
  show ?case
  proof (cases "task_table B db d")
    case None
    with Cons show ?thesis by (simp add: raw_get_table)
  next
    case (Some r)
    have ub: "unmarshalTaskRecord (marshalTaskRecord r) = Inr r"
      using table_record(2) [OF Cons.prems(1) Some] by (rule task_record_roundtrip)
    show ?thesis
    proof (cases "State r = TASK_PENDING")
      case False
      with Cons Some ub show ?thesis by (simp add: raw_get_table)
    next
      case True
      with Cons.prems Some ub obtain db1 where
        put: "put_task B db d (decremented (clk i) r) = Inr db1" and
        rest: "decrement_downstream B clk (Suc i) ids db1
                 (if InDegree (decremented (clk i) r) = 0 then ready @ [d] else ready)
               = Inr (db', ready')"
        by (auto simp: raw_get_table split: sum.splits)
      have wf: "record_wf d (decremented (clk i) r)"
        using table_record(1) [OF Cons.prems(1) Some] by (rule record_wf_decremented)
      note p = put_task_ok [OF Cons.prems(1) wf put]
      from Cons.IH [OF p(1) rest] Some True show ?thesis
        by (auto simp flip: p(2) intro: only_tasks_changed_trans [OF p(3)] split: if_splits)
    qed
  qed
qed

lemma decrement_downstream_error:
  assumes "tasks_wf B db" and "decrement_downstream B clk i ids db ready = Inl e"
  shows "\<exists>m. e = LibErr m"
  using assms
proof (induction ids arbitrary: i db ready)
  case Nil
  then show ?case by simp
next
  case (Cons d ids)
  show ?case
  proof (cases "task_table B db d")
    case None
    with Cons show ?thesis by (auto simp: raw_get_table)
  next
    case (Some r)
    have ub: "unmarshalTaskRecord (marshalTaskRecord r) = Inr r"
      using table_record(2) [OF Cons.prems(1) Some] by (rule task_record_roundtrip)
    have wf: "record_wf d (decremented (clk i) r)"
      using table_record(1) [OF Cons.prems(1) Some] by (rule record_wf_decremented)
    show ?thesis
      using Cons.prems Some ub Cons.IH
      by (auto simp: raw_get_table split: sum.splits if_splits
          dest: put_task_error put_task_ok(1) [OF Cons.prems(1) wf])
  qed
qed

lemma CompleteTask_cases:
  assumes "tasks_wf B db"
  obtains
    (missing) "task_table B db t = None" "CompleteTask B clk db t e out = (db, Inl ErrTaskNotFound)"
  | (stale) r where "task_table B db t = Some r" "ExecutionID r \<noteq> e"
      "CompleteTask B clk db t e out = (db, Inl ErrStaleExecution)"
  | (already) r where "task_table B db t = Some r" "ExecutionID r = e" "State r = TASK_COMPLETE"
      "CompleteTask B clk db t e out = (db, Inr [])"
  | (completed) db' r ready where "task_table B db t = Some r" "ExecutionID r = e"
      "State r \<noteq> TASK_COMPLETE" "CompleteTask B clk db t e out = (db', Inr ready)"
      "abs_decrement clk 1 (DownstreamTaskIDs r)
         ((task_table B db)(t \<mapsto> r\<lparr>State := TASK_COMPLETE, Output := out, LastUpdated := clk 0\<rparr>)) []
       = (task_table B db', ready)"
      "tasks_wf B db'" "only_tasks_changed db db'"
  | (failed) m where "CompleteTask B clk db t e out = (db, Inl (LibErr m))"
proof (cases "task_table B db t")
  case None
  with assms show ?thesis
    by (intro missing) (simp_all add: CompleteTask_def GetTask_table)
next
  case (Some r)
  let ?r = "r\<lparr>State := TASK_COMPLETE, Output := out, LastUpdated := clk 0\<rparr>"
  let ?upd = "Update B db (case put_task B db t ?r of Inl e \<Rightarrow> Inl e
                | Inr db' \<Rightarrow> decrement_downstream B clk 1 (DownstreamTaskIDs r) db' [])"
  have eq: "CompleteTask B clk db t e out =
      (if ExecutionID r \<noteq> e then (db, Inl ErrStaleExecution)
       else if State r = TASK_COMPLETE then Update B db (Inr (db, [])) else ?upd)"
    using Some assms by (simp add: CompleteTask_def GetTask_table)
  consider "ExecutionID r \<noteq> e" | "ExecutionID r = e" "State r = TASK_COMPLETE"
    | "ExecutionID r = e" "State r \<noteq> TASK_COMPLETE" by blast
  then show ?thesis
  proof cases
    case 1
    with Some show ?thesis by (intro stale) (simp_all add: eq)
  next
    case 2
    then have "CompleteTask B clk db t e out = Update B db (Inr (db, []))"
      by (simp add: eq)
    with Some 2 show ?thesis
      by (cases rule: Update_Inr_cases [of db db "[] :: string list"]) (auto intro: already failed)
  next
    case 3
    have wf: "record_wf t ?r"
      using table_record(1) [OF assms Some] by (simp add: record_wf_def)
    show ?thesis
    proof (cases ?upd)
      case (Pair db' res)
      show ?thesis
      proof (cases res)
        case (Inl e')
        have "db' = db" using Pair Inl Update_error_unchanged by blast
        moreover obtain m where "e' = LibErr m"
          using Pair Inl
          by (auto dest!: Update_error_cases put_task_error
              decrement_downstream_error [OF put_task_ok(1) [OF assms wf]] split: sum.splits)
        ultimately show ?thesis using 3 Pair Inl by (intro failed [of m]) (simp add: eq)
      next
        case (Inr ready)
        with Pair obtain db1 where put: "put_task B db t ?r = Inr db1"
          and dec: "decrement_downstream B clk 1 (DownstreamTaskIDs r) db1 [] = Inr (db', ready)"
          by (auto dest!: Update_ok split: sum.splits)
        note p = put_task_ok [OF assms wf put]
        from decrement_downstream_ok [OF p(1) dec] 3 Some Pair Inr
        show ?thesis
          by (intro completed [of r db' ready])
             (auto simp: eq simp flip: p(2) intro: only_tasks_changed_trans [OF p(3)])
      qed
    qed
  qed
qed

lemma task_keys:
  assumes "tasks_wf B db"
  shows "set (task_keys B db) = dom (task_table B db)" "distinct (task_keys B db)"
    "sorted (task_keys B db)"
proof -
  have "k \<in> set (task_keys B db) \<longleftrightarrow> (\<exists>v. b_get B (bucket_task_state db) k = Some v)" for k
    by (force simp: task_keys_def foreach_get [symmetric])
  then show "set (task_keys B db) = dom (task_table B db)"
    by (auto simp: raw_get_table [OF assms])
qed (simp_all add: task_keys_def foreach_distinct foreach_sorted)

lemma foreach_record:
  assumes "tasks_wf B db" and "(k, v) \<in> set (b_foreach B (bucket_task_state db))"
  obtains r where "v = marshalTaskRecord r" "task_table B db k = Some r" "storable_task r" "record_wf k r"
  using assms(2) task_bucket_cases [OF assms(1), of k] by (auto simp: foreach_get)

lemma scan_table:
  assumes "tasks_wf B db"
  shows "scan f (b_foreach B (bucket_task_state db)) =
         (List.map_filter (\<lambda>k. f (the (task_table B db k))) (task_keys B db), None)"
proof -
  have "scan f kvs = (List.map_filter (\<lambda>k. f (the (task_table B db k))) (map fst kvs), None)"
    if "set kvs \<subseteq> set (b_foreach B (bucket_task_state db))" for kvs
    using that
  proof (induction kvs)
    case Nil
    then show ?case by simp
  next
    case (Cons kv kvs)
    obtain k v where kv: "kv = (k, v)" by fastforce
    with Cons.prems obtain r where "v = marshalTaskRecord r" "task_table B db k = Some r" "storable_task r"
      using foreach_record [OF assms, of k v] by auto
    with Cons kv show ?case
      by (simp add: codec_simps split: option.splits)
  qed
  from this [OF subset_refl] show ?thesis by (simp add: task_keys_def)
qed

lemma table_key_id:
  assumes "tasks_wf B db"
  shows "\<forall>k\<in>set (task_keys B db). TaskID (the (task_table B db k)) = k"
  using table_record(1) [OF assms] by (auto simp: task_keys [OF assms] record_wf_def)

lemma GetTasksInState_table:
  assumes "tasks_wf B db"
  shows "GetTasksInState B db s =
         (filter (\<lambda>k. State (the (task_table B db k)) = s) (task_keys B db), None)"
  by (simp add: GetTasksInState_def scan_table [OF assms] map_filter_id table_key_id [OF assms])

lemma GetTasksForWorkflow_table:
  assumes "tasks_wf B db"
  shows "GetTasksForWorkflow B db w =
         (filter (\<lambda>k. WorkflowID (the (task_table B db k)) = w) (task_keys B db), None)"
  by (simp add: GetTasksForWorkflow_def scan_table [OF assms] map_filter_id table_key_id [OF assms])

lemma IsWorkflowComplete_table:
  assumes "tasks_wf B db"
  shows "IsWorkflowComplete B db w =
         ((\<forall>t r. task_table B db t = Some r \<longrightarrow> WorkflowID r = w \<longrightarrow> terminal (State r)), None)"
  by (simp add: IsWorkflowComplete_def scan_table [OF assms] task_keys [OF assms]
      map_filter_Nil_iff ball_dom_conv [where P = "\<lambda>r. WorkflowID r = w \<longrightarrow> terminal (State r)"])

lemma GetTaskStatusesForWorkflow_table:
  assumes "tasks_wf B db"
  obtains sts where "GetTaskStatusesForWorkflow B db w = (sts, None)"
    "set sts = {status_of r | t r. task_table B db t = Some r \<and> WorkflowID r = w}"
proof
  show "GetTaskStatusesForWorkflow B db w =
      (List.map_filter (\<lambda>k. if WorkflowID (the (task_table B db k)) \<noteq> w then None
         else Some (status_of (the (task_table B db k)))) (task_keys B db), None)"
    by (simp add: GetTaskStatusesForWorkflow_def scan_table [OF assms])
  show "set (List.map_filter (\<lambda>k. if WorkflowID (the (task_table B db k)) \<noteq> w then None
         else Some (status_of (the (task_table B db k)))) (task_keys B db)) =
      {status_of r | t r. task_table B db t = Some r \<and> WorkflowID r = w}"
    unfolding set_map_filter_conv task_keys(1) [OF assms]
      bex_dom_conv [where P = "\<lambda>r. (if WorkflowID r \<noteq> w then None else Some (status_of r)) = Some y" for y]
    by (auto split: if_splits)
qed

lemma cancel_tasks_ok:
  assumes "tasks_wf B db" and "distinct (map fst kvs)"
    and "\<And>k v. (k, v) \<in> set kvs \<Longrightarrow> b_get B (bucket_task_state db) k = Some v"
    and "cancel_tasks B clk i w kvs db acc = Inr (db', acc')"
  shows "tasks_wf B db' \<and> only_tasks_changed db db' \<and>
    (\<forall>t. t \<notin> fst ` set kvs \<longrightarrow> task_table B db' t = task_table B db t) \<and>
    (\<forall>t\<in>fst ` set kvs. rel_option (cancels w) (task_table B db t) (task_table B db' t)) \<and>
    acc' = acc @ filter (\<lambda>t. cancellable w (the (task_table B db t))) (map fst kvs)"
  using assms
proof (induction kvs arbitrary: i db acc)
  case Nil
  then show ?case by simp
next
  case (Cons kv kvs)
  obtain k v where kv: "kv = (k, v)" by fastforce
  obtain r where r: "v = marshalTaskRecord r" "task_table B db k = Some r" "storable_task r" "record_wf k r"
    using Cons.prems(1) Cons.prems(3) [of k v] kv by (cases rule: task_bucket_cases [of db k]) auto
  show ?case
  proof (cases "cancellable w r")
    case False
    then have "cancel_tasks B clk (Suc i) w kvs db acc = Inr (db', acc')"
      using Cons.prems(4) kv r by (auto simp: codec_simps cancellable_def)
    from Cons.IH [OF Cons.prems(1) _ _ this] Cons.prems(2,3) kv r False
    show ?thesis by (auto simp: cancels_def)
  next
    case True
    let ?r = "r\<lparr>State := TASK_SKIPPED, LastUpdated := clk i\<rparr>"
    from Cons.prems(4) kv r True obtain db1 where put: "put_task B db k ?r = Inr db1"
      and rest: "cancel_tasks B clk (Suc i) w kvs db1 (acc @ [k]) = Inr (db', acc')"
      by (auto simp: codec_simps cancellable_def record_wf_def split: sum.splits)
    have wf: "record_wf k ?r" using r(4) by (simp add: record_wf_def)
    note p = put_task_ok [OF Cons.prems(1) wf put]
    have "b_get B (bucket_task_state db1) k' = Some v'" if "(k', v') \<in> set kvs" for k' v'
      using that Cons.prems(1,2) Cons.prems(3) [of k' v'] kv
      by (force simp: raw_get_table p(1) p(2))
    note ih = Cons.IH [OF p(1) _ this rest]
    have k: "k \<notin> fst ` set kvs" "distinct (map fst kvs)" using Cons.prems(2) kv by auto
    note ih = ih [OF k(2)]
    have same: "task_table B db1 t = task_table B db t" if "t \<in> fst ` set kvs" for t
      using that k(1) by (auto simp: p(2))
    have "task_table B db' k = Some ?r"
      using ih k(1) by (simp add: p(2))
    then have head: "rel_option (cancels w) (task_table B db k) (task_table B db' k)"
      using r(2) True by (auto simp: cancels_def)
    have rest_unchanged: "task_table B db' t = task_table B db t"
      if "t \<notin> fst ` set kvs" "t \<noteq> k" for t
      using ih that by (simp add: p(2))
    have acc: "acc' = acc @ [k] @ filter (\<lambda>t. cancellable w (the (task_table B db t))) (map fst kvs)"
    proof -
      have "filter (\<lambda>t. cancellable w (the (task_table B db1 t))) (map fst kvs)
            = filter (\<lambda>t. cancellable w (the (task_table B db t))) (map fst kvs)"
        by (rule filter_cong) (simp_all add: same)
      with ih show ?thesis by simp
    qed
    from ih have "only_tasks_changed db1 db'" by blast
    with p(3) have "only_tasks_changed db db'" by (rule only_tasks_changed_trans)
    with ih same head rest_unchanged acc kv r(2) True show ?thesis by simp
  qed
qed

text \<open>A record that is SKIPPED is as long as it was, so none of the puts is refused.\<close>

lemma cancel_tasks_returns:
  assumes "tasks_wf B db" and "distinct (map fst kvs)"
    and "\<And>k v. (k, v) \<in> set kvs \<Longrightarrow> b_get B (bucket_task_state db) k = Some v"
  shows "\<exists>p. cancel_tasks B clk i w kvs db acc = Inr p"
  using assms
proof (induction kvs arbitrary: i db acc)
  case Nil
  then show ?case by simp
next
  case (Cons kv kvs)
  obtain k v where kv: "kv = (k, v)" by fastforce
  obtain r where r: "v = marshalTaskRecord r" "task_table B db k = Some r" "storable_task r" "record_wf k r"
    using Cons.prems(1) Cons.prems(3) [of k v] kv by (cases rule: task_bucket_cases [of db k]) auto
  let ?r = "r\<lparr>State := TASK_SKIPPED, LastUpdated := clk i\<rparr>"
  have wf: "record_wf k ?r" using r(4) by (simp add: record_wf_def)
  have "b_get B (bucket_task_state db) k = Some (marshalTaskRecord r)"
    using Cons.prems(3) [of k v] kv r(1) by simp
  with Cons.prems(1) have "k \<noteq> []" "length k \<le> 32768" "length (marshalTaskRecord r) \<le> 2147483646"
    unfolding tasks_wf_def by blast+
  moreover have "length (marshalTaskRecord ?r) = length (marshalTaskRecord r)"
    by (simp add: length_marshalTaskRecord)
  ultimately have "k \<noteq> []" "length k \<le> 32768" "length (marshalTaskRecord ?r) \<le> 2147483646"
    by simp_all
  then obtain db1 where Inr: "put_task B db k ?r = Inr db1" using put_task_accepts by blast
  note p = put_task_ok [OF Cons.prems(1) wf Inr]
  have "b_get B (bucket_task_state db1) k' = Some v'" if "(k', v') \<in> set kvs" for k' v'
    using that Cons.prems(1,2) Cons.prems(3) [of k' v'] kv
    by (force simp: raw_get_table p(1) p(2))
  with Inr Cons.prems Cons.IH [of db] Cons.IH [of db1] p(1) kv r show ?case
    by (auto simp: codec_simps)
qed

lemma reliable_Update: "reliable B \<Longrightarrow> Update B db (Inr (db', a)) = (db', Inr a)"
  by (simp add: reliable_def Update_def)

lemma CancelWorkflowTasks_cases:
  assumes "tasks_wf B db"
  obtains
    (ok) db' where "CancelWorkflowTasks B clk db w =
        (db', Inr (filter (\<lambda>t. cancellable w (the (task_table B db t))) (task_keys B db)))"
      "\<And>t. rel_option (cancels w) (task_table B db t) (task_table B db' t)"
      "tasks_wf B db'" "only_tasks_changed db db'"
  | (failed) m where "CancelWorkflowTasks B clk db w = (db, Inl (LibErr m))" "\<not> reliable B"
proof (cases "CancelWorkflowTasks B clk db w")
  case (Pair db' res)
  let ?kvs = "b_foreach B (bucket_task_state db)"
  have kvs: "distinct (map fst ?kvs)" "\<And>k v. (k, v) \<in> set ?kvs \<Longrightarrow> b_get B (bucket_task_state db) k = Some v"
    by (simp_all add: foreach_distinct foreach_get)
  show ?thesis
  proof (cases res)
    case (Inl e)
    with Pair have "Update B db (cancel_tasks B clk 0 w ?kvs db []) = (db', Inl e)"
      by (simp add: CancelWorkflowTasks_def)
    moreover obtain p where p: "cancel_tasks B clk 0 w ?kvs db [] = Inr p"
      using cancel_tasks_returns [OF assms kvs] by blast
    ultimately have "db' = db" "\<exists>m. e = LibErr m" "\<not> reliable B"
      using Update_error_unchanged Update_error_cases reliable_Update [of db "fst p" "snd p"] by fastforce+
    with Inl Pair show ?thesis by (auto intro: failed)
  next
    case (Inr cs)
    with Pair have "cancel_tasks B clk 0 w ?kvs db [] = Inr (db', cs)"
      by (auto simp: CancelWorkflowTasks_def dest: Update_ok)
    from cancel_tasks_ok [OF assms kvs this]
    have *: "tasks_wf B db'" "only_tasks_changed db db'"
      "cs = filter (\<lambda>t. cancellable w (the (task_table B db t))) (task_keys B db)"
      "\<And>t. t \<notin> set (task_keys B db) \<Longrightarrow> task_table B db' t = task_table B db t"
      "\<And>t. t \<in> set (task_keys B db) \<Longrightarrow> rel_option (cancels w) (task_table B db t) (task_table B db' t)"
      unfolding task_keys_def set_map by blast+
    have "rel_option (cancels w) (task_table B db t) (task_table B db' t)" for t
      using *(4) [of t] *(5) [of t] by (cases "t \<in> set (task_keys B db)") (auto simp: task_keys [OF assms] dom_def)
    with * Inr Pair show ?thesis by (intro ok [of db']) simp_all
  qed
qed

lemma reliable_modify_task:
  assumes "tasks_wf B db" and "reliable B" and "task_table B db t = Some r"
    and "length (marshalTaskRecord (change r)) \<le> length (marshalTaskRecord r)"
  shows "\<exists>db'. modify_task B db t change = (db', Inr ())"
proof -
  have "b_get B (bucket_task_state db) t = Some (marshalTaskRecord r)"
    using assms(1,3) by (simp add: raw_get_table)
  with assms(1) have "t \<noteq> []" "length t \<le> 32768" "length (marshalTaskRecord r) \<le> 2147483646"
    by (auto simp: tasks_wf_def)
  with assms(4) obtain db' where "put_task B db t (change r) = Inr db'"
    using put_task_accepts [of t "change r" db] by auto
  with assms(1-3) show ?thesis
    by (auto simp: modify_task_def GetTask_table reliable_Update)
qed

lemma UpdateTaskState_cases:
  assumes "tasks_wf B db" and "canonical_task_state st"
  obtains
    (ok) db' r where "UpdateTaskState B now db t st = (db', Inr ())" "task_table B db t = Some r"
      "task_table B db' = (task_table B db)(t \<mapsto> r\<lparr>State := st, LastUpdated := now\<rparr>)"
      "tasks_wf B db'" "only_tasks_changed db db'"
  | (error) e where "UpdateTaskState B now db t st = (db, Inl e)" "\<not> fatal e"
      "\<not> (reliable B \<and> t \<in> dom (task_table B db))"
proof (cases rule: modify_task_cases [OF assms(1), of t "\<lambda>record. record\<lparr>State := st, LastUpdated := now\<rparr>"])
  case (1 r)
  with assms(2) show ?case by (simp add: record_wf_def)
next
  case (2 db' r)
  then show ?thesis by (intro ok) (simp_all add: UpdateTaskState_def)
next
  case (3 e)
  moreover have "\<not> (reliable B \<and> t \<in> dom (task_table B db))"
    using 3(1) reliable_modify_task [OF assms(1), of t _ "\<lambda>record. record\<lparr>State := st, LastUpdated := now\<rparr>"]
    by (auto simp: length_marshalTaskRecord)
  ultimately show ?thesis by (intro error) (simp_all add: UpdateTaskState_def)
qed

text \<open>A task that was not visited has not been skipped; it is reachable from the failed one.\<close>

lemma skip_unvisited:
  assumes "skip_inv B db t s" and "sl_queue s = v # q" and "v \<notin> sl_visited s"
  shows "v \<in> (ds_rel (task_table B db))\<^sup>+ `` {t}" and "v \<notin> set (sl_skipped s)"
    and "task_table B (sl_db s) v = task_table B db v" and "tasks_wf B (sl_db s)"
proof -
  note I = assms(1) [unfolded skip_inv_def]
  show "v \<in> (ds_rel (task_table B db))\<^sup>+ `` {t}" "tasks_wf B (sl_db s)" using I assms(2) by auto
  show nv: "v \<notin> set (sl_skipped s)" using I assms(3) by auto
  then show "task_table B (sl_db s) v = task_table B db v"
    using I by (cases "task_table B db v"; cases "task_table B (sl_db s) v")
      (auto simp: skips_def dest!: spec [of _ v])
qed

lemma skip_visit_found:
  assumes inv: "skip_inv B db t s" and q: "sl_queue s = v # q" and v: "v \<notin> sl_visited s"
    and r: "task_table B db v = Some r"
  defines "s1 \<equiv> s\<lparr>sl_queue := q, sl_round := Suc (sl_round s), sl_visited := insert v (sl_visited s)\<rparr>"
  shows "skip_inv B db t (skip_visit B clk v s1) \<and> sl_visited (skip_visit B clk v s1) = insert v (sl_visited s)"
proof -
  note I = inv [unfolded skip_inv_def]
  note U = skip_unvisited [OF inv q v]
  let ?s2 = "s1\<lparr>sl_queue := q @ DownstreamTaskIDs r\<rparr>"
  have get: "GetTask B (sl_db s1) v = Inr r" using U(3,4) r by (simp add: GetTask_table s1_def)
  have ds: "ds_rel (task_table B db) `` {v} = set (DownstreamTaskIDs r)"
    using r by (auto simp: ds_rel_def)
  have dsc: "set (DownstreamTaskIDs r) \<subseteq> (ds_rel (task_table B db))\<^sup>+ `` {t}"
    using U(1) ds by (auto intro: trancl_into_trancl)
  have closed: "ds_rel (task_table B db) `` insert t (insert v (sl_visited s))
      \<subseteq> insert v (sl_visited s) \<union> set (q @ DownstreamTaskIDs r)"
    using I q ds by auto
  have inv2: "skip_inv B db t ?s2" if "terminal (State r) \<or> \<not> reliable B"
    using I q U(1) dsc closed r that by (auto simp: s1_def skip_inv_def)
  show ?thesis
  proof (cases "terminal (State r)")
    case True
    then have "skip_visit B clk v s1 = ?s2" using get by (simp add: skip_visit_def s1_def)
    with inv2 True show ?thesis by (simp add: s1_def)
  next
    case False
    show ?thesis
    proof (cases rule: UpdateTaskState_cases [OF U(4), of TASK_SKIPPED "clk (sl_round s1)" v])
      case 1
      show ?case by simp
    next
      case (2 db' r')
      then have r': "r' = r" using U(3) r by simp
      have "skip_visit B clk v s1 = ?s2\<lparr>sl_db := db', sl_skipped := sl_skipped s @ [v]\<rparr>"
        using get False 2(1) by (simp add: skip_visit_def s1_def)
      moreover have "skip_inv B db t (?s2\<lparr>sl_db := db', sl_skipped := sl_skipped s @ [v]\<rparr>)"
        using I q U(1,2) dsc closed 2(3-5) r False
        by (auto simp: skip_inv_def s1_def r' skips_def [of True] intro: only_tasks_changed_trans)
      ultimately show ?thesis by (simp add: s1_def)
    next
      case (3 e)
      then have "skip_visit B clk v s1 = ?s2" using get False by (simp add: skip_visit_def s1_def)
      moreover have "\<not> reliable B" using 3(3) U(3) r by auto
      ultimately show ?thesis using inv2 by (simp add: s1_def)
    qed
  qed
qed

lemma skip_visit_inv:
  assumes inv: "skip_inv B db t s" and q: "sl_queue s = v # q" and v: "v \<notin> sl_visited s"
  defines "s1 \<equiv> s\<lparr>sl_queue := q, sl_round := Suc (sl_round s), sl_visited := insert v (sl_visited s)\<rparr>"
  shows "skip_inv B db t (skip_visit B clk v s1)"
    and "sl_visited (skip_visit B clk v s1) = insert v (sl_visited s)"
    and "task_table B db v = None \<Longrightarrow> sl_queue (skip_visit B clk v s1) = q"
proof -
  note I = inv [unfolded skip_inv_def]
  note U = skip_unvisited [OF inv q v]
  have none: "skip_visit B clk v s1 = s1 \<and> skip_inv B db t s1" if "task_table B db v = None"
  proof -
    have "ds_rel (task_table B db) `` {v} = {}" using that by (auto simp: ds_rel_def)
    then have "skip_inv B db t s1" using I q U(1) that by (auto simp: s1_def skip_inv_def)
    moreover have "skip_visit B clk v s1 = s1"
      using U(3,4) that by (simp add: skip_visit_def GetTask_table s1_def fatal_def)
    ultimately show ?thesis by simp
  qed
  show "skip_inv B db t (skip_visit B clk v s1)" "sl_visited (skip_visit B clk v s1) = insert v (sl_visited s)"
    using none skip_visit_found [OF inv q v, of _ clk] by (cases "task_table B db v"; simp add: s1_def)+
  show "task_table B db v = None \<Longrightarrow> sl_queue (skip_visit B clk v s1) = q"
    using none by (simp add: s1_def)
qed

lemma skip_step_inv:
  assumes "skip_inv B db t s" and "skip_guard s"
  shows "skip_inv B db t (skip_step B clk s)"
    and "(skip_step B clk s, s) \<in> skip_order B db"
proof -
  obtain v q where q: "sl_queue s = v # q"
    using assms(2) by (auto simp: skip_guard_def neq_Nil_conv)
  let ?s1 = "s\<lparr>sl_queue := q, sl_round := Suc (sl_round s), sl_visited := insert v (sl_visited s)\<rparr>"
  have step: "skip_step B clk s =
      (if v \<in> sl_visited s then s\<lparr>sl_queue := q, sl_round := Suc (sl_round s)\<rparr>
       else skip_visit B clk v ?s1)"
    by (simp add: skip_step_def q Let_def)
  have "skip_inv B db t (skip_step B clk s) \<and> (skip_step B clk s, s) \<in> skip_order B db"
  proof (cases "v \<in> sl_visited s")
    case True
    then show ?thesis using assms(1) q by (auto simp: step skip_inv_def skip_order_def)
  next
    case False
    note vi = skip_visit_inv [OF assms(1) q False, of clk]
    have "card (dom (task_table B db) - insert v (sl_visited s)) < card (dom (task_table B db) - sl_visited s)"
      if "v \<in> dom (task_table B db)"
      using that False finite_task_table [of db] by (intro psubset_card_mono) auto
    moreover have "dom (task_table B db) - insert v (sl_visited s) = dom (task_table B db) - sl_visited s"
      if "v \<notin> dom (task_table B db)"
      using that by auto
    ultimately show ?thesis
      using False vi q by (cases "v \<in> dom (task_table B db)") (auto simp: step domIff skip_order_def)
  qed
  then show "skip_inv B db t (skip_step B clk s)" and "(skip_step B clk s, s) \<in> skip_order B db"
    by auto
qed

lemma SkipDownstreamTasks_ok:
  assumes "tasks_wf B db" and "task_table B db t = Some r"
  obtains db' skipped where "SkipDownstreamTasks B clk db t = (db', Inr skipped)"
    "tasks_wf B db'" "only_tasks_changed db db'" "distinct skipped"
    "set skipped \<subseteq> (ds_rel (task_table B db))\<^sup>+ `` {t}"
    "\<And>v. rel_option (skips (v \<in> set skipped)) (task_table B db v) (task_table B db' v)"
    "\<And>v r. reliable B \<Longrightarrow> (t, v) \<in> (ds_rel (task_table B db))\<^sup>+ \<Longrightarrow> task_table B db v = Some r \<Longrightarrow>
       \<not> terminal (State r) \<Longrightarrow> v \<in> set skipped"
proof -
  let ?s0 = "\<lparr>sl_db = db, sl_visited = {}, sl_queue = DownstreamTaskIDs r,
              sl_skipped = [], sl_round = 0, sl_panic = None\<rparr>"
  have ds: "ds_rel (task_table B db) `` {t} = set (DownstreamTaskIDs r)"
    using assms(2) by (auto simp: ds_rel_def)
  then have "set (DownstreamTaskIDs r) \<subseteq> (ds_rel (task_table B db))\<^sup>+ `` {t}" by auto
  with ds assms(1) have i0: "skip_inv B db t ?s0"
    by (auto simp: skip_inv_def skips_def intro: option.rel_refl)
  have "\<exists>s. while_option skip_guard (skip_step B clk) ?s0 = Some s"
    by (rule wf_rel_while_option_Some [where P = "skip_inv B db t" and R = "skip_order B db"])
       (use i0 in \<open>auto intro: skip_step_inv simp: wf_skip_order\<close>)
  then obtain s where s: "while_option skip_guard (skip_step B clk) ?s0 = Some s" by blast
  have inv: "skip_inv B db t s"
    using while_option_rule [where P = "skip_inv B db t", OF _ s i0] skip_step_inv(1) by blast
  from s inv have "SkipDownstreamTasks B clk db t = (sl_db s, Inr (sl_skipped s))"
    using assms by (simp add: SkipDownstreamTasks_def GetTask_table skip_inv_def)
  moreover have "v \<in> sl_visited s" if "(t, v) \<in> (ds_rel (task_table B db))\<^sup>+" for v
  proof -
    have "sl_queue s = []"
      using while_option_stop [OF s] inv by (simp add: skip_guard_def skip_inv_def)
    with inv have "ds_rel (task_table B db) `` insert t (sl_visited s) \<subseteq> sl_visited s"
      by (auto simp: skip_inv_def)
    with that show ?thesis by (induction rule: trancl_induct) auto
  qed
  ultimately show ?thesis
    using inv by (intro that [of "sl_db s" "sl_skipped s"]) (auto simp: skip_inv_def)
qed

lemma init_tasks_nonempty:
  "init_tasks B clk i w ideg down tasks db = Inr db' \<Longrightarrow> \<forall>t\<in>set tasks. TaskId t \<noteq> []"
  by (induction tasks arbitrary: i db)
     (auto simp: put_task_def dest: put_limits split: sum.splits)

lemma init_tasks_error:
  "init_tasks B clk i w ideg down tasks db = Inl e \<Longrightarrow> \<exists>m. e = LibErr m"
  by (induction tasks arbitrary: i db) (auto dest: put_task_error split: sum.splits)

lemma init_tasks_ok:
  assumes "tasks_wf B db" and "distinct (map TaskId tasks)"
    and "\<forall>t\<in>set tasks. \<forall>ds. down (TaskId t) = Some ds \<longrightarrow> [] \<notin> set ds"
    and "init_tasks B clk i w ideg down tasks db = Inr db'"
  shows "tasks_wf B db' \<and> only_tasks_changed db db' \<and>
    (\<forall>k. k \<notin> TaskId ` set tasks \<longrightarrow> task_table B db' k = task_table B db k) \<and>
    (\<forall>t\<in>set tasks. \<exists>now. task_table B db' (TaskId t) = Some (initial_record now w ideg down t))"
  using assms
proof (induction tasks arbitrary: i db)
  case Nil
  then show ?case by simp
next
  case (Cons t tasks)
  let ?r = "initial_record (clk i) w ideg down t"
  from Cons.prems(4) obtain db1 where put: "put_task B db (TaskId t) ?r = Inr db1"
    and rest: "init_tasks B clk (Suc i) w ideg down tasks db1 = Inr db'"
    by (auto split: sum.splits)
  have wf: "record_wf (TaskId t) ?r"
    using Cons.prems(3) by (auto simp: record_wf_def initial_record_def split: option.split)
  note p = put_task_ok [OF Cons.prems(1) wf put]
  have ih: "tasks_wf B db'" "only_tasks_changed db1 db'"
    "\<And>k. k \<notin> TaskId ` set tasks \<Longrightarrow> task_table B db' k = task_table B db1 k"
    "\<And>t. t \<in> set tasks \<Longrightarrow> \<exists>now. task_table B db' (TaskId t) = Some (initial_record now w ideg down t)"
    using Cons.IH [OF p(1) _ _ rest] Cons.prems(2,3) by auto
  have "task_table B db' (TaskId t) = Some ?r"
    using ih(3) [of "TaskId t"] Cons.prems(2) by (auto simp: p(2))
  then show ?case
    using ih p(2,3) by (auto intro: only_tasks_changed_trans)
qed

lemma InitializeTasksForWorkflow_cases:
  assumes "tasks_wf B db" and "distinct (map TaskId tasks)"
    and "\<forall>t\<in>set tasks. \<forall>ds. down (TaskId t) = Some ds \<longrightarrow> set ds \<subseteq> TaskId ` set tasks"
  obtains
    (ok) db' where "InitializeTasksForWorkflow B clk db w tasks ideg down = (db', Inr ())"
      "tasks_wf B db'" "only_tasks_changed db db'" "\<forall>t\<in>set tasks. TaskId t \<noteq> []"
      "\<And>k. k \<notin> TaskId ` set tasks \<Longrightarrow> task_table B db' k = task_table B db k"
      "\<And>t. t \<in> set tasks \<Longrightarrow> \<exists>now. task_table B db' (TaskId t) = Some (initial_record now w ideg down t)"
  | (error) m where "InitializeTasksForWorkflow B clk db w tasks ideg down = (db, Inl (LibErr m))"
proof (cases "init_tasks B clk 0 w ideg down tasks db")
  case (Inl e)
  from init_tasks_error [OF Inl] obtain m where m: "e = LibErr m" by blast
  show ?thesis
    by (rule error [of m]) (simp add: InitializeTasksForWorkflow_def Inl m)
next
  case (Inr db')
  have ne: "\<forall>t\<in>set tasks. TaskId t \<noteq> []" by (rule init_tasks_nonempty [OF Inr])
  then have "[] \<notin> TaskId ` set tasks" by auto
  with assms(3) have "\<forall>t\<in>set tasks. \<forall>ds. down (TaskId t) = Some ds \<longrightarrow> [] \<notin> set ds" by blast
  note r = init_tasks_ok [OF assms(1,2) this Inr]
  have eq: "InitializeTasksForWorkflow B clk db w tasks ideg down = Update B db (Inr (db', ()))"
    by (simp add: InitializeTasksForWorkflow_def Inr)
  show ?thesis
  proof (cases rule: Update_Inr_cases [of db db' "()"])
    case commit
    show ?thesis
      by (rule ok [of db']) (use commit eq r ne in \<open>simp_all\<close>)
  next
    case (failed m)
    show ?thesis by (rule error [of m]) (simp add: eq failed)
  qed
qed

lemma AssignTask_cases:
  assumes "tasks_wf B db"
  obtains
    (ok) db' r where "AssignTask B now db t e = (db', Inr ())" "task_table B db t = Some r"
      "task_table B db' = (task_table B db)(t \<mapsto> r\<lparr>State := TASK_RUNNING, ExecutionID := e, LastUpdated := now\<rparr>)"
      "tasks_wf B db'" "only_tasks_changed db db'"
  | (error) er where "AssignTask B now db t e = (db, Inl er)" "\<not> fatal er"
      "task_table B db t = None \<longrightarrow> er = ErrTaskNotFound"
proof -
  let ?change = "\<lambda>r. r\<lparr>State := TASK_RUNNING, ExecutionID := e, LastUpdated := now\<rparr>"
  have wf: "record_wf t r \<Longrightarrow> record_wf t (?change r)" for r by (simp add: record_wf_def)
  show thesis
    using assms wf ok error unfolding AssignTask_def by (rule modify_task_cases)
qed

lemma RequeueTask_cases:
  assumes "tasks_wf B db"
  obtains
    (ok) db' r where "RequeueTask B now db t e = (db', Inr ())" "task_table B db t = Some r"
      "task_table B db' = (task_table B db)(t \<mapsto> r\<lparr>State := TASK_QUEUED, ExecutionID := e, LastUpdated := now\<rparr>)"
      "tasks_wf B db'" "only_tasks_changed db db'"
  | (error) er where "RequeueTask B now db t e = (db, Inl er)" "\<not> fatal er"
      "task_table B db t = None \<longrightarrow> er = ErrTaskNotFound"
      "\<not> (reliable B \<and> (\<exists>r. task_table B db t = Some r \<and> length e \<le> length (ExecutionID r)))"
proof -
  let ?change = "\<lambda>r. r\<lparr>State := TASK_QUEUED, ExecutionID := e, LastUpdated := now\<rparr>"
  have wf: "record_wf t r \<Longrightarrow> record_wf t (?change r)" for r by (simp add: record_wf_def)
  have rel: "\<exists>db'. RequeueTask B now db t e = (db', Inr ())"
    if "reliable B" "task_table B db t = Some r" "length e \<le> length (ExecutionID r)" for r
    unfolding RequeueTask_def
    by (rule reliable_modify_task [OF assms that(1,2)]) (use that(3) in \<open>simp add: length_marshalTaskRecord\<close>)
  show thesis
  proof (rule modify_task_cases [OF assms wf])
    fix db' r
    assume "modify_task B db t ?change = (db', Inr ())" "task_table B db t = Some r"
      "task_table B db' = (task_table B db)(t \<mapsto> ?change r)" "tasks_wf B db'" "only_tasks_changed db db'"
    then show thesis using ok by (simp add: RequeueTask_def)
  next
    fix er
    assume err: "modify_task B db t ?change = (db, Inl er)" "\<not> fatal er"
      "task_table B db t = None \<longrightarrow> er = ErrTaskNotFound"
    then have "RequeueTask B now db t e = (db, Inl er)" by (simp add: RequeueTask_def)
    with rel err(2,3) show thesis using error by fastforce
  qed
qed

lemma FailTask_cases:
  assumes "tasks_wf B db"
  obtains
    (ok) db' r where "FailTask B now db t msg n = (db', Inr ())" "task_table B db t = Some r"
      "task_table B db' = (task_table B db)(t \<mapsto> r\<lparr>State := TASK_FAILED, Error := msg, AttemptCount := n, LastUpdated := now\<rparr>)"
      "tasks_wf B db'" "only_tasks_changed db db'"
  | (error) er where "FailTask B now db t msg n = (db, Inl er)" "\<not> fatal er"
      "task_table B db t = None \<longrightarrow> er = ErrTaskNotFound"
proof -
  let ?change = "\<lambda>r. r\<lparr>State := TASK_FAILED, Error := msg, AttemptCount := n, LastUpdated := now\<rparr>"
  have wf: "record_wf t r \<Longrightarrow> record_wf t (?change r)" for r by (simp add: record_wf_def)
  show thesis
    using assms wf ok error unfolding FailTask_def by (rule modify_task_cases)
qed

end

end
