(* ===== verification/Meta_Store.thy ===== *)
theory Meta_Store
  imports Task_Table
begin

text \<open>
  The other buckets of the store: workflow specifications
  (\<^verbatim>\<open>internal/store/workflow_spec.go\<close>), workflow-level state
  (\<^verbatim>\<open>internal/store/workflow_state.go\<close>) and worker records
  (\<^verbatim>\<open>internal/store/workers.go\<close>), with the maps that the two workflow buckets stand for
  (\<open>spec_table\<close>, \<open>wf_table\<close>) and the effect of the operations on them.
\<close>

section \<open>Workflow specifications\<close>

definition StoreWorkflow :: "'b bolt \<Rightarrow> 'b DB \<Rightarrow> WorkflowSpec \<Rightarrow> 'b DB \<times> (err + unit)" where
  "StoreWorkflow B db workflow =
     Update B db
       (case proto_marshal B workflow of
          Inl e \<Rightarrow> Inl e
        | Inr data \<Rightarrow>
            (case b_put B (bucket_workflows db) (WorkflowId workflow) data of
               Inl e \<Rightarrow> Inl e
             | Inr b \<Rightarrow> Inr (db\<lparr>bucket_workflows := b\<rparr>, ())))"

definition getWorkflowInTx :: "'b bolt \<Rightarrow> 'b DB \<Rightarrow> string \<Rightarrow> err + WorkflowSpec" where
  "getWorkflowInTx B db workflowID =
     (case b_get B (bucket_workflows db) workflowID of
        None \<Rightarrow> Inl ErrWorkflowNotFound
      | Some data \<Rightarrow> proto_unmarshal B data)"

definition GetWorkflow :: "'b bolt \<Rightarrow> 'b DB \<Rightarrow> string \<Rightarrow> err + WorkflowSpec" where
  "GetWorkflow B db workflowID =
     (case b_get B (bucket_workflows db) workflowID of
        None \<Rightarrow> Inl ErrWorkflowNotFound
      | Some data \<Rightarrow> (case proto_unmarshal B data of Inl e \<Rightarrow> Inl e | Inr spec \<Rightarrow> Inr spec))"

section \<open>Workflow state\<close>

definition put_workflow_state ::
    "'b bolt \<Rightarrow> 'b DB \<Rightarrow> string \<Rightarrow> WorkflowStateRecord \<Rightarrow> err + 'b DB \<times> unit" where
  "put_workflow_state B db workflowID rec =
     (case b_put B (bucket_workflow_state db) workflowID (marshalWorkflowState rec) of
        Inl e \<Rightarrow> Inl e
      | Inr b \<Rightarrow> Inr (db\<lparr>bucket_workflow_state := b\<rparr>, ()))"

definition InitWorkflowState :: "'b bolt \<Rightarrow> i64 \<Rightarrow> 'b DB \<Rightarrow> string \<Rightarrow> 'b DB \<times> (err + unit)" where
  "InitWorkflowState B now db workflowID =
     Update B db
       (put_workflow_state B db workflowID
          \<lparr>wsr_WorkflowID = workflowID, wsr_State = WORKFLOW_RUNNING,
           SubmittedAtMs = now, CompletedAtMs = 0\<rparr>)"

text \<open>\<^verbatim>\<open>UpdateWorkflowState\<close> changes the decoded record, or a fresh one if there is none.\<close>

definition finished_workflow :: "WorkflowState \<Rightarrow> bool" where
  "finished_workflow s \<longleftrightarrow> s = WORKFLOW_COMPLETE \<or> s = WORKFLOW_FAILED \<or> s = WORKFLOW_CANCELLED"

definition UpdateWorkflowState ::
    "'b bolt \<Rightarrow> clock \<Rightarrow> 'b DB \<Rightarrow> string \<Rightarrow> WorkflowState \<Rightarrow> 'b DB \<times> (err + unit)" where
  "UpdateWorkflowState B clk db workflowID state =
     Update B db
       (case (case b_get B (bucket_workflow_state db) workflowID of
                Some data \<Rightarrow> unmarshalWorkflowState data
              | None \<Rightarrow> Inr \<lparr>wsr_WorkflowID = workflowID, wsr_State = WORKFLOW_RUNNING,
                             SubmittedAtMs = clk 0, CompletedAtMs = 0\<rparr>) of
          Inl e \<Rightarrow> Inl e
        | Inr rec \<Rightarrow>
            (let rec = rec\<lparr>wsr_State := state\<rparr>;
                 rec = (if finished_workflow state then rec\<lparr>CompletedAtMs := clk 1\<rparr> else rec)
             in put_workflow_state B db workflowID rec))"

definition GetWorkflowState :: "'b bolt \<Rightarrow> 'b DB \<Rightarrow> string \<Rightarrow> err + WorkflowStateRecord" where
  "GetWorkflowState B db workflowID =
     (case b_get B (bucket_workflow_state db) workflowID of
        None \<Rightarrow> Inl ErrWorkflowNotFound
      | Some data \<Rightarrow> unmarshalWorkflowState data)"

text \<open>A \<^verbatim>\<open>ForEach\<close> that decodes every value; only a panic can stop it.\<close>

fun collect :: "(bytes \<Rightarrow> err + 'a) \<Rightarrow> (string \<times> bytes) list \<Rightarrow> 'a list \<times> err option" where
  "collect dec [] = ([], None)"
| "collect dec ((k, v) # kvs) =
     (case dec v of
        Inl e \<Rightarrow> ([], Some e)
      | Inr r \<Rightarrow> (case collect dec kvs of (rs, e) \<Rightarrow> (r # rs, e)))"

definition GetAllWorkflowStates :: "'b bolt \<Rightarrow> 'b DB \<Rightarrow> WorkflowStateRecord list \<times> err option" where
  "GetAllWorkflowStates B db =
     collect unmarshalWorkflowState (b_foreach B (bucket_workflow_state db))"

section \<open>Worker records\<close>

definition StoreWorker :: "'b bolt \<Rightarrow> 'b DB \<Rightarrow> WorkerRecord \<Rightarrow> 'b DB \<times> (err + unit)" where
  "StoreWorker B db worker =
     Update B db
       (case b_put B (bucket_workers db) (WorkerID worker) (marshalWorkerRecord worker) of
          Inl e \<Rightarrow> Inl e
        | Inr b \<Rightarrow> Inr (db\<lparr>bucket_workers := b\<rparr>, ()))"

definition GetWorker :: "'b bolt \<Rightarrow> 'b DB \<Rightarrow> string \<Rightarrow> err + WorkerRecord" where
  "GetWorker B db workerID =
     (case b_get B (bucket_workers db) workerID of
        None \<Rightarrow> Inl ErrNotFound
      | Some data \<Rightarrow> unmarshalWorkerRecord data)"

definition RemoveWorker :: "'b bolt \<Rightarrow> 'b DB \<Rightarrow> string \<Rightarrow> 'b DB \<times> (err + unit)" where
  "RemoveWorker B db workerID =
     Update B db
       (case b_delete B (bucket_workers db) workerID of
          Inl e \<Rightarrow> Inl e
        | Inr b \<Rightarrow> Inr (db\<lparr>bucket_workers := b\<rparr>, ()))"

definition GetAllWorkers :: "'b bolt \<Rightarrow> 'b DB \<Rightarrow> WorkerRecord list \<times> err option" where
  "GetAllWorkers B db = collect unmarshalWorkerRecord (b_foreach B (bucket_workers db))"

section \<open>The tables and their invariants\<close>

definition spec_table :: "'b bolt \<Rightarrow> 'b DB \<Rightarrow> string \<rightharpoonup> WorkflowSpec" where
  "spec_table B db = (\<lambda>w. case GetWorkflow B db w of Inl _ \<Rightarrow> None | Inr s \<Rightarrow> Some s)"

definition wf_table :: "'b bolt \<Rightarrow> 'b DB \<Rightarrow> string \<rightharpoonup> WorkflowStateRecord" where
  "wf_table B db = (\<lambda>w. case GetWorkflowState B db w of Inl _ \<Rightarrow> None | Inr r \<Rightarrow> Some r)"

definition wf_record_ok :: "string \<Rightarrow> WorkflowStateRecord \<Rightarrow> bool" where
  "wf_record_ok k r \<longleftrightarrow> wsr_WorkflowID r = k \<and> canonical_workflow_state (wsr_State r)"

definition workflows_wf :: "'b bolt \<Rightarrow> 'b DB \<Rightarrow> bool" where
  "workflows_wf B db \<longleftrightarrow>
     (\<forall>k d. b_get B (bucket_workflow_state db) k = Some d \<longrightarrow>
        k \<noteq> [] \<and> length k \<le> 32768 \<and>
        (\<exists>r. d = marshalWorkflowState r \<and> wf_record_ok k r))"

text \<open>\<open>db'\<close> differs from \<open>db\<close> at most in the workflow-state bucket.\<close>

definition only_workflow_state_changed :: "'b DB \<Rightarrow> 'b DB \<Rightarrow> bool" where
  "only_workflow_state_changed db db' \<longleftrightarrow>
     db' = db\<lparr>bucket_workflow_state := bucket_workflow_state db'\<rparr>"

definition set_workflow_state ::
    "clock \<Rightarrow> string \<Rightarrow> WorkflowState \<Rightarrow> WorkflowStateRecord option \<Rightarrow> WorkflowStateRecord" where
  "set_workflow_state clk w state old =
     (let rec = (case old of
            None \<Rightarrow> \<lparr>wsr_WorkflowID = w, wsr_State = WORKFLOW_RUNNING,
                     SubmittedAtMs = clk 0, CompletedAtMs = 0\<rparr>
          | Some r \<Rightarrow> r)
      in rec\<lparr>wsr_State := state,
             CompletedAtMs := (if finished_workflow state then clk 1 else CompletedAtMs rec)\<rparr>)"

lemma length_marshalWorkflowState: "length (marshalWorkflowState r) = 24 + length (wsr_WorkflowID r)"
  by (simp add: marshalWorkflowState_def)

lemma only_workflow_state_changedD:
  assumes "only_workflow_state_changed db db'"
  shows "bucket_task_state db' = bucket_task_state db" "bucket_workflows db' = bucket_workflows db"
    "bucket_workers db' = bucket_workers db" "bucket_meta db' = bucket_meta db"
  using assms by (cases db; cases db'; simp add: only_workflow_state_changed_def)+

lemma task_table_cong:
  assumes "bucket_task_state db' = bucket_task_state db"
  shows "task_table B db' = task_table B db" and "tasks_wf B db' = tasks_wf B db"
  using assms by (simp_all add: task_table_def tasks_wf_def GetTask_def)

lemma spec_table_cong:
  "bucket_workflows db' = bucket_workflows db \<Longrightarrow> spec_table B db' = spec_table B db"
  by (simp add: spec_table_def GetWorkflow_def)

lemma wf_table_cong:
  assumes "bucket_workflow_state db' = bucket_workflow_state db"
  shows "wf_table B db' = wf_table B db" and "workflows_wf B db' = workflows_wf B db"
  using assms by (simp_all add: wf_table_def workflows_wf_def GetWorkflowState_def)

context bolt_spec
begin

lemma wf_bucket_cases:
  assumes "workflows_wf B db"
  obtains
    (absent) "b_get B (bucket_workflow_state db) w = None" "wf_table B db w = None"
  | (stored) r where "b_get B (bucket_workflow_state db) w = Some (marshalWorkflowState r)"
      "wf_table B db w = Some r" "wf_record_ok w r" "w \<noteq> []" "length w \<le> 32768"
proof (cases "b_get B (bucket_workflow_state db) w")
  case None
  then show ?thesis by (intro absent) (simp_all add: wf_table_def GetWorkflowState_def)
next
  case (Some d)
  with assms obtain r where r: "d = marshalWorkflowState r" "wf_record_ok w r" "w \<noteq> []" "length w \<le> 32768"
    by (auto simp: workflows_wf_def)
  then have "unmarshalWorkflowState (marshalWorkflowState r) = Inr r"
    by (intro workflow_state_roundtrip) (auto simp: wf_record_ok_def)
  with Some r show ?thesis
    by (intro stored) (simp_all add: wf_table_def GetWorkflowState_def)
qed

lemma wf_table_key:
  assumes "workflows_wf B db" and "wf_table B db w = Some rec"
  shows "wsr_WorkflowID rec = w"
  using assms(1) by (cases rule: wf_bucket_cases [of db w]) (use assms(2) in \<open>auto simp: wf_record_ok_def\<close>)

lemma put_workflow_state_ok:
  assumes "workflows_wf B db" and "wf_record_ok w r" and "put_workflow_state B db w r = Inr (db', ())"
  shows "workflows_wf B db'" and "wf_table B db' = (wf_table B db)(w \<mapsto> r)"
    and "only_workflow_state_changed db db'"
proof -
  from assms(3) obtain b where b: "b_put B (bucket_workflow_state db) w (marshalWorkflowState r) = Inr b"
    and db': "db' = db\<lparr>bucket_workflow_state := b\<rparr>"
    by (auto simp: put_workflow_state_def split: sum.splits)
  have rt: "unmarshalWorkflowState (marshalWorkflowState r) = Inr r"
    using assms(2) put_limits [OF b]
    by (intro workflow_state_roundtrip) (auto simp: wf_record_ok_def)
  show "workflows_wf B db'"
    using assms(1,2) put_limits [OF b] by (auto simp: workflows_wf_def db' get_put [OF b])
  show "wf_table B db' = (wf_table B db)(w \<mapsto> r)"
    by (auto simp: wf_table_def GetWorkflowState_def db' get_put [OF b] rt)
  show "only_workflow_state_changed db db'"
    by (simp add: only_workflow_state_changed_def db')
qed

lemma UpdateWorkflowState_cases:
  assumes "workflows_wf B db" and "canonical_workflow_state state"
  obtains
    (ok) db' where "UpdateWorkflowState B clk db w state = (db', Inr ())"
      "wf_table B db' = (wf_table B db)(w \<mapsto> set_workflow_state clk w state (wf_table B db w))"
      "workflows_wf B db'" "only_workflow_state_changed db db'"
  | (error) m where "UpdateWorkflowState B clk db w state = (db, Inl (LibErr m))"
      "\<not> (reliable B \<and> w \<in> dom (wf_table B db))"
proof -
  let ?r = "set_workflow_state clk w state (wf_table B db w)"
  have eq: "UpdateWorkflowState B clk db w state = Update B db (put_workflow_state B db w ?r)"
    using assms(1)
    by (cases rule: wf_bucket_cases [of db w])
       (simp_all add: UpdateWorkflowState_def set_workflow_state_def Let_def
         workflow_state_roundtrip wf_record_ok_def)
  have ok': "wf_record_ok w ?r"
    using assms by (cases rule: wf_bucket_cases [of db w])
       (simp_all add: set_workflow_state_def wf_record_ok_def Let_def)
  show ?thesis
  proof (cases "put_workflow_state B db w ?r")
    case (Inl e)
    then obtain m where m: "e = LibErr m"
      by (auto simp: put_workflow_state_def dest: put_error split: sum.splits)
    have "w \<notin> dom (wf_table B db)"
    proof
      assume "w \<in> dom (wf_table B db)"
      with assms(1) have "w \<noteq> []" "length w \<le> 32768"
        by (cases rule: wf_bucket_cases [of db w]; simp add: domIff)+
      then have "\<exists>b. b_put B (bucket_workflow_state db) w (marshalWorkflowState ?r) = Inr b"
        using ok' by (intro put_accepts) (simp_all add: length_marshalWorkflowState wf_record_ok_def)
      with Inl show False by (auto simp: put_workflow_state_def)
    qed
    then show ?thesis by (intro error [of m]) (simp_all add: eq Inl m)
  next
    case (Inr p)
    then obtain db' where p: "put_workflow_state B db w ?r = Inr (db', ())"
      by (cases p) auto
    show ?thesis
    proof (cases rule: Update_Inr_cases [of db db' "()"])
      case commit
      show ?thesis
        by (rule ok [of db']) (use commit eq p put_workflow_state_ok [OF assms(1) ok' p] in simp_all)
    next
      case (failed m)
      then have "\<not> reliable B" by (auto simp: reliable_Update)
      with failed show ?thesis by (intro error [of m]) (simp_all add: eq p)
    qed
  qed
qed

lemma InitWorkflowState_cases:
  assumes "workflows_wf B db"
  obtains
    (ok) db' where "InitWorkflowState B now db w = (db', Inr ())"
      "wf_table B db' = (wf_table B db)(w \<mapsto> \<lparr>wsr_WorkflowID = w, wsr_State = WORKFLOW_RUNNING,
           SubmittedAtMs = now, CompletedAtMs = 0\<rparr>)"
      "workflows_wf B db'" "only_workflow_state_changed db db'"
  | (error) m where "InitWorkflowState B now db w = (db, Inl (LibErr m))"
proof -
  let ?r = "\<lparr>wsr_WorkflowID = w, wsr_State = WORKFLOW_RUNNING, SubmittedAtMs = now, CompletedAtMs = 0\<rparr>"
  have ok': "wf_record_ok w ?r" by (simp add: wf_record_ok_def)
  show ?thesis
  proof (cases "put_workflow_state B db w ?r")
    case (Inl e)
    then obtain m where m: "e = LibErr m"
      by (auto simp: put_workflow_state_def dest: put_error split: sum.splits)
    show ?thesis by (rule error [of m]) (simp add: InitWorkflowState_def Inl m)
  next
    case (Inr p)
    then obtain db' where p: "put_workflow_state B db w ?r = Inr (db', ())"
      by (cases p) auto
    show ?thesis
    proof (cases rule: Update_Inr_cases [of db db' "()"])
      case commit
      show ?thesis
        by (rule ok [of db'])
           (use commit p put_workflow_state_ok [OF assms ok' p] in \<open>simp_all add: InitWorkflowState_def\<close>)
    next
      case (failed m)
      then show ?thesis by (intro error [of m]) (simp add: InitWorkflowState_def p)
    qed
  qed
qed

lemma GetWorkflow_table:
  "GetWorkflow B db w = Inr s \<longleftrightarrow> spec_table B db w = Some s"
  by (auto simp: spec_table_def split: sum.splits)

lemma GetWorkflow_error: "GetWorkflow B db w = Inl e \<Longrightarrow> \<not> fatal e"
  by (auto simp: GetWorkflow_def fatal_def dest: proto_unmarshal_error split: option.splits sum.splits)

lemma StoreWorkflow_cases:
  obtains
    (ok) db' where "StoreWorkflow B db w = (db', Inr ())"
      "spec_table B db' = (spec_table B db)(WorkflowId w \<mapsto> w)"
      "db' = db\<lparr>bucket_workflows := bucket_workflows db'\<rparr>" "WorkflowId w \<noteq> []"
  | (error) m where "StoreWorkflow B db w = (db, Inl (LibErr m))"
proof (cases "proto_marshal B w")
  case (Inl e)
  then obtain m where "e = LibErr m" by (auto dest: proto_marshal_error)
  with Inl show ?thesis by (intro error [of m]) (simp add: StoreWorkflow_def)
next
  case (Inr d)
  show ?thesis
  proof (cases "b_put B (bucket_workflows db) (WorkflowId w) d")
    case (Inl e)
    then obtain m where "e = LibErr m" by (auto dest: put_error)
    with Inl Inr show ?thesis by (intro error [of m]) (simp add: StoreWorkflow_def)
  next
    case b: (Inr b)
    let ?db = "db\<lparr>bucket_workflows := b\<rparr>"
    have eq: "StoreWorkflow B db w = Update B db (Inr (?db, ()))"
      by (simp add: StoreWorkflow_def Inr b)
    have tab: "spec_table B ?db = (spec_table B db)(WorkflowId w \<mapsto> w)"
      by (auto simp: spec_table_def GetWorkflow_def get_put [OF b] proto_roundtrip [OF Inr])
    show ?thesis
    proof (cases rule: Update_Inr_cases [of db ?db "()"])
      case commit
      show ?thesis by (rule ok [of ?db]) (use commit eq tab put_limits [OF b] in simp_all)
    next
      case (failed m)
      then show ?thesis by (intro error [of m]) (simp add: eq)
    qed
  qed
qed

lemma GetAllWorkflowStates_table:
  assumes "workflows_wf B db"
  obtains rs where "GetAllWorkflowStates B db = (rs, None)"
    "set rs = ran (wf_table B db)" "distinct (map wsr_WorkflowID rs)"
proof -
  let ?kvs = "b_foreach B (bucket_workflow_state db)"
  have col: "collect unmarshalWorkflowState kvs = (map (\<lambda>k. the (wf_table B db k)) (map fst kvs), None)"
    if "set kvs \<subseteq> set ?kvs" for kvs
    using that
  proof (induction kvs)
    case Nil
    then show ?case by simp
  next
    case (Cons kv kvs)
    obtain k v where kv: "kv = (k, v)" by fastforce
    with Cons.prems have "b_get B (bucket_workflow_state db) k = Some v"
      by (simp add: foreach_get)
    with assms have "unmarshalWorkflowState v = Inr (the (wf_table B db k))"
      by (cases rule: wf_bucket_cases [of db k]) (auto simp: workflow_state_roundtrip wf_record_ok_def)
    with Cons kv show ?case by simp
  qed
  have keys: "k \<in> fst ` set ?kvs \<longleftrightarrow> (\<exists>r. wf_table B db k = Some r)" for k
  proof -
    have "k \<in> fst ` set ?kvs \<longleftrightarrow> (\<exists>v. b_get B (bucket_workflow_state db) k = Some v)"
      by (force simp: foreach_get [symmetric])
    with assms show ?thesis by (cases rule: wf_bucket_cases [of db k]) auto
  qed
  have kid: "wsr_WorkflowID (the (wf_table B db k)) = k" if "k \<in> fst ` set ?kvs" for k
    using that unfolding keys
    by (cases rule: wf_bucket_cases [OF assms, of k]) (auto simp: wf_record_ok_def)
  let ?rs = "map (\<lambda>k. the (wf_table B db k)) (map fst ?kvs)"
  have "map wsr_WorkflowID ?rs = map fst ?kvs"
    using kid by (auto simp: comp_def intro!: map_cong)
  then have "distinct (map wsr_WorkflowID ?rs)" by (simp only: foreach_distinct)
  moreover have "set ?rs = ran (wf_table B db)"
    using keys by (force simp: ran_def image_iff)
  ultimately show ?thesis
    using col [OF subset_refl] by (intro that [of ?rs]) (simp_all add: GetAllWorkflowStates_def)
qed

end

end
