(* ===== verification/Dag.thy ===== *)
theory Dag
  imports Proto_Types
begin

text \<open>
  The DAG resolver, \<^verbatim>\<open>internal/coordinator/dag.go\<close>. A \<^verbatim>\<open>range\<close> over one of the maps takes
  the order of the visit as an argument. The recursive closure \<^verbatim>\<open>visit\<close> recurses on a
  counter of the remaining depth; \<open>hasCycle_sound\<close> shows that the depth given, one more
  than the number of tasks, is never used up.
\<close>

section \<open>Construction\<close>

record DAG =
  dag_tasks :: "string \<rightharpoonup> TaskSpec"
  dag_dependencies :: "string \<rightharpoonup> string list"
  dag_downstream :: "string \<rightharpoonup> string list"
  dag_inDegree :: "string \<rightharpoonup> i32"

definition empty_DAG :: DAG where
  "empty_DAG = \<lparr>dag_tasks = Map.empty, dag_dependencies = Map.empty,
                dag_downstream = Map.empty, dag_inDegree = Map.empty\<rparr>"

text \<open>Reading a map of slices: a missing key gives nil.\<close>

definition slice_at :: "(string \<rightharpoonup> string list) \<Rightarrow> string \<Rightarrow> string list" where
  "slice_at m k = (case m k of None \<Rightarrow> [] | Some xs \<Rightarrow> xs)"

text \<open>A loop that ends at the first error, over a state.\<close>

fun for_each :: "('a \<Rightarrow> 's \<Rightarrow> err + 's) \<Rightarrow> 'a list \<Rightarrow> 's \<Rightarrow> err + 's" where
  "for_each f [] s = Inr s"
| "for_each f (x # xs) s = (case f x s of Inl e \<Rightarrow> Inl e | Inr s' \<Rightarrow> for_each f xs s')"

definition add_task :: "TaskSpec \<Rightarrow> DAG \<Rightarrow> err + DAG" where
  "add_task task dag =
     (case dag_tasks dag (TaskId task) of
        Some _ \<Rightarrow> Inl ErrDuplicateTaskID
      | None \<Rightarrow>
          Inr (dag\<lparr>dag_tasks := (dag_tasks dag)(TaskId task \<mapsto> task),
                   dag_inDegree := (dag_inDegree dag)(TaskId task \<mapsto> 0),
                   dag_dependencies := (dag_dependencies dag)(TaskId task \<mapsto> Dependencies task),
                   dag_downstream := (dag_downstream dag)(TaskId task \<mapsto> [])\<rparr>))"

definition check_task_deps :: "string \<Rightarrow> DAG \<Rightarrow> err + DAG" where
  "check_task_deps taskID dag =
     for_each
       (\<lambda>dep dag. case dag_tasks dag dep of
                    None \<Rightarrow> Inl (ErrMissingDependency taskID dep)
                  | Some _ \<Rightarrow> Inr dag)
       (slice_at (dag_dependencies dag) taskID) dag"

definition link_dep :: "string \<Rightarrow> string \<Rightarrow> DAG \<Rightarrow> DAG" where
  "link_dep taskID dep dag =
     dag\<lparr>dag_downstream :=
           (dag_downstream dag)(dep \<mapsto> slice_at (dag_downstream dag) dep @ [taskID]),
         dag_inDegree :=
           (dag_inDegree dag)(taskID \<mapsto>
              (case dag_inDegree dag taskID of None \<Rightarrow> 0 | Some n \<Rightarrow> n) + 1)\<rparr>"

definition link_task :: "string \<Rightarrow> DAG \<Rightarrow> DAG" where
  "link_task taskID dag = fold (link_dep taskID) (slice_at (dag_dependencies dag) taskID) dag"

section \<open>Cycle detection\<close>

text \<open>0 is white (unvisited), 1 grey (visiting), 2 black (visited).\<close>

type_synonym colors = "string \<rightharpoonup> nat"

definition color :: "colors \<Rightarrow> string \<Rightarrow> nat" where
  "color c t = (case c t of None \<Rightarrow> 0 | Some n \<Rightarrow> n)"

fun visit :: "DAG \<Rightarrow> nat \<Rightarrow> string \<Rightarrow> colors \<Rightarrow> err + colors" where
  "visit d 0 taskID c = Inl Diverges"
| "visit d (Suc depth) taskID c =
     (if color c taskID = 1 then Inl (ErrCyclicDAG taskID)
      else if color c taskID = 2 then Inr c
      else
        (case for_each (visit d depth) (slice_at (dag_dependencies d) taskID) (c(taskID \<mapsto> 1)) of
           Inl e \<Rightarrow> Inl e
         | Inr c' \<Rightarrow> Inr (c'(taskID \<mapsto> 2))))"

definition hasCycle :: "DAG \<Rightarrow> string list \<Rightarrow> err + unit" where
  "hasCycle d ord =
     (case for_each
             (\<lambda>taskID c. if color c taskID = 0 then visit d (Suc (length ord)) taskID c else Inr c)
             ord (\<lambda>t. map_option (\<lambda>_. 0) (dag_tasks d t)) of
        Inl e \<Rightarrow> Inl e
      | Inr _ \<Rightarrow> Inr ())"

section \<open>ValidateAndSort and the accessors\<close>

text \<open>
  \<open>ord1\<close> and \<open>ord2\<close> are the orders of the two ranges over \<^verbatim>\<open>dag.dependencies\<close>, \<open>ord3\<close> that
  of the range over \<^verbatim>\<open>d.tasks\<close> in \<^verbatim>\<open>hasCycle\<close>.
\<close>

definition ValidateAndSort ::
    "string list \<Rightarrow> string list \<Rightarrow> string list \<Rightarrow> WorkflowSpec \<Rightarrow> err + DAG" where
  "ValidateAndSort ord1 ord2 ord3 workflow =
     (case for_each add_task (Tasks workflow) empty_DAG of
        Inl e \<Rightarrow> Inl e
      | Inr dag \<Rightarrow>
          (case for_each check_task_deps ord1 dag of
             Inl e \<Rightarrow> Inl e
           | Inr dag \<Rightarrow>
               (let dag = fold link_task ord2 dag in
                case hasCycle dag ord3 of
                  Inl e \<Rightarrow> Inl e
                | Inr _ \<Rightarrow> Inr dag)))"

definition GetInDegree :: "DAG \<Rightarrow> string \<rightharpoonup> i32" where
  "GetInDegree d = dag_inDegree d"

definition GetDownstream :: "DAG \<Rightarrow> string \<Rightarrow> string list" where
  "GetDownstream d taskID = slice_at (dag_downstream d) taskID"

definition GetDependencies :: "DAG \<Rightarrow> string \<Rightarrow> string list" where
  "GetDependencies d taskID = slice_at (dag_dependencies d) taskID"

definition GetReadyTasks :: "DAG \<Rightarrow> string list \<Rightarrow> string list" where
  "GetReadyTasks d ord = filter (\<lambda>taskID. dag_inDegree d taskID = Some 0) ord"

definition GetTaskSpec :: "DAG \<Rightarrow> string \<Rightarrow> TaskSpec option" where
  "GetTaskSpec d taskID = dag_tasks d taskID"

definition GetAllTaskSpecs :: "DAG \<Rightarrow> string \<rightharpoonup> TaskSpec" where
  "GetAllTaskSpecs d = dag_tasks d"

definition GetAllDownstream :: "DAG \<Rightarrow> string \<rightharpoonup> string list" where
  "GetAllDownstream d = dag_downstream d"

section \<open>What a valid workflow is\<close>

definition task_ids :: "WorkflowSpec \<Rightarrow> string set" where
  "task_ids w = TaskId ` set (Tasks w)"

text \<open>\<open>(t, d)\<close>: task \<open>t\<close> depends on \<open>d\<close>.\<close>

definition dep_rel :: "WorkflowSpec \<Rightarrow> (string \<times> string) set" where
  "dep_rel w = {(TaskId t, d) | t d. t \<in> set (Tasks w) \<and> d \<in> set (Dependencies t)}"

definition ids_unique :: "WorkflowSpec \<Rightarrow> bool" where
  "ids_unique w \<longleftrightarrow> distinct (map TaskId (Tasks w))"

definition deps_exist :: "WorkflowSpec \<Rightarrow> bool" where
  "deps_exist w \<longleftrightarrow> (\<forall>t\<in>set (Tasks w). set (Dependencies t) \<subseteq> task_ids w)"

definition valid_workflow :: "WorkflowSpec \<Rightarrow> bool" where
  "valid_workflow w \<longleftrightarrow> ids_unique w \<and> deps_exist w \<and> acyclic (dep_rel w)"

text \<open>The error of the resolver names the defect of the workflow.\<close>

definition dag_error :: "WorkflowSpec \<Rightarrow> err \<Rightarrow> bool" where
  "dag_error w e \<longleftrightarrow>
     e = ErrDuplicateTaskID \<and> \<not> ids_unique w \<or>
     (\<exists>t x. e = ErrMissingDependency t x \<and> (t, x) \<in> dep_rel w \<and> x \<notin> task_ids w) \<or>
     (\<exists>y. e = ErrCyclicDAG y \<and> (y, y) \<in> (dep_rel w)\<^sup>+)"

text \<open>\<open>ord\<close> enumerates the task ids once each: an order in which Go may visit the maps.\<close>

definition id_order :: "WorkflowSpec \<Rightarrow> string list \<Rightarrow> bool" where
  "id_order w ord \<longleftrightarrow> distinct ord \<and> set ord = task_ids w"

definition dag_rel :: "DAG \<Rightarrow> (string \<times> string) set" where
  "dag_rel d = {(t, x). x \<in> set (slice_at (dag_dependencies d) t)}"

definition grey :: "colors \<Rightarrow> string set" where "grey c = {t. color c t = 1}"
definition black :: "colors \<Rightarrow> string set" where "black c = {t. color c t = 2}"
definition white :: "DAG \<Rightarrow> colors \<Rightarrow> string set" where
  "white d c = {t \<in> dom (dag_tasks d). color c t \<noteq> 1 \<and> color c t \<noteq> 2}"

text \<open>The black nodes are closed under dependencies and on no cycle.\<close>

definition dfs_inv :: "DAG \<Rightarrow> colors \<Rightarrow> bool" where
  "dfs_inv d c \<longleftrightarrow> (\<forall>t. color c t \<le> 2) \<and> dag_rel d `` black c \<subseteq> black c \<and> (\<forall>t\<in>black c. (t, t) \<notin> (dag_rel d)\<^sup>+)"

text \<open>What a visit from \<open>c\<close> to \<open>c'\<close> guarantees.\<close>

definition dfs_step :: "DAG \<Rightarrow> colors \<Rightarrow> colors \<Rightarrow> bool" where
  "dfs_step d c c' \<longleftrightarrow> dfs_inv d c' \<and> grey c' = grey c \<and> black c \<subseteq> black c'"

definition closed_dag :: "DAG \<Rightarrow> bool" where
  "closed_dag d \<longleftrightarrow> finite (dom (dag_tasks d)) \<and> dag_rel d `` dom (dag_tasks d) \<subseteq> dom (dag_tasks d)"

lemma color_upd: "color (c(t \<mapsto> n)) x = (if x = t then n else color c x)"
  by (simp add: color_def)

lemma grey_upd: "grey (c(t \<mapsto> 1)) = insert t (grey c)" "grey (c(t \<mapsto> 2)) = grey c - {t}"
  by (auto simp: grey_def color_upd)

lemma black_upd: "black (c(t \<mapsto> 1)) = black c - {t}" "black (c(t \<mapsto> 2)) = insert t (black c)"
  by (auto simp: black_def color_upd)

lemma white_le: "dfs_step d c c' \<Longrightarrow> white d c' \<subseteq> white d c"
  by (auto simp: dfs_step_def white_def grey_def black_def)

lemma for_each_visit:
  assumes visit: "\<And>x c. x \<in> set xs \<Longrightarrow> dfs_inv d c \<Longrightarrow> grey c = G \<Longrightarrow> white d c \<subseteq> W \<Longrightarrow>
     (case f x c of Inl e \<Rightarrow> \<exists>y. e = ErrCyclicDAG y \<and> (y, y) \<in> (dag_rel d)\<^sup>+
      | Inr c' \<Rightarrow> dfs_step d c c' \<and> x \<in> black c')"
    and "dfs_inv d c" "grey c = G" "white d c \<subseteq> W"
  shows "case for_each f xs c of Inl e \<Rightarrow> \<exists>y. e = ErrCyclicDAG y \<and> (y, y) \<in> (dag_rel d)\<^sup>+
      | Inr c' \<Rightarrow> dfs_step d c c' \<and> set xs \<subseteq> black c'"
  using assms
proof (induction xs arbitrary: c)
  case Nil
  then show ?case by (simp add: dfs_step_def)
next
  case (Cons x xs)
  show ?case
  proof (cases "f x c")
    case (Inl e)
    with Cons.prems(1) [of x c] Cons.prems(2-4) show ?thesis by simp
  next
    case (Inr c1)
    with Cons.prems(1) [of x c] Cons.prems(2-4) have s: "dfs_step d c c1" "x \<in> black c1" by auto
    have "case for_each f xs c1 of Inl e \<Rightarrow> \<exists>y. e = ErrCyclicDAG y \<and> (y, y) \<in> (dag_rel d)\<^sup>+
      | Inr c' \<Rightarrow> dfs_step d c1 c' \<and> set xs \<subseteq> black c'"
      by (rule Cons.IH) (use Cons.prems s white_le [OF s(1)] in \<open>auto simp: dfs_step_def\<close>)
    with Inr s show ?thesis
      by (auto simp: dfs_step_def split: sum.splits)
  qed
qed

text \<open>Colouring a task black after its dependencies, none of which leads back to it.\<close>

lemma dfs_step_finish:
  assumes "t \<notin> grey c" and "t \<notin> black c" and "dfs_step d (c(t \<mapsto> 1)) c'" and "set (slice_at (dag_dependencies d) t) \<subseteq> black c'"
  shows "dfs_step d c (c'(t \<mapsto> 2))"
proof -
  have "t \<in> grey c'" using assms(3) unfolding dfs_step_def grey_upd by simp
  then have t: "t \<notin> black c'" by (simp add: grey_def black_def)
  have closed: "dag_rel d `` black c' \<subseteq> black c'"
    using assms(3) by (simp add: dfs_step_def dfs_inv_def)
  have "(t, t) \<notin> (dag_rel d)\<^sup>+"
  proof
    assume "(t, t) \<in> (dag_rel d)\<^sup>+"
    then obtain x where "(t, x) \<in> dag_rel d" "(x, t) \<in> (dag_rel d)\<^sup>*"
      by (blast dest: tranclD)
    moreover from this(1) assms(4) have "x \<in> black c'" by (auto simp: dag_rel_def)
    ultimately have "t \<in> black c'"
      using Image_closed_trancl [OF closed] by blast
    with t show False ..
  qed
  with assms closed show ?thesis
    unfolding dfs_step_def dfs_inv_def black_upd grey_upd
    by (auto simp: dag_rel_def color_upd)
qed

lemma visit_spec:
  assumes "closed_dag d" and "dfs_inv d c" and "t \<in> dom (dag_tasks d)"
    and "\<forall>g\<in>grey c. (g, t) \<in> (dag_rel d)\<^sup>+" and "card (white d c) < depth"
  shows "case visit d depth t c of Inl e \<Rightarrow> \<exists>y. e = ErrCyclicDAG y \<and> (y, y) \<in> (dag_rel d)\<^sup>+
      | Inr c' \<Rightarrow> dfs_step d c c' \<and> t \<in> black c'"
  using assms(2-)
proof (induction depth arbitrary: t c)
  case 0
  then show ?case by simp
next
  case (Suc depth)
  consider "color c t = 1" | "color c t = 2" | "color c t \<noteq> 1" "color c t \<noteq> 2" by blast
  then show ?case
  proof cases
    case 1
    with Suc.prems(3) show ?thesis by (auto simp: grey_def)
  next
    case 2
    with Suc.prems(1) show ?thesis by (simp add: dfs_step_def black_def)
  next
    case 3
    let ?c = "c(t \<mapsto> 1)" and ?xs = "slice_at (dag_dependencies d) t"
    have tg: "t \<notin> grey c" "t \<notin> black c" using 3 by (auto simp: grey_def black_def)
    have white: "white d ?c = white d c - {t}" "t \<in> white d c"
      using 3 Suc.prems(2) by (auto simp: white_def color_upd)
    have fin: "finite (white d c)" using assms(1) by (simp add: white_def closed_dag_def)
    have rel: "(t, x) \<in> dag_rel d" if "x \<in> set ?xs" for x
      using that by (simp add: dag_rel_def)
    have "case for_each (visit d depth) ?xs ?c of Inl e \<Rightarrow> \<exists>y. e = ErrCyclicDAG y \<and> (y, y) \<in> (dag_rel d)\<^sup>+
      | Inr c' \<Rightarrow> dfs_step d ?c c' \<and> set ?xs \<subseteq> black c'"
    proof (rule for_each_visit [where G = "grey ?c" and W = "white d ?c"])
      fix x c1
      assume x: "x \<in> set ?xs" and c1: "dfs_inv d c1" "grey c1 = grey ?c" "white d c1 \<subseteq> white d ?c"
      show "case visit d depth x c1 of Inl e \<Rightarrow> \<exists>y. e = ErrCyclicDAG y \<and> (y, y) \<in> (dag_rel d)\<^sup>+
        | Inr c' \<Rightarrow> dfs_step d c1 c' \<and> x \<in> black c'"
      proof (rule Suc.IH [OF c1(1)])
        show "x \<in> dom (dag_tasks d)"
          using rel [OF x] Suc.prems(2) assms(1) by (auto simp: closed_dag_def)
        show "\<forall>g\<in>grey c1. (g, x) \<in> (dag_rel d)\<^sup>+"
          unfolding c1(2) grey_upd
          using rel [OF x] Suc.prems(3) by (auto intro: trancl_into_trancl)
        have "card (white d c1) \<le> card (white d c - {t})"
          using c1(3) fin white(1) by (intro card_mono) auto
        also have "\<dots> < card (white d c)"
          using white(2) fin by (rule card_Diff1_less [rotated])
        finally show "card (white d c1) < depth"
          using Suc.prems(4) by simp
      qed
    next
      show "dfs_inv d ?c"
        using Suc.prems(1) tg unfolding dfs_inv_def black_upd by (simp add: color_upd)
    qed simp_all
    then show ?thesis
      using 3 dfs_step_finish [OF tg] by (auto simp: black_upd split: sum.splits)
  qed
qed

lemma hasCycle_sound:
  assumes "closed_dag d" and "distinct ord" and "set ord = dom (dag_tasks d)"
    and "\<And>t. t \<notin> dom (dag_tasks d) \<Longrightarrow> slice_at (dag_dependencies d) t = []"
  shows "case hasCycle d ord of Inl e \<Rightarrow> \<exists>y. e = ErrCyclicDAG y \<and> (y, y) \<in> (dag_rel d)\<^sup>+
      | Inr _ \<Rightarrow> acyclic (dag_rel d)"
proof -
  let ?c0 = "\<lambda>t. map_option (\<lambda>_. 0) (dag_tasks d t)"
  let ?f = "\<lambda>t c. if color c t = 0 then visit d (Suc (length ord)) t c else Inr c"
  have c0: "color ?c0 t = 0" for t by (simp add: color_def split: option.split)
  have inv0: "dfs_inv d ?c0" and grey0: "grey ?c0 = {}"
    by (auto simp: dfs_inv_def grey_def black_def c0)
  have spec: "case for_each ?f ord ?c0 of Inl e \<Rightarrow> \<exists>y. e = ErrCyclicDAG y \<and> (y, y) \<in> (dag_rel d)\<^sup>+
      | Inr c' \<Rightarrow> dfs_step d ?c0 c' \<and> set ord \<subseteq> black c'"
  proof (rule for_each_visit [where G = "{}" and W = "dom (dag_tasks d)"])
    fix x c
    assume x: "x \<in> set ord" and c: "dfs_inv d c" "grey c = {}" "white d c \<subseteq> dom (dag_tasks d)"
    show "case ?f x c of Inl e \<Rightarrow> \<exists>y. e = ErrCyclicDAG y \<and> (y, y) \<in> (dag_rel d)\<^sup>+
        | Inr c' \<Rightarrow> dfs_step d c c' \<and> x \<in> black c'"
    proof (cases "color c x = 0")
      case True
      have "card (white d c) \<le> card (set ord)"
        using c(3) assms(3) card_mono [OF finite_set [of ord]] by simp
      then have "card (white d c) < Suc (length ord)"
        using assms(2) by (simp add: distinct_card)
      with True visit_spec [OF assms(1) c(1), of x "Suc (length ord)"] x c(2) assms(3)
      show ?thesis by simp
    next
      case False
      have "color c x \<le> 2" using c(1) by (simp add: dfs_inv_def)
      moreover have "color c x \<noteq> 1" using c(2) by (auto simp: grey_def)
      ultimately have "color c x = 2" using False by linarith
      with c(1) show ?thesis by (simp add: dfs_step_def black_def)
    qed
  qed (use inv0 grey0 in \<open>auto simp: white_def\<close>)
  have "acyclic (dag_rel d)" if c': "dfs_step d ?c0 c'" "set ord \<subseteq> black c'" for c'
    unfolding acyclic_def
  proof (intro allI notI)
    fix x
    assume x: "(x, x) \<in> (dag_rel d)\<^sup>+"
    then obtain y where "(x, y) \<in> dag_rel d" by (blast dest: tranclD)
    then have "x \<in> dom (dag_tasks d)" using assms(4) [of x]
      by (cases "x \<in> dom (dag_tasks d)") (auto simp: dag_rel_def)
    with c' x assms(3) show False by (auto simp: dfs_step_def dfs_inv_def)
  qed
  with spec show ?thesis
    by (auto simp: hasCycle_def split: sum.splits)
qed

section \<open>Construction\<close>

lemma slice_at_upd: "slice_at (m(k \<mapsto> xs)) k' = (if k' = k then xs else slice_at m k')"
  by (simp add: slice_at_def)

definition spec_map :: "TaskSpec list \<Rightarrow> string \<rightharpoonup> TaskSpec" where
  "spec_map ts = map_of (map (\<lambda>t. (TaskId t, t)) ts)"

lemma spec_map_Cons: "spec_map (t # ts) = (spec_map ts)(TaskId t \<mapsto> t)"
  by (simp add: spec_map_def)

lemma dom_spec_map: "dom (spec_map ts) = TaskId ` set ts"
  by (auto simp: spec_map_def dom_map_of_conv_image_fst image_image)

lemma spec_map_Some: "distinct (map TaskId ts) \<Longrightarrow> t \<in> set ts \<Longrightarrow> spec_map ts (TaskId t) = Some t"
  by (simp add: spec_map_def map_of_eq_Some_iff comp_def)

lemma spec_map_mem: "spec_map ts k = Some t \<Longrightarrow> t \<in> set ts \<and> TaskId t = k"
  by (auto simp: spec_map_def dest: map_of_SomeD)

definition filled :: "DAG \<Rightarrow> TaskSpec list \<Rightarrow> DAG" where
  "filled d ts =
     \<lparr>dag_tasks = dag_tasks d ++ spec_map ts,
      dag_dependencies = dag_dependencies d ++ (map_option Dependencies \<circ> spec_map ts),
      dag_downstream = dag_downstream d ++ (map_option (\<lambda>_. []) \<circ> spec_map ts),
      dag_inDegree = dag_inDegree d ++ (map_option (\<lambda>_. 0) \<circ> spec_map ts)\<rparr>"

lemma filled_Cons:
  assumes "TaskId t \<notin> TaskId ` set ts"
  shows "filled (d\<lparr>dag_tasks := (dag_tasks d)(TaskId t \<mapsto> t),
                   dag_inDegree := (dag_inDegree d)(TaskId t \<mapsto> 0),
                   dag_dependencies := (dag_dependencies d)(TaskId t \<mapsto> Dependencies t),
                   dag_downstream := (dag_downstream d)(TaskId t \<mapsto> [])\<rparr>) ts
         = filled d (t # ts)"
proof -
  have "spec_map ts (TaskId t) = None"
    using assms dom_spec_map [of ts] by (auto simp: domIff [symmetric])
  then show ?thesis
    by (auto simp: filled_def spec_map_Cons map_add_def fun_eq_iff split: option.split)
qed

lemma add_tasks:
  "for_each add_task ts d =
     (if distinct (map TaskId ts) \<and> (\<forall>t\<in>set ts. dag_tasks d (TaskId t) = None)
      then Inr (filled d ts) else Inl ErrDuplicateTaskID)"
proof (induction ts arbitrary: d)
  case Nil
  then show ?case by (simp add: filled_def spec_map_def comp_def)
next
  case (Cons t ts)
  show ?case
  proof (cases "dag_tasks d (TaskId t)")
    case None
    show ?thesis
    proof (cases "TaskId t \<in> TaskId ` set ts")
      case True
      with None Cons show ?thesis by (auto simp: add_task_def)
    next
      case False
      with None Cons filled_Cons [OF False, of d] show ?thesis
        by (auto simp: add_task_def image_iff)
    qed
  next
    case (Some s)
    then show ?thesis by (simp add: add_task_def)
  qed
qed

lemma check_task_deps:
  "check_task_deps t d =
     (case find (\<lambda>x. dag_tasks d x = None) (slice_at (dag_dependencies d) t) of
        None \<Rightarrow> Inr d | Some x \<Rightarrow> Inl (ErrMissingDependency t x))"
proof -
  have "for_each (\<lambda>dep dag. case dag_tasks dag dep of None \<Rightarrow> Inl (ErrMissingDependency t dep) | Some _ \<Rightarrow> Inr dag) xs d
     = (case find (\<lambda>x. dag_tasks d x = None) xs of
        None \<Rightarrow> Inr d | Some x \<Rightarrow> Inl (ErrMissingDependency t x))" for xs
    by (induction xs) (auto split: option.splits)
  then show ?thesis by (simp add: check_task_deps_def)
qed

lemma check_all_deps:
  "case for_each check_task_deps ord d of
     Inl e \<Rightarrow> \<exists>t\<in>set ord. \<exists>x\<in>set (slice_at (dag_dependencies d) t).
               dag_tasks d x = None \<and> e = ErrMissingDependency t x
   | Inr d' \<Rightarrow> d' = d \<and> (\<forall>t\<in>set ord. \<forall>x\<in>set (slice_at (dag_dependencies d) t). dag_tasks d x \<noteq> None)"
proof (induction ord)
  case Nil
  then show ?case by simp
next
  case (Cons t ord)
  show ?case
  proof (cases "find (\<lambda>x. dag_tasks d x = None) (slice_at (dag_dependencies d) t)")
    case None
    then have "check_task_deps t d = Inr d"
      and "\<forall>x\<in>set (slice_at (dag_dependencies d) t). dag_tasks d x \<noteq> None"
      by (simp add: check_task_deps, use None in \<open>auto simp: find_None_iff\<close>)
    with Cons show ?thesis by (auto split: sum.splits)
  next
    case (Some x)
    then have "x \<in> set (slice_at (dag_dependencies d) t)" "dag_tasks d x = None"
      by (auto simp: find_Some_iff)
    with Some show ?thesis by (auto simp: check_task_deps [of t d])
  qed
qed

lemma link_deps:
  defines "deg d t \<equiv> (case dag_inDegree d t of None \<Rightarrow> 0 | Some n \<Rightarrow> n)"
  shows "dag_tasks (fold (link_dep t) xs d) = dag_tasks d"
    and "dag_dependencies (fold (link_dep t) xs d) = dag_dependencies d"
    and "slice_at (dag_downstream (fold (link_dep t) xs d)) u =
         slice_at (dag_downstream d) u @ replicate (count_list xs u) t"
    and "dag_inDegree (fold (link_dep t) xs d) =
         (if xs = [] then dag_inDegree d
          else (dag_inDegree d)(t \<mapsto> deg d t + word_of_nat (length xs)))"
    and "dom (dag_downstream (fold (link_dep t) xs d)) = dom (dag_downstream d) \<union> set xs"
proof -
  show "dag_tasks (fold (link_dep t) xs d) = dag_tasks d"
    and "dag_dependencies (fold (link_dep t) xs d) = dag_dependencies d"
    by (induction xs arbitrary: d) (auto simp: link_dep_def)
  show "slice_at (dag_downstream (fold (link_dep t) xs d)) u =
         slice_at (dag_downstream d) u @ replicate (count_list xs u) t"
    by (induction xs arbitrary: d)
       (auto simp: link_dep_def slice_at_upd replicate_append_same simp flip: replicate_Suc)
  show "dag_inDegree (fold (link_dep t) xs d) =
         (if xs = [] then dag_inDegree d
          else (dag_inDegree d)(t \<mapsto> deg d t + word_of_nat (length xs)))"
    by (induction xs arbitrary: d) (auto simp: link_dep_def deg_def)
  show "dom (dag_downstream (fold (link_dep t) xs d)) = dom (dag_downstream d) \<union> set xs"
    by (induction xs arbitrary: d) (auto simp: link_dep_def)
qed

definition in_degree :: "DAG \<Rightarrow> string \<Rightarrow> i32" where
  "in_degree d t = (case dag_inDegree d t of None \<Rightarrow> 0 | Some n \<Rightarrow> n)"

lemma link_task:
  shows "dag_tasks (link_task t d) = dag_tasks d"
    and "dag_dependencies (link_task t d) = dag_dependencies d"
    and "slice_at (dag_downstream (link_task t d)) u =
         slice_at (dag_downstream d) u @ replicate (count_list (slice_at (dag_dependencies d) t) u) t"
    and "in_degree (link_task t d) v = (if v = t then in_degree d t + word_of_nat (length (slice_at (dag_dependencies d) t)) else in_degree d v)"
    and "t \<in> dom (dag_inDegree d) \<Longrightarrow> dom (dag_inDegree (link_task t d)) = dom (dag_inDegree d)"
    and "dom (dag_downstream (link_task t d)) =
         dom (dag_downstream d) \<union> set (slice_at (dag_dependencies d) t)"
  by (auto simp: link_task_def link_deps in_degree_def)

lemma link_tasks:
  shows "dag_tasks (fold link_task ord d) = dag_tasks d" (is ?T)
    and "dag_dependencies (fold link_task ord d) = dag_dependencies d" (is ?D)
    and "slice_at (dag_downstream (fold link_task ord d)) u =
         slice_at (dag_downstream d) u @
         concat (map (\<lambda>t. replicate (count_list (slice_at (dag_dependencies d) t) u) t) ord)" (is ?S)
    and "distinct ord \<Longrightarrow> in_degree (fold link_task ord d) v =
         (if v \<in> set ord then in_degree d v + word_of_nat (length (slice_at (dag_dependencies d) v))
          else in_degree d v)" (is "_ \<Longrightarrow> ?I")
    and "set ord \<subseteq> dom (dag_inDegree d) \<Longrightarrow> dom (dag_inDegree (fold link_task ord d)) = dom (dag_inDegree d)"
      (is "_ \<Longrightarrow> ?M")
    and "dom (dag_downstream (fold link_task ord d)) =
         dom (dag_downstream d) \<union> (\<Union>t\<in>set ord. set (slice_at (dag_dependencies d) t))" (is ?N)
proof -
  show ?T and ?D and ?S
    by (induction ord arbitrary: d) (simp_all add: link_task)
  show ?N
    by (induction ord arbitrary: d) (auto simp: link_task)
  show ?I if "distinct ord"
    using that by (induction ord arbitrary: d) (auto simp: link_task)
  show ?M if "set ord \<subseteq> dom (dag_inDegree d)"
    using that
  proof (induction ord arbitrary: d)
    case (Cons t ord)
    then have "dom (dag_inDegree (link_task t d)) = dom (dag_inDegree d)" by (simp add: link_task)
    with Cons show ?case by simp
  qed simp
qed


section \<open>The resolver is correct\<close>

text \<open>The graph the resolver builds before it looks for cycles.\<close>

definition built :: "WorkflowSpec \<Rightarrow> string list \<Rightarrow> DAG" where
  "built w ord = fold link_task ord (filled empty_DAG (Tasks w))"

definition deps_of :: "WorkflowSpec \<Rightarrow> string \<Rightarrow> string list" where
  "deps_of w t = (case spec_map (Tasks w) t of None \<Rightarrow> [] | Some s \<Rightarrow> Dependencies s)"

lemma dom_spec_tasks [simp]: "dom (spec_map (Tasks w)) = task_ids w"
  by (simp add: task_ids_def dom_spec_map)

lemma deps_of_task: "ids_unique w \<Longrightarrow> t \<in> set (Tasks w) \<Longrightarrow> deps_of w (TaskId t) = Dependencies t"
  by (simp add: deps_of_def ids_unique_def spec_map_Some)

lemma deps_of_outside: "t \<notin> task_ids w \<Longrightarrow> deps_of w t = []"
  by (auto simp: deps_of_def simp flip: dom_spec_tasks split: option.split)

lemma dep_rel_deps_of:
  assumes "ids_unique w"
  shows "dep_rel w = {(t, x). x \<in> set (deps_of w t)}"
proof -
  have "\<exists>s\<in>set (Tasks w). TaskId s = t \<and> deps_of w t = Dependencies s" if "x \<in> set (deps_of w t)" for t x
    using that by (auto simp: deps_of_def dest: spec_map_mem split: option.splits)
  then show ?thesis
    using deps_of_task [OF assms] by (fastforce simp: dep_rel_def)
qed

lemma deps_exist_deps_of:
  assumes "ids_unique w"
  shows "deps_exist w \<longleftrightarrow> (\<forall>t\<in>task_ids w. set (deps_of w t) \<subseteq> task_ids w)"
  using deps_of_task [OF assms] by (auto simp: deps_exist_def task_ids_def)

lemma filled_deps:
  "slice_at (dag_dependencies (filled empty_DAG (Tasks w))) t = deps_of w t"
  "dag_tasks (filled empty_DAG (Tasks w)) = spec_map (Tasks w)"
  "dom (dag_tasks (filled empty_DAG (Tasks w))) = task_ids w"
  "dom (dag_downstream (filled empty_DAG (Tasks w))) = task_ids w"
  "dom (dag_inDegree (filled empty_DAG (Tasks w))) = task_ids w"
  "dom (dag_dependencies (filled empty_DAG (Tasks w))) = task_ids w"
  "slice_at (dag_downstream (filled empty_DAG (Tasks w))) t = []"
  "in_degree (filled empty_DAG (Tasks w)) t = 0"
  using dom_spec_map [of "Tasks w"]
  by (auto simp: filled_def empty_DAG_def slice_at_def deps_of_def in_degree_def task_ids_def
           split: option.splits)

lemma built_deps:
  "slice_at (dag_dependencies (built w ord)) t = deps_of w t"
  "dag_tasks (built w ord) = spec_map (Tasks w)"
  "dom (dag_tasks (built w ord)) = task_ids w"
  "ids_unique w \<Longrightarrow> dag_rel (built w ord) = dep_rel w"
  by (simp_all add: built_def link_tasks filled_deps dag_rel_def dep_rel_deps_of)

lemma finite_task_ids: "finite (task_ids w)"
  by (simp add: task_ids_def)

lemma built_closed:
  assumes "ids_unique w" "deps_exist w"
  shows "closed_dag (built w ord)"
  using assms finite_task_ids [of w]
  by (auto simp: closed_dag_def built_deps dep_rel_def deps_exist_def)

lemma ValidateAndSort_unfold:
  assumes "id_order w ord1"
  shows "ValidateAndSort ord1 ord2 ord3 w =
    (if \<not> ids_unique w then Inl ErrDuplicateTaskID
     else case for_each check_task_deps ord1 (filled empty_DAG (Tasks w)) of
        Inl e \<Rightarrow> Inl e
      | Inr _ \<Rightarrow> (case hasCycle (built w ord2) ord3 of Inl e \<Rightarrow> Inl e | Inr _ \<Rightarrow> Inr (built w ord2)))"
  using check_all_deps [of ord1 "filled empty_DAG (Tasks w)"]
  by (auto simp: ValidateAndSort_def add_tasks ids_unique_def empty_DAG_def built_def Let_def
           split: sum.splits)

lemma check_built:
  assumes "ids_unique w" "id_order w ord"
  shows "case for_each check_task_deps ord (filled empty_DAG (Tasks w)) of
     Inl e \<Rightarrow> \<exists>t x. e = ErrMissingDependency t x \<and> (t, x) \<in> dep_rel w \<and> x \<notin> task_ids w
   | Inr _ \<Rightarrow> deps_exist w"
proof -
  have "dag_tasks (filled empty_DAG (Tasks w)) x = None \<longleftrightarrow> x \<notin> task_ids w" for x
    using filled_deps(3) [of w] by (auto simp: domIff [symmetric])
  then show ?thesis
    using check_all_deps [of ord "filled empty_DAG (Tasks w)"] assms
    by (auto simp: filled_deps(1) id_order_def dep_rel_deps_of deps_exist_deps_of split: sum.splits)
qed

lemma hasCycle_built:
  assumes "ids_unique w" "deps_exist w" "id_order w ord"
  shows "case hasCycle (built w ord2) ord of
     Inl e \<Rightarrow> \<exists>y. e = ErrCyclicDAG y \<and> (y, y) \<in> (dep_rel w)\<^sup>+ | Inr _ \<Rightarrow> acyclic (dep_rel w)"
  using hasCycle_sound [OF built_closed [OF assms(1,2), of ord2], of ord] assms(3) deps_of_outside [of _ w]
  unfolding built_deps(4) [OF assms(1)] by (simp add: built_deps id_order_def)

lemma ValidateAndSort_cases:
  assumes "id_order w ord1" "id_order w ord3"
  obtains (duplicate) "\<not> ids_unique w" "ValidateAndSort ord1 ord2 ord3 w = Inl ErrDuplicateTaskID"
  | (missing) t x where "ids_unique w" "(t, x) \<in> dep_rel w" "x \<notin> task_ids w" "\<not> deps_exist w"
      "ValidateAndSort ord1 ord2 ord3 w = Inl (ErrMissingDependency t x)"
  | (cyclic) y where "ids_unique w" "deps_exist w" "(y, y) \<in> (dep_rel w)\<^sup>+"
      "ValidateAndSort ord1 ord2 ord3 w = Inl (ErrCyclicDAG y)"
  | (valid) "valid_workflow w" "ValidateAndSort ord1 ord2 ord3 w = Inr (built w ord2)"
proof (cases "ids_unique w")
  case False
  then show thesis using duplicate ValidateAndSort_unfold [OF assms(1)] by simp
next
  case unique: True
  show thesis
  proof (cases "for_each check_task_deps ord1 (filled empty_DAG (Tasks w))")
    case (Inl e)
    with check_built [OF unique assms(1)] obtain t x
      where e: "e = ErrMissingDependency t x" "(t, x) \<in> dep_rel w" "x \<notin> task_ids w" by auto
    then have "\<not> deps_exist w" by (auto simp: deps_exist_def dep_rel_def)
    with e Inl unique show thesis
      using missing [of t x] ValidateAndSort_unfold [OF assms(1)] by simp
  next
    case (Inr d)
    with check_built [OF unique assms(1)] have deps: "deps_exist w" by simp
    show thesis
    proof (cases "hasCycle (built w ord2) ord3")
      case (Inl e)
      with hasCycle_built [OF unique deps assms(2), of ord2] Inr unique deps show thesis
        using cyclic ValidateAndSort_unfold [OF assms(1)] by auto
    next
      case Inr2: (Inr u)
      with hasCycle_built [OF unique deps assms(2), of ord2] Inr unique deps show thesis
        using valid ValidateAndSort_unfold [OF assms(1)] by (auto simp: valid_workflow_def)
    qed
  qed
qed

lemma count_concat_replicate:
  "distinct ord \<Longrightarrow> count_list (concat (map (\<lambda>t. replicate (f t) t) ord)) v = (if v \<in> set ord then f v else 0)"
  by (induction ord) (auto simp: count_list_replicate)

lemma built_shape:
  assumes "valid_workflow w" "id_order w ord"
  shows "dag_tasks (built w ord) = spec_map (Tasks w)"
    and "dom (dag_inDegree (built w ord)) = task_ids w"
    and "t \<in> task_ids w \<Longrightarrow> dag_inDegree (built w ord) t = Some (word_of_nat (length (deps_of w t)))"
    and "dom (dag_downstream (built w ord)) = task_ids w"
    and "count_list (GetDownstream (built w ord) u) v = count_list (deps_of w v) u"
    and "GetDependencies (built w ord) t = deps_of w t"
proof -
  have ord: "distinct ord" "set ord = task_ids w" using assms(2) by (auto simp: id_order_def)
  show "dag_tasks (built w ord) = spec_map (Tasks w)" by (rule built_deps)
  show dom: "dom (dag_inDegree (built w ord)) = task_ids w"
    using ord by (simp add: built_def link_tasks filled_deps)
  show "dag_inDegree (built w ord) t = Some (word_of_nat (length (deps_of w t)))" if "t \<in> task_ids w" for t
  proof -
    have "in_degree (built w ord) t = word_of_nat (length (deps_of w t))"
      using that ord by (simp add: built_def link_tasks filled_deps)
    then show ?thesis using that dom by (auto simp: in_degree_def split: option.splits)
  qed
  show "dom (dag_downstream (built w ord)) = task_ids w"
    using assms ord deps_exist_deps_of [of w]
    by (auto simp: built_def link_tasks filled_deps valid_workflow_def)
  show "count_list (GetDownstream (built w ord) u) v = count_list (deps_of w v) u"
    using ord deps_of_outside [of v w]
    by (simp add: GetDownstream_def built_def link_tasks filled_deps count_concat_replicate)
  show "GetDependencies (built w ord) t = deps_of w t"
    by (simp add: GetDependencies_def built_deps)
qed

section \<open>Properties\<close>

text \<open>A workflow of four tasks in a diamond, and the same with an edge that closes a cycle.\<close>

definition diamond_task :: "string \<Rightarrow> string list \<Rightarrow> TaskSpec" where
  "diamond_task t deps = \<lparr>TaskId = t, Dependencies = deps, Command = ''true'', Env = [],
     TimeoutSeconds = 0, MaxRetries = 0\<rparr>"

definition diamond :: "string list \<Rightarrow> WorkflowSpec" where
  "diamond deps = \<lparr>WorkflowId = ''d'', Tasks = [diamond_task ''a'' deps, diamond_task ''b'' [''a''],
     diamond_task ''c'' [''a''], diamond_task ''d'' [''b'', ''c'']], Failure_Policy = FAIL_FAST\<rparr>"

lemma diamond_order: "id_order (diamond deps) [''a'', ''b'', ''c'', ''d'']" "id_order (diamond deps) [''d'', ''b'', ''c'', ''a'']"
  by (auto simp: id_order_def task_ids_def diamond_def diamond_task_def)

lemma diamond_verdicts:
  "\<exists>d. ValidateAndSort [''a'', ''b'', ''c'', ''d''] [''a'', ''b'', ''c'', ''d''] [''a'', ''b'', ''c'', ''d''] (diamond []) = Inr d"
  "\<exists>d. ValidateAndSort [''a'', ''b'', ''c'', ''d''] [''d'', ''b'', ''c'', ''a''] [''a'', ''b'', ''c'', ''d''] (diamond []) = Inr d"
  "\<exists>e. ValidateAndSort [''a'', ''b'', ''c'', ''d''] [''a'', ''b'', ''c'', ''d''] [''a'', ''b'', ''c'', ''d''] (diamond [''d'']) = Inl e"
proof -
  let ?o = "[''a'', ''b'', ''c'', ''d'']" and ?o' = "[''d'', ''b'', ''c'', ''a'']"
  have "\<not> isl (ValidateAndSort ?o ?o ?o (diamond []))" "\<not> isl (ValidateAndSort ?o ?o' ?o (diamond []))"
    "isl (ValidateAndSort ?o ?o ?o (diamond [''d'']))"
    by code_simp+
  then show "\<exists>d. ValidateAndSort ?o ?o ?o (diamond []) = Inr d" "\<exists>d. ValidateAndSort ?o ?o' ?o (diamond []) = Inr d"
    "\<exists>e. ValidateAndSort ?o ?o ?o (diamond [''d'']) = Inl e"
    by (auto simp: isl_def intro: sum.exhaust)
qed

text \<open>
  C17. The resolver accepts exactly the workflows whose task ids are distinct, whose
  dependencies exist and whose dependency graph has no cycle, in whatever order Go visits
  its maps; the error of a rejection names a duplicate, a missing dependency or a task on a
  cycle. In particular its recursion always ends.
\<close>

theorem resolver_accepts_exactly_valid_workflows:
  assumes "id_order w ord1" and "id_order w ord3"
  shows "((\<exists>d. ValidateAndSort ord1 ord2 ord3 w = Inr d) \<longleftrightarrow> valid_workflow w) \<and>
    (\<forall>e. ValidateAndSort ord1 ord2 ord3 w = Inl e \<longrightarrow> dag_error w e)"
  using assms
  by (cases rule: ValidateAndSort_cases [of w ord1 ord3 ord2])
     (auto simp: dag_error_def valid_workflow_def acyclic_def)

theorem resolver_accepts_exactly_valid_workflows_witness:
  "valid_workflow (diamond []) \<and> \<not> valid_workflow (diamond [''d''])"
proof -
  let ?o = "[''a'', ''b'', ''c'', ''d'']"
  obtain d e where "ValidateAndSort ?o ?o ?o (diamond []) = Inr d" "ValidateAndSort ?o ?o ?o (diamond [''d'']) = Inl e"
    using diamond_verdicts(1,3) by blast
  with resolver_accepts_exactly_valid_workflows [OF diamond_order(1,1), of ?o "[]"]
    resolver_accepts_exactly_valid_workflows [OF diamond_order(1,1), of ?o "[''d'']"]
  show ?thesis by simp
qed

text \<open>
  C36. The graph of an accepted workflow is the one its specification describes: the
  in-degree of a task is the number of its dependencies, a task is listed downstream of
  another as often as it names it as a dependency, and the ready tasks are the ones
  without dependencies.
\<close>

theorem resolver_graph_is_exact:
  assumes "id_order w ord1" and "id_order w ord2" and "id_order w ord3" and "id_order w ord4"
    and "\<forall>t\<in>set (Tasks w). length (Dependencies t) < 2 ^ 31"
    and "ValidateAndSort ord1 ord2 ord3 w = Inr d"
  shows "GetAllTaskSpecs d = spec_map (Tasks w) \<and>
    (\<forall>t\<in>set (Tasks w). \<exists>n. GetInDegree d (TaskId t) = Some n \<and> unat n = length (Dependencies t) \<and>
       GetDependencies d (TaskId t) = Dependencies t \<and>
       (\<forall>u. count_list (GetDownstream d u) (TaskId t) = count_list (Dependencies t) u)) \<and>
    GetReadyTasks d ord4 = filter (\<lambda>t. deps_of w t = []) ord4"
proof -
  from assms(1,3) have wd: "valid_workflow w" "d = built w ord2"
    by (cases rule: ValidateAndSort_cases [of w ord1 ord3 ord2]; use assms(6) in simp)+
  note shape = built_shape [OF wd(1) assms(2)]
  have u: "ids_unique w" using wd(1) by (simp add: valid_workflow_def)
  have small: "length (deps_of w t) < 2 ^ 31" for t
    using assms(5) by (auto simp: deps_of_def dest: spec_map_mem split: option.split)
  have deg: "unat (word_of_nat (length (deps_of w t)) :: i32) = length (deps_of w t)" for t
    using small [of t] by (simp add: unat_of_nat)
  have "dag_inDegree d t = Some 0 \<longleftrightarrow> deps_of w t = []" if "t \<in> set ord4" for t
    using that assms(4) shape(3) [of t] deg [of t]
    by (auto simp: wd(2) id_order_def)
  then have "GetReadyTasks d ord4 = filter (\<lambda>t. deps_of w t = []) ord4"
    unfolding GetReadyTasks_def by (rule filter_cong [OF refl])
  moreover have "TaskId t \<in> task_ids w" if "t \<in> set (Tasks w)" for t using that by (simp add: task_ids_def)
  moreover have "unat (word_of_nat (length (Dependencies t)) :: i32) = length (Dependencies t)" if "t \<in> set (Tasks w)" for t
    using deg [of "TaskId t"] deps_of_task [OF u that] by simp
  ultimately show ?thesis
    using shape deps_of_task [OF u] unfolding wd(2) GetAllTaskSpecs_def GetInDegree_def by simp
qed

theorem resolver_graph_is_exact_witness:
  "\<exists>d. ValidateAndSort [''a'', ''b'', ''c'', ''d''] [''d'', ''b'', ''c'', ''a''] [''a'', ''b'', ''c'', ''d''] (diamond []) = Inr d \<and>
     GetReadyTasks d [''d'', ''b'', ''c'', ''a''] = [''a''] \<and> count_list (GetDownstream d ''a'') ''c'' = 1"
proof -
  let ?o = "[''a'', ''b'', ''c'', ''d'']" and ?o' = "[''d'', ''b'', ''c'', ''a'']"
  obtain d where d: "ValidateAndSort ?o ?o' ?o (diamond []) = Inr d" using diamond_verdicts(2) by blast
  have deps: "\<forall>t\<in>set (Tasks (diamond [])). length (Dependencies t) < 2 ^ 31" by (simp add: diamond_def diamond_task_def)
  from resolver_graph_is_exact [OF diamond_order(1,2,1,2) deps d]
  have "GetReadyTasks d ?o' = [''a'']" "count_list (GetDownstream d ''a'') ''c'' = 1"
    by (auto simp: diamond_def diamond_task_def deps_of_def spec_map_def)
  with d show ?thesis by blast
qed

text \<open>
  The resolver's answer does not depend on the order in which Go ranges over its maps:
  two runs on the same workflow accept or reject alike, and their graphs agree on tasks,
  dependencies and in-degrees and list the same tasks downstream, as often.
\<close>

theorem resolver_is_order_independent:
  assumes "id_order w ord1" and "id_order w ord2" and "id_order w ord3"
    and "id_order w ord1'" and "id_order w ord2'" and "id_order w ord3'"
  shows "(case ValidateAndSort ord1 ord2 ord3 w of
       Inl _ \<Rightarrow> \<exists>e. ValidateAndSort ord1' ord2' ord3' w = Inl e
     | Inr d \<Rightarrow> \<exists>d'. ValidateAndSort ord1' ord2' ord3' w = Inr d' \<and>
         GetAllTaskSpecs d' = GetAllTaskSpecs d \<and> GetInDegree d' = GetInDegree d \<and>
         (\<forall>t. GetDependencies d' t = GetDependencies d t) \<and>
         (\<forall>u v. count_list (GetDownstream d' u) v = count_list (GetDownstream d u) v))"
proof (cases "valid_workflow w")
  case False
  have "\<exists>e. ValidateAndSort o1 o2 o3 w = Inl e" if "id_order w o1" "id_order w o3" for o1 o2 o3
    using that by (cases rule: ValidateAndSort_cases [of w o1 o3 o2]) (use False in auto)
  from this [OF assms(1,3), of ord2] this [OF assms(4,6), of ord2'] show ?thesis by auto
next
  case True
  have ok: "ValidateAndSort o1 o2 o3 w = Inr (built w o2)" if "id_order w o1" "id_order w o3" for o1 o2 o3
    using that by (cases rule: ValidateAndSort_cases [of w o1 o3 o2]) (use True in \<open>auto simp: valid_workflow_def acyclic_def\<close>)
  have "dag_inDegree (built w ord2') t = dag_inDegree (built w ord2) t" for t
  proof (cases "t \<in> task_ids w")
    case False
    then show ?thesis
      using built_shape(2) [OF True assms(2)] built_shape(2) [OF True assms(5)] by (metis domIff)
  qed (simp add: built_shape(3) [OF True] assms)
  then show ?thesis
    using ok [OF assms(1,3)] ok [OF assms(4,6)] built_shape(1,5,6) [OF True assms(2)] built_shape(1,5,6) [OF True assms(5)]
    by (simp add: GetAllTaskSpecs_def GetInDegree_def fun_eq_iff)
qed

theorem resolver_is_order_independent_witness:
  "\<exists>d'. ValidateAndSort [''d'', ''b'', ''c'', ''a''] [''d'', ''b'', ''c'', ''a''] [''d'', ''b'', ''c'', ''a''] (diamond []) = Inr d'"
  using diamond_verdicts(1)
    resolver_is_order_independent [OF diamond_order(1,1,1,2,2,2), of "[]"]
  by auto

end
