(* ===== verification/Heartbeat.thy ===== *)
theory Heartbeat
  imports Sched_Prelude
begin

text \<open>
  The Prometheus collectors of \<^verbatim>\<open>internal/metrics/metrics.go\<close> that the coordinator writes,
  and the heartbeat monitor of \<^verbatim>\<open>internal/coordinator/heartbeat.go\<close>. Gauges and counters
  hold numbers of tasks and workers and are natural numbers here. A \<^verbatim>\<open>time.Duration\<close> is an
  \<^verbatim>\<open>int64\<close> number of nanoseconds and is kept at its width. The lemmas show when the ages
  the monitor computes are exact, that \<^verbatim>\<open>GetDeadWorkers\<close> then returns exactly the workers
  whose age exceeds the threshold, and that \<^verbatim>\<open>Snapshot\<close> calls a worker healthy exactly when
  \<^verbatim>\<open>GetDeadWorkers\<close> does not return it.
\<close>

section \<open>Metrics\<close>

record Metrics =
  QueueDepth :: nat
  ActiveWorkers :: nat
  TasksCompletedTotal :: nat
  TasksFailedTotal :: "string \<times> string \<Rightarrow> nat"
  TasksRequeuedTotal :: "string \<Rightarrow> nat"
  WorkerDisconnectsTotal :: nat

definition initial_Metrics :: Metrics where
  "initial_Metrics =
     \<lparr>QueueDepth = 0, ActiveWorkers = 0, TasksCompletedTotal = 0, TasksFailedTotal = (\<lambda>_. 0),
      TasksRequeuedTotal = (\<lambda>_. 0), WorkerDisconnectsTotal = 0\<rparr>"

section \<open>The heartbeat monitor\<close>

record HeartbeatMonitor =
  lastHeartbeat :: "string \<rightharpoonup> i64"
  hb_runningTasks :: "string \<rightharpoonup> string list"
  scanInterval :: i64
  deadThreshold :: i64

definition NewHeartbeatMonitor :: "i64 \<Rightarrow> i64 \<Rightarrow> HeartbeatMonitor" where
  "NewHeartbeatMonitor scan dead =
     \<lparr>lastHeartbeat = Map.empty, hb_runningTasks = Map.empty,
      scanInterval = scan, deadThreshold = dead\<rparr>"

definition GetWorkerCount :: "HeartbeatMonitor \<Rightarrow> nat" where
  "GetWorkerCount h = go_len (lastHeartbeat h)"

definition UpdateHeartbeat ::
    "string \<Rightarrow> i64 \<Rightarrow> string list \<Rightarrow> HeartbeatMonitor \<times> Metrics \<Rightarrow> HeartbeatMonitor \<times> Metrics" where
  "UpdateHeartbeat workerID timestampMs runningTasks = (\<lambda>(h, m).
     (let h = h\<lparr>lastHeartbeat := (lastHeartbeat h)(workerID \<mapsto> timestampMs),
                hb_runningTasks := (hb_runningTasks h)(workerID \<mapsto> runningTasks)\<rparr>
      in (h, m\<lparr>ActiveWorkers := go_len (lastHeartbeat h)\<rparr>)))"

definition GetRunningTasks :: "HeartbeatMonitor \<Rightarrow> string \<Rightarrow> string list" where
  "GetRunningTasks h workerID =
     (case hb_runningTasks h workerID of None \<Rightarrow> [] | Some tasks \<Rightarrow> tasks)"

text \<open>Removing the two entries of a worker, without and with the gauge.\<close>

definition forget_worker :: "string \<Rightarrow> HeartbeatMonitor \<Rightarrow> HeartbeatMonitor" where
  "forget_worker workerID h =
     h\<lparr>lastHeartbeat := (lastHeartbeat h)(workerID := None),
       hb_runningTasks := (hb_runningTasks h)(workerID := None)\<rparr>"

definition HeartbeatMonitor_RemoveWorker ::
    "string \<Rightarrow> HeartbeatMonitor \<times> Metrics \<Rightarrow> HeartbeatMonitor \<times> Metrics" where
  "HeartbeatMonitor_RemoveWorker workerID = (\<lambda>(h, m).
     (let h = forget_worker workerID h
      in (h, m\<lparr>ActiveWorkers := go_len (lastHeartbeat h)\<rparr>)))"

text \<open>\<^verbatim>\<open>time.Duration(ms) * time.Millisecond\<close>, an \<^verbatim>\<open>int64\<close> product that may wrap around.\<close>

definition millis :: "i64 \<Rightarrow> i64" where
  "millis ms = ms * 1000000"

definition heartbeat_dead :: "HeartbeatMonitor \<Rightarrow> i64 \<Rightarrow> i64 \<Rightarrow> bool" where
  "heartbeat_dead h nowMs lastHeartbeatMs \<longleftrightarrow>
     sint (deadThreshold h) < sint (millis (nowMs - lastHeartbeatMs))"

text \<open>\<open>ord\<close> is the order of the range over \<^verbatim>\<open>h.lastHeartbeat\<close>.\<close>

definition GetDeadWorkers :: "HeartbeatMonitor \<Rightarrow> string list \<Rightarrow> i64 \<Rightarrow> string list" where
  "GetDeadWorkers h ord nowMs =
     filter (\<lambda>workerID. case lastHeartbeat h workerID of
                          None \<Rightarrow> False
                        | Some lastHeartbeatMs \<Rightarrow> heartbeat_dead h nowMs lastHeartbeatMs) ord"

record WorkerHealthSnapshot =
  whs_WorkerID :: string
  LastHeartbeatMs :: i64
  AgeMs :: i64
  whs_RunningTaskIDs :: "string list"
  Healthy :: bool

definition snapshot_of :: "HeartbeatMonitor \<Rightarrow> i64 \<Rightarrow> string \<Rightarrow> i64 \<Rightarrow> WorkerHealthSnapshot" where
  "snapshot_of h nowMs workerID lastHeartbeatMs =
     (let ageMs = nowMs - lastHeartbeatMs in
      \<lparr>whs_WorkerID = workerID, LastHeartbeatMs = lastHeartbeatMs, AgeMs = ageMs,
       whs_RunningTaskIDs = GetRunningTasks h workerID,
       Healthy = (sint (millis ageMs) \<le> sint (deadThreshold h))\<rparr>)"

definition Snapshot :: "HeartbeatMonitor \<Rightarrow> string list \<Rightarrow> i64 \<Rightarrow> WorkerHealthSnapshot list" where
  "Snapshot h ord nowMs =
     List.map_filter (\<lambda>workerID. map_option (snapshot_of h nowMs workerID) (lastHeartbeat h workerID)) ord"

section \<open>Ages\<close>

text \<open>
  The age of a heartbeat in milliseconds, and the range in which \<^verbatim>\<open>int64\<close> nanoseconds can
  express it, about 292 years.
\<close>

definition age_ms :: "i64 \<Rightarrow> i64 \<Rightarrow> int" where
  "age_ms nowMs lastHeartbeatMs = sint nowMs - sint lastHeartbeatMs"

definition age_in_range :: "i64 \<Rightarrow> i64 \<Rightarrow> bool" where
  "age_in_range nowMs lastHeartbeatMs \<longleftrightarrow> \<bar>age_ms nowMs lastHeartbeatMs\<bar> \<le> 9223372036854"

lemma sint_word_of_int_small:
  assumes "- (2 ^ 63) \<le> n" and "n < 2 ^ 63"
  shows "sint (word_of_int n :: i64) = n"
  using assms by (simp add: signed_of_int signed_take_bit_int_eq_self_iff)

lemma millis_age:
  assumes "age_in_range nowMs lastMs"
  shows "sint (millis (nowMs - lastMs)) = age_ms nowMs lastMs * 1000000"
proof -
  have "millis (nowMs - lastMs) = word_of_int (age_ms nowMs lastMs * 1000000)"
    by (simp add: millis_def age_ms_def)
  also have "sint \<dots> = age_ms nowMs lastMs * 1000000"
    using assms by (intro sint_word_of_int_small) (auto simp: age_in_range_def)
  finally show ?thesis .
qed

lemma heartbeat_dead_age:
  assumes "age_in_range nowMs lastMs"
  shows "heartbeat_dead h nowMs lastMs \<longleftrightarrow> sint (deadThreshold h) < age_ms nowMs lastMs * 1000000"
  by (simp add: heartbeat_dead_def millis_age [OF assms])

lemma GetDeadWorkers_iff:
  assumes "range_order (lastHeartbeat h) ord"
  shows "w \<in> set (GetDeadWorkers h ord nowMs) \<longleftrightarrow>
         (\<exists>t. lastHeartbeat h w = Some t \<and> heartbeat_dead h nowMs t)"
  using range_orderD [OF assms] by (auto simp: GetDeadWorkers_def split: option.splits)

lemma Snapshot_workers:
  assumes "range_order (lastHeartbeat h) ord"
  shows "map whs_WorkerID (Snapshot h ord nowMs) = ord"
proof -
  have "map whs_WorkerID (List.map_filter
          (\<lambda>w. map_option (snapshot_of h nowMs w) (lastHeartbeat h w)) xs) = xs"
    if "set xs \<subseteq> dom (lastHeartbeat h)" for xs
    using that by (induction xs) (auto simp: snapshot_of_def Let_def)
  then show ?thesis
    using range_orderD [OF assms] by (simp add: Snapshot_def)
qed

lemma Snapshot_mem:
  assumes "range_order (lastHeartbeat h) ord"
  shows "s \<in> set (Snapshot h ord nowMs) \<longleftrightarrow>
         (\<exists>w t. lastHeartbeat h w = Some t \<and> s = snapshot_of h nowMs w t)"
  using range_orderD [OF assms] by (auto simp: Snapshot_def set_map_filter_conv)

section \<open>Properties\<close>

text \<open>
  C39. The monitor declares dead exactly the workers that have sent a heartbeat and whose
  last heartbeat is older than the threshold, as numbers and not only as wrapped words, as
  long as the recorded timestamps are within 292 years of the scan; and the list has no
  duplicates.
\<close>

theorem GetDeadWorkers_exact:
  assumes "range_order (lastHeartbeat h) ord"
    and "\<forall>w t. lastHeartbeat h w = Some t \<longrightarrow> age_in_range nowMs t"
  shows "distinct (GetDeadWorkers h ord nowMs) \<and>
         set (GetDeadWorkers h ord nowMs) =
         {w. \<exists>t. lastHeartbeat h w = Some t \<and>
                 (sint nowMs - sint t) * 1000000 > sint (deadThreshold h)}"
proof
  show "distinct (GetDeadWorkers h ord nowMs)"
    using range_orderD [OF assms(1)] by (simp add: GetDeadWorkers_def)
  show "set (GetDeadWorkers h ord nowMs) =
         {w. \<exists>t. lastHeartbeat h w = Some t \<and>
                 (sint nowMs - sint t) * 1000000 > sint (deadThreshold h)}"
    using assms(2) by (auto simp: GetDeadWorkers_iff [OF assms(1)] heartbeat_dead_age age_ms_def)
qed

definition demo_monitor :: HeartbeatMonitor where
  "demo_monitor =
     (NewHeartbeatMonitor 5000000000 15000000000)
       \<lparr>lastHeartbeat := [''w1'' \<mapsto> 1700000000000, ''w2'' \<mapsto> 1700000014000]\<rparr>"

theorem GetDeadWorkers_exact_witness:
  "set (GetDeadWorkers demo_monitor [''w1'', ''w2''] 1700000016000) = {''w1''}"
proof -
  have r: "range_order (lastHeartbeat demo_monitor) [''w1'', ''w2'']"
    by (auto simp: range_order_def demo_monitor_def NewHeartbeatMonitor_def)
  have a: "\<forall>w t. lastHeartbeat demo_monitor w = Some t \<longrightarrow> age_in_range 1700000016000 t"
    by (auto simp: demo_monitor_def NewHeartbeatMonitor_def age_in_range_def age_ms_def)
  show ?thesis
    using GetDeadWorkers_exact [OF r a]
    by (auto simp: demo_monitor_def NewHeartbeatMonitor_def split: if_splits)
qed

text \<open>
  The health view agrees with the monitor: a snapshot lists every known worker
  once, and shows a worker as healthy exactly when a scan at the same instant would not
  declare it dead.
\<close>

theorem Snapshot_agrees_with_GetDeadWorkers:
  assumes "range_order (lastHeartbeat h) ord"
  shows "map whs_WorkerID (Snapshot h ord nowMs) = ord \<and>
         (\<forall>s\<in>set (Snapshot h ord nowMs).
            Healthy s \<longleftrightarrow> whs_WorkerID s \<notin> set (GetDeadWorkers h ord nowMs))"
  using Snapshot_workers [OF assms] Snapshot_mem [OF assms] GetDeadWorkers_iff [OF assms]
  by (auto simp: snapshot_of_def Let_def heartbeat_dead_def)

theorem Snapshot_agrees_witness:
  "map Healthy (Snapshot demo_monitor [''w1'', ''w2''] 1700000016000) = [False, True] \<and>
   ''w1'' \<in> set (GetDeadWorkers demo_monitor [''w1'', ''w2''] 1700000016000) \<and>
   ''w2'' \<notin> set (GetDeadWorkers demo_monitor [''w1'', ''w2''] 1700000016000)"
proof -
  have snap: "Snapshot demo_monitor [''w1'', ''w2''] 1700000016000 =
      [snapshot_of demo_monitor 1700000016000 ''w1'' 1700000000000,
       snapshot_of demo_monitor 1700000016000 ''w2'' 1700000014000]"
    by (simp add: demo_monitor_def NewHeartbeatMonitor_def Snapshot_def)
  have "Healthy (snapshot_of demo_monitor 1700000016000 ''w1'' 1700000000000) = False"
    and "Healthy (snapshot_of demo_monitor 1700000016000 ''w2'' 1700000014000) = True"
    and "whs_WorkerID (snapshot_of demo_monitor 1700000016000 w t) = w" for w t
    by (simp_all add: demo_monitor_def NewHeartbeatMonitor_def snapshot_of_def millis_def Let_def)
  moreover have "range_order (lastHeartbeat demo_monitor) [''w1'', ''w2'']"
    by (auto simp: range_order_def demo_monitor_def NewHeartbeatMonitor_def)
  ultimately show ?thesis
    using Snapshot_agrees_with_GetDeadWorkers [of demo_monitor "[''w1'', ''w2'']" 1700000016000] snap
    by simp
qed

end
