(* ===== verification/Coordinator.thy ===== *)
theory Coordinator
  imports Meta_Store Dag Heartbeat
begin

text \<open>
  The coordinator: its state and the handlers of \<^verbatim>\<open>internal/coordinator/coordinator.go\<close>,
  \<^verbatim>\<open>recovery.go\<close> and \<^verbatim>\<open>watchdog.go\<close>. A handler is a function on the record \<open>Coordinator\<close>,
  which holds the database (\<open>state\<close>) and the process-wide metrics beside the fields of the
  Go struct. A handler is run to its end before the next one starts; the sections that
  the Go code runs under \<^verbatim>\<open>c.mu\<close> and the store transactions between them appear in the order
  of the code. Log output is left out.

  \<open>B\<close> is the library the store is written against; \<open>clk k\<close> are the clock readings of the
  \<open>k\<close>-th store call of a handler; \<open>uuid\<close> is a freshly drawn UUID (\<open>uuid i\<close> in the \<open>i\<close>-th
  round of a loop). A store error that the Go code logs and drops is dropped here too,
  unless it is a panic or a loop that does not end, which no \<^verbatim>\<open>err != nil\<close> branch catches.
\<close>

section \<open>State\<close>

record 'b Coordinator =
  state :: "'b DB"
  heartbeat :: HeartbeatMonitor
  metrics :: Metrics
  readyQueue :: "string list"
  runningTasks :: "string \<rightharpoonup> string"
  assignedTasks :: "string \<rightharpoonup> string"
  taskSpecCache :: "string \<rightharpoonup> TaskSpec"
  taskWorkflowMap :: "string \<rightharpoonup> string"
  workflowFailurePolicy :: "string \<rightharpoonup> FailurePolicy"
  deadWorkersHandled :: i64
  recoveryPrepareCount :: i64
  lastDeadWorkerAtMs :: i64
  lastRecoveryStartedAtMs :: i64

text \<open>
  \<^verbatim>\<open>NewCoordinator\<close> with its default heartbeat configuration of 5 and 15 seconds, and the
  option \<^verbatim>\<open>WithHeartbeatConfig\<close>.
\<close>

definition NewCoordinator ::
    "'b DB \<Rightarrow> ('b Coordinator \<Rightarrow> 'b Coordinator) list \<Rightarrow> 'b Coordinator" where
  "NewCoordinator db opts =
     fold (\<lambda>opt c. opt c) opts
       \<lparr>state = db, heartbeat = NewHeartbeatMonitor 5000000000 15000000000,
        metrics = initial_Metrics, readyQueue = [], runningTasks = Map.empty,
        assignedTasks = Map.empty, taskSpecCache = Map.empty, taskWorkflowMap = Map.empty,
        workflowFailurePolicy = Map.empty, deadWorkersHandled = 0, recoveryPrepareCount = 0,
        lastDeadWorkerAtMs = 0, lastRecoveryStartedAtMs = 0\<rparr>"

definition WithHeartbeatConfig :: "i64 \<Rightarrow> i64 \<Rightarrow> 'b Coordinator \<Rightarrow> 'b Coordinator" where
  "WithHeartbeatConfig interval dead c = c\<lparr>heartbeat := NewHeartbeatMonitor interval dead\<rparr>"

record MetricsSnapshot =
  ReadyQueueSize :: nat
  RunningTaskCount :: nat
  AssignedTaskCount :: nat
  WorkerCount :: nat
  DeadWorkersHandled :: i64
  RecoveryPrepareCount :: i64
  LastDeadWorkerAtMs :: i64

definition SnapshotMetrics :: "'b Coordinator \<Rightarrow> MetricsSnapshot" where
  "SnapshotMetrics c =
     \<lparr>ReadyQueueSize = length (readyQueue c), RunningTaskCount = go_len (runningTasks c),
      AssignedTaskCount = go_len (assignedTasks c), WorkerCount = GetWorkerCount (heartbeat c),
      DeadWorkersHandled = deadWorkersHandled c, RecoveryPrepareCount = recoveryPrepareCount c,
      LastDeadWorkerAtMs = lastDeadWorkerAtMs c\<rparr>"

definition GetReadyQueueSize :: "'b Coordinator \<Rightarrow> nat" where
  "GetReadyQueueSize c = length (readyQueue c)"

text \<open>\<^verbatim>\<open>metrics.QueueDepth.Set(float64(len(c.readyQueue)))\<close>\<close>

definition set_QueueDepth :: "'b Coordinator \<Rightarrow> 'b Coordinator" where
  "set_QueueDepth c = c\<lparr>metrics := (metrics c)\<lparr>QueueDepth := length (readyQueue c)\<rparr>\<rparr>"

text \<open>\<^verbatim>\<open>delete(c.runningTasks, taskID); delete(c.assignedTasks, taskID)\<close>\<close>

definition unassign :: "string \<Rightarrow> 'b Coordinator \<Rightarrow> 'b Coordinator" where
  "unassign taskID c =
     c\<lparr>runningTasks := (runningTasks c)(taskID := None),
       assignedTasks := (assignedTasks c)(taskID := None)\<rparr>"

definition enqueue :: "string list \<Rightarrow> 'b Coordinator \<Rightarrow> 'b Coordinator" where
  "enqueue ids c = c\<lparr>readyQueue := readyQueue c @ ids\<rparr>"

text \<open>The loop that filters a set of task ids out of the ready queue in place.\<close>

definition dequeue_all :: "string list \<Rightarrow> 'b Coordinator \<Rightarrow> 'b Coordinator" where
  "dequeue_all ids c = c\<lparr>readyQueue := filter (\<lambda>id. id \<notin> set ids) (readyQueue c)\<rparr>"

text \<open>A Go read of a map with string values: a missing key gives the empty string.\<close>

definition taskWorkflowID :: "'b Coordinator \<Rightarrow> string \<Rightarrow> string" where
  "taskWorkflowID c taskID = (case taskWorkflowMap c taskID of None \<Rightarrow> [] | Some w \<Rightarrow> w)"

text \<open>A missing key gives the zero value of the enum, \<^verbatim>\<open>FAIL_FAST\<close>.\<close>

definition policy_of :: "'b Coordinator \<Rightarrow> string \<Rightarrow> FailurePolicy" where
  "policy_of c workflowID =
     (case workflowFailurePolicy c workflowID of None \<Rightarrow> FAIL_FAST | Some p \<Rightarrow> p)"

section \<open>Restart\<close>

definition cache_spec :: "WorkflowSpec \<Rightarrow> TaskSpec \<Rightarrow> 'b Coordinator \<Rightarrow> 'b Coordinator" where
  "cache_spec wfSpec task c =
     c\<lparr>taskSpecCache := (taskSpecCache c)(TaskId task \<mapsto> task),
       taskWorkflowMap := (taskWorkflowMap c)(TaskId task \<mapsto> WorkflowId wfSpec)\<rparr>"

fun load_workflows ::
    "'b bolt \<Rightarrow> WorkflowStateRecord list \<Rightarrow> 'b Coordinator \<Rightarrow> 'b Coordinator \<times> (err + unit)" where
  "load_workflows B [] c = (c, Inr ())"
| "load_workflows B (wfState # workflows) c =
     (if wsr_State wfState \<noteq> WORKFLOW_RUNNING then load_workflows B workflows c
      else
        (case GetWorkflow B (state c) (wsr_WorkflowID wfState) of
           Inl e \<Rightarrow> if fatal e then (c, Inl e) else load_workflows B workflows c
         | Inr wfSpec \<Rightarrow>
             load_workflows B workflows
               (fold (cache_spec wfSpec) (Tasks wfSpec)
                  (c\<lparr>workflowFailurePolicy :=
                       (workflowFailurePolicy c)(WorkflowId wfSpec \<mapsto> Failure_Policy wfSpec)\<rparr>))))"

definition LoadStateFromDB :: "'b bolt \<Rightarrow> 'b Coordinator \<Rightarrow> 'b Coordinator \<times> (err + unit)" where
  "LoadStateFromDB B c =
     (case GetAllWorkflowStates B (state c) of
        (_, Some e) \<Rightarrow> (c, Inl e)
      | (workflows, None) \<Rightarrow>
          (case load_workflows B workflows c of
             (c, Inl e) \<Rightarrow> (c, Inl e)
           | (c, Inr _) \<Rightarrow>
               (case GetTasksInState B (state c) TASK_QUEUED of
                  (_, Some e) \<Rightarrow> (c, Inl e)
                | (queuedTasks, None) \<Rightarrow> (enqueue queuedTasks c, Inr ()))))"

text \<open>
  The loop shared by \<^verbatim>\<open>PrepareRecovery\<close> and \<^verbatim>\<open>HandleDeadWorker\<close>: requeue each task in the
  store, then append it to the ready queue; a store error skips the task.
\<close>

fun requeue_all ::
    "'b bolt \<Rightarrow> clock \<Rightarrow> (nat \<Rightarrow> string) \<Rightarrow> nat \<Rightarrow> string list \<Rightarrow> 'b Coordinator
     \<Rightarrow> 'b Coordinator \<times> (err + unit)" where
  "requeue_all B clk uuid i [] c = (c, Inr ())"
| "requeue_all B clk uuid i (taskID # ids) c =
     (case RequeueTask B (clk i) (state c) taskID (uuid i) of
        (db, Inl e) \<Rightarrow>
          if fatal e then (c\<lparr>state := db\<rparr>, Inl e)
          else requeue_all B clk uuid (Suc i) ids (c\<lparr>state := db\<rparr>)
      | (db, Inr _) \<Rightarrow>
          requeue_all B clk uuid (Suc i) ids (enqueue [taskID] (c\<lparr>state := db\<rparr>)))"

definition PrepareRecovery ::
    "'b bolt \<Rightarrow> i64 \<Rightarrow> clock \<Rightarrow> (nat \<Rightarrow> string) \<Rightarrow> 'b Coordinator \<Rightarrow> 'b Coordinator \<times> (err + unit)" where
  "PrepareRecovery B now clk uuid c =
     (let c = c\<lparr>recoveryPrepareCount := recoveryPrepareCount c + 1,
                lastRecoveryStartedAtMs := now\<rparr>
      in case GetTasksInState B (state c) TASK_RUNNING of
           (_, Some e) \<Rightarrow> (c, Inl e)
         | (running, None) \<Rightarrow> requeue_all B clk uuid 0 running c)"

section \<open>Submission\<close>

fun enqueue_ready ::
    "'b bolt \<Rightarrow> clock \<Rightarrow> nat \<Rightarrow> string list \<Rightarrow> 'b Coordinator \<Rightarrow> 'b Coordinator \<times> (err + unit)" where
  "enqueue_ready B clk i [] c = (c, Inr ())"
| "enqueue_ready B clk i (taskID # ids) c =
     (case UpdateTaskState B (clk i) (state c) taskID TASK_QUEUED of
        (db, Inl e) \<Rightarrow> (c\<lparr>state := db\<rparr>, Inl e)
      | (db, Inr _) \<Rightarrow> enqueue_ready B clk (Suc i) ids (enqueue [taskID] (c\<lparr>state := db\<rparr>)))"

text \<open>The loop over \<^verbatim>\<open>dag.GetAllTaskSpecs()\<close> writes each key once, so its order is immaterial.\<close>

definition cache_workflow :: "WorkflowSpec \<Rightarrow> DAG \<Rightarrow> 'b Coordinator \<Rightarrow> 'b Coordinator" where
  "cache_workflow workflow dag c =
     c\<lparr>taskSpecCache := taskSpecCache c ++ GetAllTaskSpecs dag,
       taskWorkflowMap :=
         taskWorkflowMap c ++ (\<lambda>t. map_option (\<lambda>_. WorkflowId workflow) (GetAllTaskSpecs dag t)),
       workflowFailurePolicy :=
         (workflowFailurePolicy c)(WorkflowId workflow \<mapsto> Failure_Policy workflow)\<rparr>"

text \<open>
  \<open>ords\<close> gives the orders of the ranges over Go maps: three in \<^verbatim>\<open>ValidateAndSort\<close> and one in
  \<^verbatim>\<open>GetReadyTasks\<close>.
\<close>

definition SubmitWorkflow ::
    "'b bolt \<Rightarrow> (nat \<Rightarrow> clock) \<Rightarrow> (nat \<Rightarrow> string list) \<Rightarrow> 'b Coordinator \<Rightarrow> WorkflowSpec
     \<Rightarrow> 'b Coordinator \<times> (err + unit)" where
  "SubmitWorkflow B clk ords c workflow =
     (case ValidateAndSort (ords 0) (ords 1) (ords 2) workflow of
        Inl e \<Rightarrow> (c, Inl (InvalidDAG e))
      | Inr dag \<Rightarrow>
          (case StoreWorkflow B (state c) workflow of
             (db, Inl e) \<Rightarrow> (c\<lparr>state := db\<rparr>, Inl e)
           | (db, Inr _) \<Rightarrow>
               (case InitWorkflowState B (clk 0 0) db (WorkflowId workflow) of
                  (db, Inl e) \<Rightarrow> (c\<lparr>state := db\<rparr>, Inl e)
                | (db, Inr _) \<Rightarrow>
                    (case InitializeTasksForWorkflow B (clk 1) db (WorkflowId workflow)
                            (Tasks workflow) (GetInDegree dag) (GetAllDownstream dag) of
                       (db, Inl e) \<Rightarrow> (c\<lparr>state := db\<rparr>, Inl e)
                     | (db, Inr _) \<Rightarrow>
                         enqueue_ready B (clk 2) 0 (GetReadyTasks dag (ords 3))
                           (cache_workflow workflow dag (c\<lparr>state := db\<rparr>))))))"

section \<open>Dispatch\<close>

text \<open>A nil assignment is \<^term>\<open>None\<close>.\<close>

definition GetReadyTask ::
    "'b bolt \<Rightarrow> i64 \<Rightarrow> string \<Rightarrow> 'b Coordinator \<Rightarrow> string
     \<Rightarrow> 'b Coordinator \<times> (err + TaskAssignment option)" where
  "GetReadyTask B now uuid c workerID =
     (case readyQueue c of
        [] \<Rightarrow> (c, Inr None)
      | taskID # rest \<Rightarrow>
          (let c = c\<lparr>readyQueue := rest\<rparr> in
           case taskSpecCache c taskID of
             None \<Rightarrow> (c, Inr None)
           | Some taskSpec \<Rightarrow>
               (case AssignTask B now (state c) taskID uuid of
                  (db, Inl e) \<Rightarrow> (c\<lparr>state := db\<rparr>, if fatal e then Inl e else Inr None)
                | (db, Inr _) \<Rightarrow>
                    (set_QueueDepth
                       (c\<lparr>state := db,
                          runningTasks := (runningTasks c)(taskID \<mapsto> workerID),
                          assignedTasks := (assignedTasks c)(taskID \<mapsto> uuid)\<rparr>),
                     Inr (Some \<lparr>ta_TaskId = taskID, ta_ExecutionId = uuid,
                                ta_Command = Command taskSpec, ta_Env = Env taskSpec,
                                ta_TimeoutSeconds = TimeoutSeconds taskSpec\<rparr>)))))"

section \<open>Completion\<close>

definition final_state :: "TaskStatus list \<Rightarrow> WorkflowState" where
  "final_state taskStatuses =
     (if \<exists>ts\<in>set taskStatuses. ts_State ts = TASK_FAILED then WORKFLOW_FAILED
      else WORKFLOW_COMPLETE)"

definition checkWorkflowCompletion ::
    "'b bolt \<Rightarrow> clock \<Rightarrow> 'b Coordinator \<Rightarrow> string \<Rightarrow> 'b Coordinator \<times> (err + unit)" where
  "checkWorkflowCompletion B clk c workflowID =
     (case IsWorkflowComplete B (state c) workflowID of
        (_, Some e) \<Rightarrow> (c, if fatal e then Inl e else Inr ())
      | (False, None) \<Rightarrow> (c, Inr ())
      | (True, None) \<Rightarrow>
          (case GetTaskStatusesForWorkflow B (state c) workflowID of
             (_, Some e) \<Rightarrow> (c, if fatal e then Inl e else Inr ())
           | (taskStatuses, None) \<Rightarrow>
               (case UpdateWorkflowState B clk (state c) workflowID (final_state taskStatuses) of
                  (db, Inl e) \<Rightarrow> (c\<lparr>state := db\<rparr>, if fatal e then Inl e else Inr ())
                | (db, Inr _) \<Rightarrow> (c\<lparr>state := db\<rparr>, Inr ()))))"

text \<open>The section of \<^verbatim>\<open>CompleteTask\<close> before the store transaction: who may report the result.\<close>

datatype admission = Proceed | Reply "err + unit"

definition CompleteTask_admit ::
    "'b bolt \<Rightarrow> 'b Coordinator \<Rightarrow> string \<Rightarrow> string \<Rightarrow> admission" where
  "CompleteTask_admit B c taskID executionID =
     (case assignedTasks c taskID of
        None \<Rightarrow>
          (case GetTask B (state c) taskID of
             Inl e \<Rightarrow> Reply (Inl e)
           | Inr task \<Rightarrow>
               if State task = TASK_COMPLETE then
                 if ExecutionID task \<noteq> executionID then Reply (Inl ErrStaleExecution)
                 else Reply (Inr ())
               else Reply (Inl ErrStaleExecution))
      | Some assignedExecID \<Rightarrow>
          if assignedExecID \<noteq> executionID then Reply (Inl ErrStaleExecution) else Proceed)"

text \<open>The section after it: the in-memory bookkeeping and the metrics.\<close>

definition CompleteTask_finish :: "string \<Rightarrow> string list \<Rightarrow> 'b Coordinator \<Rightarrow> 'b Coordinator" where
  "CompleteTask_finish taskID downstreamReady c =
     (let c = set_QueueDepth (enqueue downstreamReady (unassign taskID c))
      in c\<lparr>metrics := (metrics c)\<lparr>TasksCompletedTotal := Suc (TasksCompletedTotal (metrics c))\<rparr>\<rparr>)"

definition Coordinator_CompleteTask ::
    "'b bolt \<Rightarrow> (nat \<Rightarrow> clock) \<Rightarrow> 'b Coordinator \<Rightarrow> string \<Rightarrow> string \<Rightarrow> string
     \<Rightarrow> 'b Coordinator \<times> (err + unit)" where
  "Coordinator_CompleteTask B clk c taskID executionID output =
     (case CompleteTask_admit B c taskID executionID of
        Reply r \<Rightarrow> (c, r)
      | Proceed \<Rightarrow>
          (case CompleteTask B (clk 0) (state c) taskID executionID output of
             (db, Inl e) \<Rightarrow> (c\<lparr>state := db\<rparr>, Inl e)
           | (db, Inr downstreamReady) \<Rightarrow>
               (let c = CompleteTask_finish taskID downstreamReady (c\<lparr>state := db\<rparr>);
                    workflowID = taskWorkflowID c taskID
                in if workflowID \<noteq> [] then checkWorkflowCompletion B (clk 1) c workflowID
                   else (c, Inr ()))))"

section \<open>Failure\<close>

definition applyFailurePolicy ::
    "'b bolt \<Rightarrow> (nat \<Rightarrow> clock) \<Rightarrow> 'b Coordinator \<Rightarrow> string \<Rightarrow> string \<Rightarrow> FailurePolicy
     \<Rightarrow> 'b Coordinator \<times> (err + unit)" where
  "applyFailurePolicy B clk c workflowID failedTaskID policy =
     (case policy of
        FAIL_FAST \<Rightarrow>
          (case CancelWorkflowTasks B (clk 0) (state c) workflowID of
             (db, Inl e) \<Rightarrow> (c\<lparr>state := db\<rparr>, if fatal e then Inl e else Inr ())
           | (db, Inr cancelled) \<Rightarrow>
               (let c = dequeue_all cancelled (c\<lparr>state := db\<rparr>) in
                case UpdateWorkflowState B (clk 1) (state c) workflowID WORKFLOW_FAILED of
                  (db, Inl e) \<Rightarrow> (c\<lparr>state := db\<rparr>, if fatal e then Inl e else Inr ())
                | (db, Inr _) \<Rightarrow> (c\<lparr>state := db\<rparr>, Inr ())))
      | POLICY_UNRECOGNIZED n \<Rightarrow> (c, Inr ())
      | _ \<Rightarrow>
          (case SkipDownstreamTasks B (clk 0) (state c) failedTaskID of
             (db, Inl e) \<Rightarrow>
               if fatal e then (c\<lparr>state := db\<rparr>, Inl e)
               else checkWorkflowCompletion B (clk 1) (c\<lparr>state := db\<rparr>) workflowID
           | (db, Inr skipped) \<Rightarrow>
               checkWorkflowCompletion B (clk 1)
                 (if skipped \<noteq> [] then dequeue_all skipped (c\<lparr>state := db\<rparr>) else c\<lparr>state := db\<rparr>)
                 workflowID))"

text \<open>The number of attempts a task may take: its own limit if positive, else 3.\<close>

definition max_attempts :: "'b Coordinator \<Rightarrow> string \<Rightarrow> i32" where
  "max_attempts c taskID =
     (case taskSpecCache c taskID of
        Some spec \<Rightarrow> if sint (MaxRetries spec) > 0 then MaxRetries spec else 3
      | None \<Rightarrow> 3)"

definition retry_task :: "string \<Rightarrow> 'b Coordinator \<Rightarrow> 'b Coordinator" where
  "retry_task taskID c =
     (let c = set_QueueDepth (enqueue [taskID] (unassign taskID c))
      in c\<lparr>metrics := (metrics c)
            \<lparr>TasksRequeuedTotal :=
               (TasksRequeuedTotal (metrics c))
                 (''retry'' := Suc (TasksRequeuedTotal (metrics c) ''retry''))\<rparr>\<rparr>)"

definition count_failure :: "string \<Rightarrow> 'b Coordinator \<Rightarrow> 'b Coordinator" where
  "count_failure workflowID c =
     c\<lparr>metrics := (metrics c)
         \<lparr>TasksFailedTotal :=
            (TasksFailedTotal (metrics c))
              ((workflowID, ''retries_exhausted'') :=
                 Suc (TasksFailedTotal (metrics c) (workflowID, ''retries_exhausted'')))\<rparr>\<rparr>"

definition Coordinator_FailTask ::
    "'b bolt \<Rightarrow> (nat \<Rightarrow> clock) \<Rightarrow> string \<Rightarrow> 'b Coordinator \<Rightarrow> string \<Rightarrow> string \<Rightarrow> string
     \<Rightarrow> 'b Coordinator \<times> (err + unit)" where
  "Coordinator_FailTask B clk uuid c taskID executionID errMsg =
     (if assignedTasks c taskID \<noteq> Some executionID then (c, Inl ErrStaleExecution)
      else
        (case GetTask B (state c) taskID of
           Inl e \<Rightarrow> (c, Inl e)
         | Inr task \<Rightarrow>
             (let maxRetries = max_attempts c taskID; attemptCount = AttemptCount task + 1 in
              if sint attemptCount < sint maxRetries then
                (case RequeueTask B (clk 0 0) (state c) taskID uuid of
                   (db, Inl e) \<Rightarrow> (c\<lparr>state := db\<rparr>, Inl e)
                 | (db, Inr _) \<Rightarrow> (retry_task taskID (c\<lparr>state := db\<rparr>), Inr ()))
              else
                (case FailTask B (clk 0 0) (state c) taskID errMsg attemptCount of
                   (db, Inl e) \<Rightarrow> (c\<lparr>state := db\<rparr>, Inl e)
                 | (db, Inr _) \<Rightarrow>
                     (let workflowID = taskWorkflowID c taskID; policy = policy_of c workflowID;
                          c = count_failure workflowID (unassign taskID (c\<lparr>state := db\<rparr>))
                      in if workflowID \<noteq> []
                         then applyFailurePolicy B (\<lambda>k. clk (Suc k)) c workflowID taskID policy
                         else (c, Inr ()))))))"

section \<open>Cancellation, dead workers, heartbeats, watchdog\<close>

definition CancelWorkflow ::
    "'b bolt \<Rightarrow> (nat \<Rightarrow> clock) \<Rightarrow> 'b Coordinator \<Rightarrow> string \<Rightarrow> 'b Coordinator \<times> (err + unit)" where
  "CancelWorkflow B clk c workflowID =
     (case CancelWorkflowTasks B (clk 0) (state c) workflowID of
        (db, Inl e) \<Rightarrow> (c\<lparr>state := db\<rparr>, Inl e)
      | (db, Inr cancelled) \<Rightarrow>
          (let c = dequeue_all cancelled (c\<lparr>state := db\<rparr>) in
           case UpdateWorkflowState B (clk 1) (state c) workflowID WORKFLOW_CANCELLED of
             (db, r) \<Rightarrow> (c\<lparr>state := db\<rparr>, r)))"

text \<open>\<open>ord\<close> is the order of the range over \<^verbatim>\<open>c.runningTasks\<close>.\<close>

definition tasks_of_worker :: "'b Coordinator \<Rightarrow> string list \<Rightarrow> string \<Rightarrow> string list" where
  "tasks_of_worker c ord workerID = filter (\<lambda>taskID. runningTasks c taskID = Some workerID) ord"

definition count_dead_worker :: "i64 \<Rightarrow> 'b Coordinator \<Rightarrow> 'b Coordinator" where
  "count_dead_worker now c =
     c\<lparr>deadWorkersHandled := deadWorkersHandled c + 1, lastDeadWorkerAtMs := now\<rparr>"

definition drop_worker :: "string \<Rightarrow> nat \<Rightarrow> 'b Coordinator \<Rightarrow> 'b Coordinator" where
  "drop_worker workerID requeued c =
     (case HeartbeatMonitor_RemoveWorker workerID (heartbeat c, metrics c) of
        (h, m) \<Rightarrow>
          (let m = m\<lparr>WorkerDisconnectsTotal := Suc (WorkerDisconnectsTotal m)\<rparr>;
               m = (if requeued > 0
                    then m\<lparr>TasksRequeuedTotal := (TasksRequeuedTotal m)
                             (''dead_worker'' := TasksRequeuedTotal m ''dead_worker'' + requeued)\<rparr>
                    else m)
           in c\<lparr>heartbeat := h, metrics := m\<rparr>))"

definition HandleDeadWorker ::
    "'b bolt \<Rightarrow> i64 \<Rightarrow> clock \<Rightarrow> (nat \<Rightarrow> string) \<Rightarrow> string list \<Rightarrow> 'b Coordinator \<Rightarrow> string
     \<Rightarrow> 'b Coordinator \<times> (err + unit)" where
  "HandleDeadWorker B now clk uuid ord c workerID =
     (let tasksToRequeue = tasks_of_worker c ord workerID;
          c = fold unassign tasksToRequeue (count_dead_worker now c)
      in case requeue_all B clk uuid 0 tasksToRequeue c of
           (c, Inl e) \<Rightarrow> (c, Inl e)
         | (c, Inr _) \<Rightarrow> (drop_worker workerID (length tasksToRequeue) c, Inr ()))"

definition UpdateWorkerHeartbeat ::
    "'b Coordinator \<Rightarrow> string \<Rightarrow> i64 \<Rightarrow> string list \<Rightarrow> 'b Coordinator" where
  "UpdateWorkerHeartbeat c workerID timestampMs tasks =
     (case UpdateHeartbeat workerID timestampMs tasks (heartbeat c, metrics c) of
        (h, m) \<Rightarrow> c\<lparr>heartbeat := h, metrics := m\<rparr>)"

text \<open>
  One tick of \<^verbatim>\<open>HeartbeatMonitor.Run\<close> with \<^verbatim>\<open>HandleDeadWorker\<close> as its callback. \<open>wid_ord\<close> is
  the order of the range in \<^verbatim>\<open>GetDeadWorkers\<close>; \<open>calls w\<close> gives what the call for worker \<open>w\<close>
  reads and draws: its clock readings, its UUIDs, and the order of its range over the map
  \<^verbatim>\<open>runningTasks\<close> that it finds.
\<close>

type_synonym dead_call = "i64 \<times> clock \<times> (nat \<Rightarrow> string) \<times> ((string \<rightharpoonup> string) \<Rightarrow> string list)"

fun handle_dead ::
    "'b bolt \<Rightarrow> (string \<Rightarrow> dead_call) \<Rightarrow> string list
     \<Rightarrow> 'b Coordinator \<Rightarrow> 'b Coordinator \<times> (err + unit)" where
  "handle_dead B calls [] c = (c, Inr ())"
| "handle_dead B calls (workerID # deadWorkers) c =
     (case calls workerID of
        (now, clk, uuid, ord) \<Rightarrow>
          (case HandleDeadWorker B now clk uuid (ord (runningTasks c)) c workerID of
             (c, r) \<Rightarrow>
               if panics r then (c, r)
               else handle_dead B calls deadWorkers
                      (c\<lparr>heartbeat := forget_worker workerID (heartbeat c)\<rparr>)))"

definition Run_tick ::
    "'b bolt \<Rightarrow> i64 \<Rightarrow> string list \<Rightarrow> (string \<Rightarrow> dead_call)
     \<Rightarrow> 'b Coordinator \<Rightarrow> 'b Coordinator \<times> (err + unit)" where
  "Run_tick B nowMs wid_ord calls c =
     handle_dead B calls (GetDeadWorkers (heartbeat c) wid_ord nowMs) c"

text \<open>The workflows for which \<^verbatim>\<open>checkHungWorkflows\<close> logs a warning, with the logged age.\<close>

definition watchdogHungThresholdMs :: i64 where
  "watchdogHungThresholdMs = 600000"

definition checkHungWorkflows :: "'b bolt \<Rightarrow> i64 \<Rightarrow> 'b Coordinator \<Rightarrow> err + (string \<times> i64) list" where
  "checkHungWorkflows B nowMs c =
     (case GetAllWorkflowStates B (state c) of
        (_, Some e) \<Rightarrow> if fatal e then Inl e else Inr []
      | (workflows, None) \<Rightarrow>
          Inr (List.map_filter
            (\<lambda>rec. if wsr_State rec \<noteq> WORKFLOW_RUNNING then None
                   else
                     (let ageMs = nowMs - SubmittedAtMs rec in
                      if sint ageMs > sint watchdogHungThresholdMs
                      then Some (wsr_WorkflowID rec, word_of_int (sint ageMs div 1000)) else None))
            workflows))"

end
