(* ===== verification/Dep_Table.thy ===== *)
theory Dep_Table
  imports Task_Table
begin

text \<open>
  The dependency invariant of the task table. \<open>dep_count T v\<close> is the number of
  dependencies of \<open>v\<close> (with multiplicity) that are not COMPLETE, read off the downstream
  lists; \<open>table_inv\<close> says that the in-degree of a PENDING task is that number and that a
  QUEUED, RUNNING or COMPLETE task has none left. The lemmas show what keeps the invariant: changing
  the state of tasks that are not COMPLETE, completing a task together with the decrements
  of \<open>abs_decrement\<close>, and adding the tasks of a valid workflow.
\<close>

section \<open>Definitions\<close>

type_synonym table = "string \<rightharpoonup> TaskStateRecord"

definition waits :: "table \<Rightarrow> string \<Rightarrow> string \<Rightarrow> nat" where
  "waits T v u =
     (case T u of
        None \<Rightarrow> 0
      | Some r \<Rightarrow> if State r = TASK_COMPLETE then 0 else count_list (DownstreamTaskIDs r) v)"

definition dep_count :: "table \<Rightarrow> string \<Rightarrow> nat" where
  "dep_count T v = (\<Sum>u\<in>dom T. waits T v u)"

definition active :: "TaskState \<Rightarrow> bool" where
  "active s \<longleftrightarrow> s = TASK_QUEUED \<or> s = TASK_RUNNING \<or> s = TASK_COMPLETE"

definition table_inv :: "table \<Rightarrow> bool" where
  "table_inv T \<longleftrightarrow>
     finite (dom T) \<and>
     (\<forall>u r. T u = Some r \<longrightarrow> set (DownstreamTaskIDs r) \<subseteq> dom T) \<and>
     (\<forall>v r. T v = Some r \<longrightarrow> State r = TASK_PENDING \<longrightarrow>
        unat (InDegree r) = dep_count T v \<and> dep_count T v < 2 ^ 31) \<and>
     (\<forall>v r. T v = Some r \<longrightarrow> active (State r) \<longrightarrow> dep_count T v = 0)"

text \<open>
  How the table may evolve in a step that submits nothing: no task appears or goes away,
  no edge changes, a COMPLETE record stays as it is.
\<close>

definition evolves_rec :: "TaskStateRecord \<Rightarrow> TaskStateRecord \<Rightarrow> bool" where
  "evolves_rec r r' \<longleftrightarrow> DownstreamTaskIDs r' = DownstreamTaskIDs r \<and> WorkflowID r' = WorkflowID r \<and>
     (State r = TASK_COMPLETE \<longrightarrow> r' = r)"

definition evolves :: "table \<Rightarrow> table \<Rightarrow> bool" where
  "evolves T T' \<longleftrightarrow> (\<forall>u. rel_option evolves_rec (T u) (T' u))"

text \<open>The change of one record by a step that completes no task.\<close>

definition harmless :: "table \<Rightarrow> string \<Rightarrow> TaskStateRecord \<Rightarrow> TaskStateRecord \<Rightarrow> bool" where
  "harmless T v r r' \<longleftrightarrow> evolves_rec r r' \<and>
     (State r' = TASK_COMPLETE \<longrightarrow> State r = TASK_COMPLETE) \<and>
     (State r' = TASK_PENDING \<longrightarrow> State r = TASK_PENDING \<and> InDegree r' = InDegree r) \<and>
     (active (State r') \<longrightarrow> dep_count T v = 0)"

section \<open>Evolution\<close>

lemma evolves_rec_refl [simp]: "evolves_rec r r"
  by (simp add: evolves_rec_def)

lemma evolves_refl [simp]: "evolves T T"
  by (simp add: evolves_def option.rel_refl)

lemma evolves_rec_trans: "evolves_rec a b \<Longrightarrow> evolves_rec b c \<Longrightarrow> evolves_rec a c"
  by (auto simp: evolves_rec_def)

lemma evolves_trans [trans]:
  assumes "evolves T1 T2" and "evolves T2 T3"
  shows "evolves T1 T3"
  unfolding evolves_def
proof
  fix u
  have "rel_option evolves_rec (T1 u) (T2 u)" and "rel_option evolves_rec (T2 u) (T3 u)"
    using assms by (simp_all add: evolves_def)
  then show "rel_option evolves_rec (T1 u) (T3 u)"
    by (cases "T1 u"; cases "T2 u"; cases "T3 u") (auto intro: evolves_rec_trans)
qed

lemma evolves_dom:
  assumes "evolves T T'"
  shows "dom T' = dom T"
proof -
  have "T' u = None \<longleftrightarrow> T u = None" for u
    using assms [unfolded evolves_def, THEN spec, of u] by (cases "T u"; cases "T' u") auto
  then show ?thesis by (simp add: dom_def)
qed

lemma evolvesD:
  assumes "evolves T T'" and "T u = Some r"
  obtains r' where "T' u = Some r'" "DownstreamTaskIDs r' = DownstreamTaskIDs r"
    "WorkflowID r' = WorkflowID r" "State r = TASK_COMPLETE \<longrightarrow> r' = r"
proof -
  have "rel_option evolves_rec (Some r) (T' u)"
    using assms(1) [unfolded evolves_def, THEN spec, of u] assms(2) by simp
  then show thesis using that by (auto simp: option_rel_Some1 evolves_rec_def)
qed

lemma evolvesD2:
  assumes "evolves T T'" and "T' u = Some r'"
  obtains r where "T u = Some r" "DownstreamTaskIDs r' = DownstreamTaskIDs r"
    "WorkflowID r' = WorkflowID r" "State r = TASK_COMPLETE \<longrightarrow> r' = r"
proof -
  have "rel_option evolves_rec (T u) (Some r')"
    using assms(1) [unfolded evolves_def, THEN spec, of u] assms(2) by simp
  then show thesis using that by (auto simp: option_rel_Some2 evolves_rec_def)
qed

section \<open>Counting\<close>

lemma dep_count_cong:
  assumes "dom T' = dom T" and "\<And>u. u \<in> dom T \<Longrightarrow> waits T' v u = waits T v u"
  shows "dep_count T' v = dep_count T v"
  using assms by (simp add: dep_count_def)

lemma dep_count_upd:
  assumes "finite (dom T)" and "T t = Some r" and "DownstreamTaskIDs r' = DownstreamTaskIDs r"
    and "State r \<noteq> TASK_COMPLETE" and "State r' = TASK_COMPLETE"
  shows "dep_count T v = dep_count (T(t \<mapsto> r')) v + count_list (DownstreamTaskIDs r) v"
proof -
  have dom: "dom (T(t \<mapsto> r')) = dom T" "t \<in> dom T" using assms(2) by auto
  have "(\<Sum>u\<in>dom T - {t}. waits (T(t \<mapsto> r')) v u) = (\<Sum>u\<in>dom T - {t}. waits T v u)"
    by (intro sum.cong) (auto simp: waits_def)
  then show ?thesis
    using assms dom by (simp add: dep_count_def sum.remove [of _ t] waits_def)
qed

lemma dep_count_complete:
  assumes "finite (dom T)" and "dep_count T v = 0" and "T u = Some r" and "v \<in> set (DownstreamTaskIDs r)"
  shows "State r = TASK_COMPLETE"
proof (rule ccontr)
  assume "State r \<noteq> TASK_COMPLETE"
  then have "0 < waits T v u" using assms(3,4) by (simp add: waits_def length_le_count_pos)
  moreover have "u \<in> dom T" using assms(3) by blast
  ultimately show False using assms(1,2) by (simp add: dep_count_def)
qed

section \<open>Steps that complete no task\<close>

lemma table_invD:
  assumes "table_inv T"
  shows "finite (dom T)"
    and "T u = Some r \<Longrightarrow> set (DownstreamTaskIDs r) \<subseteq> dom T"
    and "T u = Some r \<Longrightarrow> State r = TASK_PENDING \<Longrightarrow> unat (InDegree r) = dep_count T u"
    and "T u = Some r \<Longrightarrow> State r = TASK_PENDING \<Longrightarrow> dep_count T u < 2 ^ 31"
    and "T u = Some r \<Longrightarrow> active (State r) \<Longrightarrow> dep_count T u = 0"
  using assms unfolding table_inv_def by blast+

lemma table_invI:
  assumes "finite (dom T)"
    and "\<And>u r. T u = Some r \<Longrightarrow> set (DownstreamTaskIDs r) \<subseteq> dom T"
    and "\<And>u r. T u = Some r \<Longrightarrow> State r = TASK_PENDING \<Longrightarrow>
           unat (InDegree r) = dep_count T u \<and> dep_count T u < 2 ^ 31"
    and "\<And>u r. T u = Some r \<Longrightarrow> active (State r) \<Longrightarrow> dep_count T u = 0"
  shows "table_inv T"
  using assms unfolding table_inv_def by blast

lemma harmlessD:
  assumes "harmless T v r r'"
  shows "evolves_rec r r'" and "DownstreamTaskIDs r' = DownstreamTaskIDs r"
    and "State r' = TASK_COMPLETE \<longleftrightarrow> State r = TASK_COMPLETE"
    and "State r' = TASK_PENDING \<Longrightarrow> State r = TASK_PENDING"
    and "State r' = TASK_PENDING \<Longrightarrow> InDegree r' = InDegree r"
    and "active (State r') \<Longrightarrow> dep_count T v = 0"
  using assms unfolding harmless_def evolves_rec_def by blast+

lemma harmless_step:
  assumes inv: "table_inv T" and step: "\<And>v. rel_option (harmless T v) (T v) (T' v)"
  shows "table_inv T'" and "evolves T T'" and "dep_count T' = dep_count T"
proof -
  have rec: "\<exists>r. T v = Some r \<and> harmless T v r r'" if "T' v = Some r'" for v r'
    using step [of v] that by (auto simp: option_rel_Some2)
  show ev: "evolves T T'"
    unfolding evolves_def by (rule allI, rule option.rel_mono_strong [OF step]) (rule harmlessD(1))
  note dom = evolves_dom [OF ev]
  have "waits T' v u = waits T v u" if u: "u \<in> dom T" for v u
  proof -
    obtain r' where r': "T' u = Some r'" using u dom by blast
    with rec obtain r where r: "T u = Some r" and h: "harmless T u r r'" by blast
    show ?thesis using r r' harmlessD(2,3) [OF h] by (simp add: waits_def)
  qed
  then show cnt: "dep_count T' = dep_count T"
    by (intro ext dep_count_cong [OF dom]) simp
  show "table_inv T'"
  proof (rule table_invI)
    show "finite (dom T')" using table_invD(1) [OF inv] dom by simp
  next
    fix u r' assume "T' u = Some r'"
    with rec obtain r where r: "T u = Some r" "harmless T u r r'" by blast
    show "set (DownstreamTaskIDs r') \<subseteq> dom T'"
      using table_invD(2) [OF inv r(1)] dom harmlessD(2) [OF r(2)] by simp
  next
    fix v r' assume r': "T' v = Some r'" "State r' = TASK_PENDING"
    with rec obtain r where r: "T v = Some r" "harmless T v r r'" by blast
    note p = harmlessD(4,5) [OF r(2) r'(2)]
    from p table_invD(3,4) [OF inv r(1) p(1)] show "unat (InDegree r') = dep_count T' v \<and> dep_count T' v < 2 ^ 31"
      unfolding cnt by simp
  next
    fix v r' assume r': "T' v = Some r'" "active (State r')"
    with rec obtain r where "harmless T v r r'" by blast
    from harmlessD(6) [OF this r'(2)] show "dep_count T' v = 0" unfolding cnt .
  qed
qed

lemma harmless_refl:
  assumes "table_inv T" and "T v = Some r"
  shows "harmless T v r r"
  using table_invD(5) [OF assms] by (simp add: harmless_def)

lemma harmless_update:
  assumes inv: "table_inv T" and "T t = Some r" and "harmless T t r r'"
  shows "table_inv (T(t \<mapsto> r'))" and "evolves T (T(t \<mapsto> r'))" and "dep_count (T(t \<mapsto> r')) = dep_count T"
proof -
  have step: "rel_option (harmless T v) (T v) ((T(t \<mapsto> r')) v)" for v
    using assms(2,3) harmless_refl [OF inv, of v] by (cases "T v") auto
  show "table_inv (T(t \<mapsto> r'))" and "evolves T (T(t \<mapsto> r'))" and "dep_count (T(t \<mapsto> r')) = dep_count T"
    using harmless_step [OF inv step] .
qed

section \<open>Completing a task\<close>

text \<open>The effect on a record of being listed \<open>k\<close> times downstream of a completed task.\<close>

definition decremented_by :: "nat \<Rightarrow> TaskStateRecord \<Rightarrow> TaskStateRecord \<Rightarrow> bool" where
  "decremented_by k r r' \<longleftrightarrow>
     (if State r = TASK_PENDING \<and> 0 < k then
        TaskID r' = TaskID r \<and> WorkflowID r' = WorkflowID r \<and>
        DownstreamTaskIDs r' = DownstreamTaskIDs r \<and> ExecutionID r' = ExecutionID r \<and>
        unat (InDegree r') = unat (InDegree r) - k \<and>
        State r' = (if unat (InDegree r) = k then TASK_QUEUED else TASK_PENDING)
      else r' = r)"

definition becomes_ready :: "table \<Rightarrow> string list \<Rightarrow> string set" where
  "becomes_ready T ids =
     {v. \<exists>r. T v = Some r \<and> State r = TASK_PENDING \<and> 0 < count_list ids v \<and>
             unat (InDegree r) = count_list ids v}"

definition covers :: "table \<Rightarrow> string list \<Rightarrow> bool" where
  "covers T ids \<longleftrightarrow>
     (\<forall>v r. T v = Some r \<longrightarrow> State r = TASK_PENDING \<longrightarrow>
        count_list ids v \<le> unat (InDegree r) \<and> unat (InDegree r) < 2 ^ 31)"

lemma coversD:
  assumes "covers T ids" and "T v = Some r" and "State r = TASK_PENDING"
  shows "count_list ids v \<le> unat (InDegree r)" and "unat (InDegree r) < 2 ^ 31"
  using assms unfolding covers_def by blast+

lemma sint_small:
  assumes "unat (n :: i32) < 2 ^ 31"
  shows "sint n = int (unat n)"
proof -
  have "int (unat n) < int (2 ^ 31)" using assms by (simp only: of_nat_less_iff)
  then have "uint n < 2 ^ 31" by simp
  have "sint n = sint (word_of_int (uint n) :: i32)" by simp
  also have "\<dots> = signed_take_bit 31 (uint n)" unfolding signed_of_int by simp
  also have "\<dots> = uint n"
    using \<open>uint n < 2 ^ 31\<close>
    by (intro signed_take_bit_int_eq_self order.trans [OF _ uint_ge_0 [of n]]) simp_all
  finally show ?thesis by simp
qed

lemma decremented_pending:
  assumes "State r = TASK_PENDING" and "0 < unat (InDegree r)" and "unat (InDegree r) < 2 ^ 31"
  shows "unat (InDegree (decremented now r)) = unat (InDegree r) - 1"
    and "State (decremented now r) = (if unat (InDegree r) = 1 then TASK_QUEUED else TASK_PENDING)"
    and "InDegree (decremented now r) = 0 \<longleftrightarrow> unat (InDegree r) = 1"
proof -
  have n: "unat (InDegree r - 1) = unat (InDegree r) - 1"
    using assms(2) by (intro unat_minus_one) auto
  have "sint (InDegree r - 1) = int (unat (InDegree r - 1))"
    by (rule sint_small) (use assms n in simp)
  then have "0 \<le> sint (InDegree r - 1)" by (simp only: of_nat_0_le_iff)
  then have d: "InDegree (decremented now r) = InDegree r - 1"
    by (simp add: decremented_def Let_def)
  show "unat (InDegree (decremented now r)) = unat (InDegree r) - 1" using d n by simp
  have z: "InDegree r - 1 = 0 \<longleftrightarrow> unat (InDegree r) = 1"
    using n assms(2) by (metis One_nat_def Suc_pred diff_is_0_eq le_refl unat_0 unat_eq_zero)
  then show "InDegree (decremented now r) = 0 \<longleftrightarrow> unat (InDegree r) = 1" using d by simp
  show "State (decremented now r) = (if unat (InDegree r) = 1 then TASK_QUEUED else TASK_PENDING)"
    using z assms(1) \<open>0 \<le> sint (InDegree r - 1)\<close> by (simp add: decremented_def Let_def)
qed

lemma decremented_by_0 [simp]: "decremented_by 0 r r' \<longleftrightarrow> r' = r"
  by (simp add: decremented_by_def)

lemma decremented_by_idle: "State r \<noteq> TASK_PENDING \<Longrightarrow> decremented_by k r r' \<longleftrightarrow> r' = r"
  by (simp add: decremented_by_def)

lemma decremented_by_Suc:
  assumes "State r = TASK_PENDING" and "Suc k \<le> unat (InDegree r)" and "unat (InDegree r) < 2 ^ 31"
    and "decremented_by k (decremented now r) r'"
  shows "decremented_by (Suc k) r r'"
proof -
  note d = decremented_pending [OF assms(1) _ assms(3), of now]
  show ?thesis
  proof (cases "k = 0")
    case True
    then have "r' = decremented now r" using assms(4) by simp
    with True assms(1,2) d show ?thesis by (simp add: decremented_by_def)
  next
    case False
    with assms(2) d have "State (decremented now r) = TASK_PENDING"
      and "unat (InDegree (decremented now r)) = k \<longleftrightarrow> unat (InDegree r) = Suc k"
      by auto
    with False assms d(1) show ?thesis by (simp add: decremented_by_def)
  qed
qed

lemma covers_tl:
  assumes "covers T (d # ids)"
  shows "covers T ids"
  unfolding covers_def
proof (intro allI impI)
  fix v r assume "T v = Some r" "State r = TASK_PENDING"
  from coversD [OF assms this] show "count_list ids v \<le> unat (InDegree r) \<and> unat (InDegree r) < 2 ^ 31"
    by (simp split: if_splits)
qed

lemma becomes_ready_step:
  assumes "T d = Some r" and "State r = TASK_PENDING"
    and "Suc (count_list ids d) \<le> unat (InDegree r)" and "unat (InDegree r) < 2 ^ 31"
  shows "becomes_ready T (d # ids) =
    (if unat (InDegree r) = 1 then insert d (becomes_ready (T(d \<mapsto> decremented now r)) ids)
     else becomes_ready (T(d \<mapsto> decremented now r)) ids)"
proof -
  note d = decremented_pending [OF assms(2) _ assms(4), of now]
  have other: "v \<in> becomes_ready T (d # ids) \<longleftrightarrow> v \<in> becomes_ready (T(d \<mapsto> decremented now r)) ids"
    if "v \<noteq> d" for v
    using that by (simp add: becomes_ready_def)
  have old: "d \<in> becomes_ready T (d # ids) \<longleftrightarrow> unat (InDegree r) = Suc (count_list ids d)"
    using assms by (simp add: becomes_ready_def)
  have new: "d \<in> becomes_ready (T(d \<mapsto> decremented now r)) ids \<longleftrightarrow>
      unat (InDegree r) \<noteq> 1 \<and> unat (InDegree r) = Suc (count_list ids d)"
    using assms d by (auto simp: becomes_ready_def)
  show ?thesis
  proof (rule set_eqI)
    fix v
    show "v \<in> becomes_ready T (d # ids) \<longleftrightarrow> v \<in>
      (if unat (InDegree r) = 1 then insert d (becomes_ready (T(d \<mapsto> decremented now r)) ids)
       else becomes_ready (T(d \<mapsto> decremented now r)) ids)"
      using old new other [of v] assms(3) by (cases "v = d") simp_all
  qed
qed

lemma abs_decrement_idle:
  assumes "\<not> (\<exists>r. T d = Some r \<and> State r = TASK_PENDING)"
  shows "abs_decrement clk i (d # ids) T ready = abs_decrement clk (Suc i) ids T ready"
  using assms by (cases "T d") simp_all

lemma idle_decremented:
  assumes "\<not> (\<exists>r. T d = Some r \<and> State r = TASK_PENDING)"
    and "rel_option (decremented_by (count_list ids v)) (T v) (T' v)"
  shows "rel_option (decremented_by (count_list (d # ids) v)) (T v) (T' v)"
  using assms by (cases "v = d"; cases "T v"; cases "T' v") (auto simp: decremented_by_idle)

lemma covers_step:
  assumes "covers T (d # ids)" and "T d = Some r" and "State r = TASK_PENDING"
  shows "covers (T(d \<mapsto> decremented now r)) ids"
  unfolding covers_def
proof (intro allI impI)
  fix v s assume s: "(T(d \<mapsto> decremented now r)) v = Some s" "State s = TASK_PENDING"
  have n: "Suc (count_list ids d) \<le> unat (InDegree r)" "unat (InDegree r) < 2 ^ 31"
    using coversD [OF assms] by simp_all
  show "count_list ids v \<le> unat (InDegree s) \<and> unat (InDegree s) < 2 ^ 31"
  proof (cases "v = d")
    case True
    with s(1) have "s = decremented now r" by simp
    with decremented_pending(1) [OF assms(3) _ n(2), of now] n True show ?thesis by auto
  next
    case False
    with s coversD [OF assms(1), of v s] show ?thesis by simp
  qed
qed

lemma abs_decrement_spec:
  assumes "covers T ids" and "abs_decrement clk i ids T ready = (T', ready')"
  shows "(\<forall>v. rel_option (decremented_by (count_list ids v)) (T v) (T' v)) \<and>
         (\<exists>new. ready' = ready @ new \<and> distinct new \<and> set new = becomes_ready T ids)"
  using assms
proof (induction ids arbitrary: T i ready)
  case Nil
  then show ?case by (auto simp: becomes_ready_def option.rel_refl)
next
  case (Cons d ids)
  show ?case
  proof (cases "\<exists>r. T d = Some r \<and> State r = TASK_PENDING")
    case False
    have "abs_decrement clk (Suc i) ids T ready = (T', ready')"
      using Cons.prems(2) abs_decrement_idle [of T d, OF False] by simp
    note IH = Cons.IH [OF covers_tl [OF Cons.prems(1)] this]
    have "becomes_ready T (d # ids) = becomes_ready T ids"
      using False by (auto simp: becomes_ready_def)
    then show ?thesis using IH idle_decremented [of T d, OF False] by (metis (no_types))
  next
    case True
    then obtain r where r: "T d = Some r" "State r = TASK_PENDING" by blast
    have n: "Suc (count_list ids d) \<le> unat (InDegree r)" "unat (InDegree r) < 2 ^ 31"
      using coversD [OF Cons.prems(1) r] by simp_all
    let ?r1 = "decremented (clk i) r"
    let ?T1 = "T(d \<mapsto> ?r1)"
    note d = decremented_pending [OF r(2) _ n(2), of "clk i"]
    have "abs_decrement clk (Suc i) ids ?T1
            (if InDegree ?r1 = 0 then ready @ [d] else ready) = (T', ready')"
      using Cons.prems(2) r by simp
    from Cons.IH [OF covers_step [OF Cons.prems(1) r] this] obtain new
      where rel: "\<And>v. rel_option (decremented_by (count_list ids v)) (?T1 v) (T' v)"
        and new: "ready' = (if InDegree ?r1 = 0 then ready @ [d] else ready) @ new"
          "distinct new" "set new = becomes_ready ?T1 ids" by blast
    have "rel_option (decremented_by (count_list (d # ids) v)) (T v) (T' v)" for v
      using rel [of v] r decremented_by_Suc [OF r(2) n] by (cases "v = d") (auto simp: option_rel_Some1)
    moreover have "becomes_ready T (d # ids) =
        (if unat (InDegree r) = 1 then insert d (becomes_ready ?T1 ids) else becomes_ready ?T1 ids)"
      using r n by (rule becomes_ready_step)
    moreover have "d \<notin> becomes_ready ?T1 ids" if "unat (InDegree r) = 1"
      using that d(2) n by (auto simp: becomes_ready_def)
    moreover have "InDegree ?r1 = 0 \<longleftrightarrow> unat (InDegree r) = 1" using d(3) n by auto
    ultimately show ?thesis
      using new by (intro conjI allI exI [of _ "if unat (InDegree r) = 1 then d # new else new"]) auto
  qed
qed

lemma decremented_byD:
  assumes "decremented_by k r r'"
  shows "evolves_rec r r'" and "DownstreamTaskIDs r' = DownstreamTaskIDs r"
    and "State r' = TASK_COMPLETE \<longleftrightarrow> State r = TASK_COMPLETE"
    and "State r' = TASK_PENDING \<Longrightarrow> State r = TASK_PENDING \<and> unat (InDegree r') = unat (InDegree r) - k"
    and "active (State r') \<Longrightarrow> r' = r \<or> State r = TASK_PENDING \<and> unat (InDegree r) = k"
  using assms by (auto simp: decremented_by_def evolves_rec_def active_def split: if_splits)

lemma decremented_by_queued:
  assumes "decremented_by k r r'"
  shows "State r = TASK_PENDING \<and> 0 < k \<and> unat (InDegree r) = k \<longleftrightarrow>
         State r = TASK_PENDING \<and> State r' = TASK_QUEUED"
  using assms unfolding decremented_by_def by (auto split: if_splits)

lemma decrement_evolves:
  assumes "\<And>v. rel_option (decremented_by (k v)) (T v) (T' v)"
  shows "evolves T T'" and "dep_count T' = dep_count T"
proof -
  show ev: "evolves T T'"
    unfolding evolves_def by (rule allI, rule option.rel_mono_strong [OF assms]) (rule decremented_byD(1))
  note dom = evolves_dom [OF ev]
  have "waits T' v u = waits T v u" for v u
    using assms [of u] by (cases "T u"; cases "T' u") (auto simp: waits_def decremented_byD(2,3))
  then show "dep_count T' = dep_count T"
    by (intro ext dep_count_cong [OF dom]) simp
qed

lemma decrement_inv:
  assumes inv: "table_inv T" and t: "T t = Some r" and c: "State c = TASK_COMPLETE"
    and cnt: "\<And>v. dep_count T v = dep_count (T(t \<mapsto> c)) v + k v"
    and ds: "set (DownstreamTaskIDs c) \<subseteq> dom T" and z: "dep_count T t = 0"
    and rel: "\<And>v. rel_option (decremented_by (k v)) ((T(t \<mapsto> c)) v) (T' v)"
  shows "table_inv T'"
proof -
  note ev = decrement_evolves [of k "T(t \<mapsto> c)" T', OF rel]
  have dom: "dom T' = dom T" using evolves_dom [OF ev(1)] t by auto
  have pre: "\<exists>s. (T(t \<mapsto> c)) v = Some s \<and> decremented_by (k v) s s'" if "T' v = Some s'" for v s'
    using rel [of v] that by (simp add: option_rel_Some2)
  have old: "T v = Some s" if "(T(t \<mapsto> c)) v = Some s" "State s \<noteq> TASK_COMPLETE" for v s
    using that c by (auto split: if_splits)
  show ?thesis
  proof (rule table_invI)
    show "finite (dom T')" using dom table_invD(1) [OF inv] by simp
  next
    fix u s' assume "T' u = Some s'"
    with pre obtain s where s: "(T(t \<mapsto> c)) u = Some s" "decremented_by (k u) s s'" by blast
    have "set (DownstreamTaskIDs s) \<subseteq> dom T"
      using s(1) ds table_invD(2) [OF inv] by (auto split: if_splits)
    with decremented_byD(2) [OF s(2)] dom show "set (DownstreamTaskIDs s') \<subseteq> dom T'" by simp
  next
    fix u s' assume s': "T' u = Some s'" "State s' = TASK_PENDING"
    with pre obtain s where s: "(T(t \<mapsto> c)) u = Some s" "decremented_by (k u) s s'" by blast
    from decremented_byD(4) [OF s(2) s'(2)]
    have p: "State s = TASK_PENDING" "unat (InDegree s') = unat (InDegree s) - k u" by auto
    then have Tu: "T u = Some s" using old [OF s(1)] by simp
    from table_invD(3,4) [OF inv Tu p(1)] p(2) cnt [of u]
    show "unat (InDegree s') = dep_count T' u \<and> dep_count T' u < 2 ^ 31" unfolding ev(2) by simp
  next
    fix u s' assume s': "T' u = Some s'" "active (State s')"
    with pre obtain s where s: "(T(t \<mapsto> c)) u = Some s" "decremented_by (k u) s s'" by blast
    show "dep_count T' u = 0"
    proof (cases "u = t")
      case True
      with cnt [of t] z show ?thesis unfolding ev(2) by simp
    next
      case False
      with s(1) have Tu: "T u = Some s" by simp
      from decremented_byD(5) [OF s(2) s'(2)] show ?thesis
        using table_invD(3,5) [OF inv Tu] s'(2) cnt [of u] unfolding ev(2) by auto
    qed
  qed
qed

text \<open>The transaction of \<^verbatim>\<open>CompleteTask\<close> on a task that is not COMPLETE, record by record.\<close>

lemma completion_effect:
  assumes inv: "table_inv T" and t: "T t = Some r" "State r \<noteq> TASK_COMPLETE"
    and c: "State c = TASK_COMPLETE" "DownstreamTaskIDs c = DownstreamTaskIDs r"
    and dec: "abs_decrement clk i (DownstreamTaskIDs r) (T(t \<mapsto> c)) [] = (T', ready)"
  shows "\<And>v. rel_option (decremented_by (count_list (DownstreamTaskIDs r) v)) ((T(t \<mapsto> c)) v) (T' v)"
    and "distinct ready" and "set ready = becomes_ready (T(t \<mapsto> c)) (DownstreamTaskIDs r)"
    and "\<And>v. dep_count T v = dep_count (T(t \<mapsto> c)) v + count_list (DownstreamTaskIDs r) v"
    and "dep_count T' = dep_count (T(t \<mapsto> c))"
proof -
  let ?ds = "DownstreamTaskIDs r" and ?T1 = "T(t \<mapsto> c)"
  show cnt: "dep_count T v = dep_count ?T1 v + count_list ?ds v" for v
    using table_invD(1) [OF inv] t(1) c(2) t(2) c(1) by (rule dep_count_upd)
  have pend: "T v = Some s" if "?T1 v = Some s" "State s = TASK_PENDING" for v s
    using that c(1) by (auto split: if_splits)
  have "covers ?T1 ?ds"
    unfolding covers_def
  proof (intro allI impI)
    fix v s assume s: "?T1 v = Some s" "State s = TASK_PENDING"
    from table_invD(3,4) [OF inv pend [OF s] s(2)] cnt [of v]
    show "count_list ?ds v \<le> unat (InDegree s) \<and> unat (InDegree s) < 2 ^ 31" by simp
  qed
  from abs_decrement_spec [OF this dec]
  show rel: "rel_option (decremented_by (count_list ?ds v)) (?T1 v) (T' v)" for v by blast
  from abs_decrement_spec [OF \<open>covers ?T1 ?ds\<close> dec]
  show "distinct ready" "set ready = becomes_ready ?T1 ?ds" by auto
  show "dep_count T' = dep_count ?T1"
    by (rule decrement_evolves(2) [of "count_list ?ds" ?T1 T', OF rel])
qed

text \<open>
  It keeps the invariant, and the tasks it returns are exactly those that were PENDING and
  now are QUEUED (\<open>complete_step\<close>), or: the PENDING tasks listed downstream of the completed
  one that have no open dependency left (\<open>completion_releases\<close>).
\<close>

lemma complete_step:
  assumes inv: "table_inv T" and t: "T t = Some r" "State r \<noteq> TASK_COMPLETE" "dep_count T t = 0"
    and c: "State c = TASK_COMPLETE" "DownstreamTaskIDs c = DownstreamTaskIDs r" "WorkflowID c = WorkflowID r"
    and dec: "abs_decrement clk i (DownstreamTaskIDs r) (T(t \<mapsto> c)) [] = (T', ready)"
  shows "table_inv T'" and "evolves T T'" and "distinct ready"
    and "\<And>v. v \<in> set ready \<longleftrightarrow>
           (\<exists>s s'. T v = Some s \<and> T' v = Some s' \<and> State s = TASK_PENDING \<and> State s' = TASK_QUEUED)"
    and "T' t = Some c"
    and "\<And>v s s'. T v = Some s \<Longrightarrow> T' v = Some s' \<Longrightarrow> v \<noteq> t \<Longrightarrow> State s \<noteq> TASK_PENDING \<Longrightarrow> s' = s"
    and "\<And>v. dep_count T' v \<le> dep_count T v"
proof -
  let ?ds = "DownstreamTaskIDs r" and ?T1 = "T(t \<mapsto> c)"
  note E = completion_effect [OF inv t(1,2) c(1,2) dec]
  show "distinct ready" by (rule E(2))
  show tc: "T' t = Some c" using E(1) [of t] c(1) by (auto simp: option_rel_Some1 decremented_by_idle)
  show "table_inv T'"
    using table_invD(2) [OF inv t(1)] c(2)
    by (intro decrement_inv [OF inv t(1) c(1) E(4) _ t(3) E(1)]) simp
  have "evolves T ?T1"
    unfolding evolves_def using t c(2,3) by (auto simp: evolves_rec_def option.rel_refl)
  also note decrement_evolves(1) [of "count_list ?ds" ?T1 T', OF E(1)]
  finally show "evolves T T'" .
  show "v \<in> set ready \<longleftrightarrow>
           (\<exists>s s'. T v = Some s \<and> T' v = Some s' \<and> State s = TASK_PENDING \<and> State s' = TASK_QUEUED)" for v
  proof (cases "v = t \<or> T v = None")
    case True
    then have "v \<notin> set ready" unfolding E(3) becomes_ready_def using c(1) by auto
    with True tc c(1) show ?thesis by auto
  next
    case False
    then obtain s where s: "T v = Some s" "v \<noteq> t" by blast
    then obtain s' where s': "T' v = Some s'" and d: "decremented_by (count_list ?ds v) s s'"
      using E(1) [of v] by (auto simp: option_rel_Some1)
    have "v \<in> set ready \<longleftrightarrow> State s = TASK_PENDING \<and> 0 < count_list ?ds v \<and>
        unat (InDegree s) = count_list ?ds v"
      unfolding E(3) becomes_ready_def using s by simp
    also have "\<dots> \<longleftrightarrow> State s = TASK_PENDING \<and> State s' = TASK_QUEUED"
      by (rule decremented_by_queued [OF d])
    finally show ?thesis using s s' by simp
  qed
  show "s' = s" if "T v = Some s" "T' v = Some s'" "v \<noteq> t" "State s \<noteq> TASK_PENDING" for v s s'
    using E(1) [of v] that by (simp add: decremented_by_idle)
  show "dep_count T' v \<le> dep_count T v" for v
    using E(4) [of v] E(5) by simp
qed

lemma completion_releases:
  assumes inv: "table_inv T" and t: "T t = Some r" "State r \<noteq> TASK_COMPLETE" "dep_count T t = 0"
    and c: "State c = TASK_COMPLETE" "DownstreamTaskIDs c = DownstreamTaskIDs r"
    and dec: "abs_decrement clk i (DownstreamTaskIDs r) (T(t \<mapsto> c)) [] = (T', ready)"
  shows "v \<in> set ready \<longleftrightarrow>
    v \<in> set (DownstreamTaskIDs r) \<and> (\<exists>s. T v = Some s \<and> State s = TASK_PENDING) \<and> dep_count T' v = 0"
proof -
  let ?ds = "DownstreamTaskIDs r"
  note E = completion_effect [OF inv t(1,2) c dec]
  show ?thesis
  proof (cases "v = t \<or> \<not> (\<exists>s. T v = Some s \<and> State s = TASK_PENDING)")
    case True
    then have "v \<notin> set ready" unfolding E(3) becomes_ready_def using c(1) by auto
    moreover have "t \<notin> set ?ds" using t(3) E(4) [of t] by (simp add: length_le_count_pos)
    ultimately show ?thesis using True by blast
  next
    case False
    then obtain s where s: "T v = Some s" "State s = TASK_PENDING" "v \<noteq> t" by blast
    have "v \<in> set ready \<longleftrightarrow> 0 < count_list ?ds v \<and> unat (InDegree s) = count_list ?ds v"
      unfolding E(3) becomes_ready_def using s by simp
    moreover have "unat (InDegree s) = dep_count T' v + count_list ?ds v"
      using table_invD(3) [OF inv s(1,2)] E(4) [of v] E(5) by simp
    ultimately show ?thesis using s by (simp add: length_le_count_pos)
  qed
qed

section \<open>Adding the tasks of a workflow\<close>

text \<open>
  \<open>T'\<close> is \<open>T\<close> with the new tasks \<open>N\<close>, all PENDING; \<open>deps v\<close> are the dependencies of \<open>v\<close>, all
  new, with the downstream lists that the resolver computes for them.
\<close>

definition added :: "table \<Rightarrow> string set \<Rightarrow> (string \<Rightarrow> string list) \<Rightarrow> table \<Rightarrow> bool" where
  "added T N deps T' \<longleftrightarrow>
     finite N \<and> N \<inter> dom T = {} \<and> (\<forall>v. v \<notin> N \<longrightarrow> T' v = T v \<and> deps v = []) \<and>
     (\<forall>v\<in>N. set (deps v) \<subseteq> N \<and> length (deps v) < 2 ^ 31 \<and>
        (\<exists>r. T' v = Some r \<and> State r = TASK_PENDING \<and> InDegree r = word_of_nat (length (deps v)) \<and>
             (\<forall>w. count_list (DownstreamTaskIDs r) w = count_list (deps w) v)))"

lemma addedD:
  assumes "added T N deps T'"
  shows "finite N" and "N \<inter> dom T = {}" and "\<And>v. v \<notin> N \<Longrightarrow> T' v = T v" and "\<And>v. v \<notin> N \<Longrightarrow> deps v = []"
    and "\<And>v. v \<in> N \<Longrightarrow> set (deps v) \<subseteq> N" and "\<And>v. v \<in> N \<Longrightarrow> length (deps v) < 2 ^ 31"
    and "\<And>v. v \<in> N \<Longrightarrow> \<exists>r. T' v = Some r \<and> State r = TASK_PENDING \<and>
           InDegree r = word_of_nat (length (deps v)) \<and>
           (\<forall>w. count_list (DownstreamTaskIDs r) w = count_list (deps w) v)"
  using assms unfolding added_def by blast+

lemma added_dom:
  assumes "added T N deps T'"
  shows "dom T' = dom T \<union> N"
proof -
  have "v \<in> dom T' \<longleftrightarrow> v \<in> dom T \<or> v \<in> N" for v
    using addedD(2,3) [OF assms] addedD(7) [OF assms, of v] by (cases "v \<in> N") (auto simp: domIff)
  then show ?thesis by blast
qed

lemma added_waits:
  assumes "added T N deps T'"
  shows "u \<notin> N \<Longrightarrow> waits T' v u = waits T v u" and "u \<in> N \<Longrightarrow> waits T' v u = count_list (deps v) u"
proof -
  show "waits T' v u = waits T v u" if "u \<notin> N"
    using addedD(3) [OF assms that] by (simp add: waits_def)
  show "waits T' v u = count_list (deps v) u" if "u \<in> N"
    using addedD(7) [OF assms that] by (auto simp: waits_def)
qed

lemma added_dep_count:
  assumes inv: "table_inv T" and "added T N deps T'"
  shows "v \<in> N \<Longrightarrow> dep_count T' v = length (deps v)" and "v \<notin> N \<Longrightarrow> dep_count T' v = dep_count T v"
proof -
  note D = addedD [OF assms(2)]
  have split: "dep_count T' v = (\<Sum>u\<in>dom T. waits T v u) + (\<Sum>u\<in>N. count_list (deps v) u)" for v
  proof -
    have "dep_count T' v = (\<Sum>u\<in>dom T. waits T' v u) + (\<Sum>u\<in>N. waits T' v u)"
      unfolding dep_count_def added_dom [OF assms(2)]
      using table_invD(1) [OF inv] D(1,2) by (intro sum.union_disjoint) auto
    moreover have "(\<Sum>u\<in>dom T. waits T' v u) = (\<Sum>u\<in>dom T. waits T v u)"
      using D(2) by (intro sum.cong refl added_waits(1) [OF assms(2)]) auto
    moreover have "(\<Sum>u\<in>N. waits T' v u) = (\<Sum>u\<in>N. count_list (deps v) u)"
      by (intro sum.cong refl added_waits(2) [OF assms(2)])
    ultimately show ?thesis by simp
  qed
  show "dep_count T' v = length (deps v)" if "v \<in> N"
  proof -
    have "waits T v u = 0" for u
    proof (cases "T u")
      case (Some r)
      have "v \<notin> set (DownstreamTaskIDs r)"
        using table_invD(2) [OF inv Some] D(2) that by blast
      with Some show ?thesis by (simp add: waits_def count_list_0_iff)
    qed (simp add: waits_def)
    with split [of v] sum_count_list_subset [OF D(1) D(5) [OF that]] show ?thesis by simp
  qed
  show "dep_count T' v = dep_count T v" if "v \<notin> N"
    using split [of v] D(4) [OF that] by (simp add: dep_count_def)
qed

lemma added_inv:
  assumes inv: "table_inv T" and add: "added T N deps T'"
  shows "table_inv T'"
proof (rule table_invI)
  note D = addedD [OF add] and dom = added_dom [OF add] and cnt = added_dep_count [OF inv add]
  show "finite (dom T')" using dom D(1) table_invD(1) [OF inv] by simp
  fix u r assume r: "T' u = Some r"
  have old: "T u = Some r" if "u \<notin> N" using D(3) [OF that] r by simp
  have new: "State r = TASK_PENDING \<and> InDegree r = word_of_nat (length (deps u)) \<and>
      (\<forall>w. count_list (DownstreamTaskIDs r) w = count_list (deps w) u)" if "u \<in> N"
    using D(7) [OF that] r by auto
  show "set (DownstreamTaskIDs r) \<subseteq> dom T'"
  proof (cases "u \<in> N")
    case True
    have "w \<in> N" if "w \<in> set (DownstreamTaskIDs r)" for w
    proof (rule ccontr)
      assume "w \<notin> N"
      with D(4) new [OF True] have "count_list (DownstreamTaskIDs r) w = 0" by simp
      with that show False by (simp add: count_list_0_iff)
    qed
    then show ?thesis using dom by blast
  next
    case False
    from table_invD(2) [OF inv old [OF False]] show ?thesis using dom by blast
  qed
  show "unat (InDegree r) = dep_count T' u \<and> dep_count T' u < 2 ^ 31" if "State r = TASK_PENDING"
  proof (cases "u \<in> N")
    case True
    have "unat (word_of_nat (length (deps u)) :: i32) = length (deps u)"
      using D(6) [OF True] by (simp add: unat_of_nat)
    with True new cnt(1) D(6) show ?thesis by simp
  next
    case False
    with table_invD(3,4) [OF inv old that] cnt(2) show ?thesis by simp
  qed
  show "dep_count T' u = 0" if "active (State r)"
  proof (cases "u \<in> N")
    case True
    with new that show ?thesis by (simp add: active_def)
  next
    case False
    with table_invD(5) [OF inv old that] cnt(2) show ?thesis by simp
  qed
qed

end
