(* ===== verification/Coord_Inv.thy ===== *)
theory Coord_Inv
  imports Coordinator Dep_Table
begin

text \<open>
  The system invariant and its preservation by every handler of the coordinator. The
  invariant ties the task table (theory \<open>Dep_Table\<close>) to the coordinator's memory: the
  ready queue lists QUEUED tasks, each once; an assigned task is RUNNING under the assigned
  execution id, or was SKIPPED while it ran, and in either case has no open dependency; a
  cached or stored task specification names only dependencies whose records list the task
  downstream.
\<close>

section \<open>The invariant\<close>

definition linked :: "table \<Rightarrow> TaskSpec \<Rightarrow> bool" where
  "linked T s \<longleftrightarrow>
     (TaskId s \<in> dom T \<longrightarrow>
        (\<forall>d\<in>set (Dependencies s). \<exists>r. T d = Some r \<and> TaskId s \<in> set (DownstreamTaskIDs r)))"

definition cache_inv :: "table \<Rightarrow> (string \<rightharpoonup> TaskSpec) \<Rightarrow> bool" where
  "cache_inv T cache \<longleftrightarrow> (\<forall>t s. cache t = Some s \<longrightarrow> TaskId s = t \<and> linked T s)"

definition stored_inv :: "table \<Rightarrow> (string \<rightharpoonup> WorkflowSpec) \<Rightarrow> bool" where
  "stored_inv T specs \<longleftrightarrow> (\<forall>w s. specs w = Some s \<longrightarrow> (\<forall>task\<in>set (Tasks s). linked T task))"

definition queue_inv :: "table \<Rightarrow> string list \<Rightarrow> bool" where
  "queue_inv T q \<longleftrightarrow> distinct q \<and> (\<forall>t\<in>set q. \<exists>r. T t = Some r \<and> State r = TASK_QUEUED)"

definition held :: "table \<Rightarrow> string \<Rightarrow> string \<Rightarrow> bool" where
  "held T t e \<longleftrightarrow>
     (\<exists>r. T t = Some r \<and> ExecutionID r = e \<and> (State r = TASK_RUNNING \<or> State r = TASK_SKIPPED)) \<and>
     dep_count T t = 0"

definition assigned_inv :: "table \<Rightarrow> (string \<rightharpoonup> string) \<Rightarrow> (string \<rightharpoonup> string) \<Rightarrow> bool" where
  "assigned_inv T running assigned \<longleftrightarrow>
     dom running = dom assigned \<and> (\<forall>t e. assigned t = Some e \<longrightarrow> held T t e)"

definition store_inv :: "'b bolt \<Rightarrow> 'b DB \<Rightarrow> bool" where
  "store_inv B db \<longleftrightarrow>
     tasks_wf B db \<and> workflows_wf B db \<and> table_inv (task_table B db) \<and>
     stored_inv (task_table B db) (spec_table B db)"

definition sys_inv :: "'b bolt \<Rightarrow> 'b Coordinator \<Rightarrow> bool" where
  "sys_inv B c \<longleftrightarrow>
     store_inv B (state c) \<and>
     queue_inv (task_table B (state c)) (readyQueue c) \<and>
     assigned_inv (task_table B (state c)) (runningTasks c) (assignedTasks c) \<and>
     cache_inv (task_table B (state c)) (taskSpecCache c)"

section \<open>Framing\<close>

lemma linked_evolves:
  assumes "evolves T T'" and "linked T s"
  shows "linked T' s"
  unfolding linked_def
proof (intro impI ballI)
  fix d assume "TaskId s \<in> dom T'" and d: "d \<in> set (Dependencies s)"
  with evolves_dom [OF assms(1)] have "TaskId s \<in> dom T" by simp
  with assms(2) d obtain r where r: "T d = Some r" "TaskId s \<in> set (DownstreamTaskIDs r)"
    unfolding linked_def by blast
  from evolvesD [OF assms(1) r(1)] r(2) show "\<exists>r. T' d = Some r \<and> TaskId s \<in> set (DownstreamTaskIDs r)"
    by metis
qed

lemma cache_inv_evolves: "evolves T T' \<Longrightarrow> cache_inv T cache \<Longrightarrow> cache_inv T' cache"
  unfolding cache_inv_def by (blast intro: linked_evolves)

lemma stored_inv_evolves: "evolves T T' \<Longrightarrow> stored_inv T specs \<Longrightarrow> stored_inv T' specs"
  unfolding stored_inv_def by (blast intro: linked_evolves)

lemma store_invD:
  assumes "store_inv B db"
  shows "tasks_wf B db" and "workflows_wf B db" and "table_inv (task_table B db)"
    and "stored_inv (task_table B db) (spec_table B db)"
  using assms by (simp_all add: store_inv_def)

lemma sys_invD:
  assumes "sys_inv B c"
  shows "store_inv B (state c)"
    and "queue_inv (task_table B (state c)) (readyQueue c)"
    and "assigned_inv (task_table B (state c)) (runningTasks c) (assignedTasks c)"
    and "cache_inv (task_table B (state c)) (taskSpecCache c)"
  using assms by (simp_all add: sys_inv_def)

lemma store_inv_tasks:
  assumes "store_inv B db" and "only_tasks_changed db db'" and "tasks_wf B db'"
    and "table_inv (task_table B db')" and "evolves (task_table B db) (task_table B db')"
  shows "store_inv B db'"
proof -
  note D = only_tasks_changedD [OF assms(2)]
  have "workflows_wf B db' = workflows_wf B db" and "spec_table B db' = spec_table B db"
    using wf_table_cong(2) [OF D(4)] spec_table_cong [OF D(1)] by auto
  with assms store_invD [OF assms(1)] show ?thesis
    by (simp add: store_inv_def stored_inv_evolves)
qed

lemma store_inv_workflow_state:
  assumes "store_inv B db" and "only_workflow_state_changed db db'" and "workflows_wf B db'"
  shows "store_inv B db'" and "task_table B db' = task_table B db" and "spec_table B db' = spec_table B db"
proof -
  note D = only_workflow_state_changedD [OF assms(2)]
  show T: "task_table B db' = task_table B db" and S: "spec_table B db' = spec_table B db"
    using task_table_cong(1) [OF D(1)] spec_table_cong [OF D(2)] by auto
  have "tasks_wf B db' = tasks_wf B db" using task_table_cong(2) [OF D(1)] .
  with assms store_invD [OF assms(1)] T S show "store_inv B db'" by (simp add: store_inv_def)
qed

text \<open>A step that changes task records only, seen from the coordinator.\<close>

lemma sys_inv_tasks:
  assumes "sys_inv B c" and "only_tasks_changed (state c) (state c')" and "tasks_wf B (state c')"
    and "table_inv (task_table B (state c'))"
    and "evolves (task_table B (state c)) (task_table B (state c'))"
    and "queue_inv (task_table B (state c')) (readyQueue c')"
    and "assigned_inv (task_table B (state c')) (runningTasks c') (assignedTasks c')"
    and "taskSpecCache c' = taskSpecCache c"
  shows "sys_inv B c'"
  unfolding sys_inv_def
  using assms store_inv_tasks [OF sys_invD(1) [OF assms(1)] assms(2-5)]
    cache_inv_evolves [OF assms(5) sys_invD(4) [OF assms(1)]] by simp

text \<open>A step that changes nothing but workflow states and fields outside the invariant.\<close>

lemma sys_inv_workflow_state:
  assumes "sys_inv B c" and "only_workflow_state_changed (state c) (state c')" and "workflows_wf B (state c')"
    and "readyQueue c' = readyQueue c" and "runningTasks c' = runningTasks c"
    and "assignedTasks c' = assignedTasks c" and "taskSpecCache c' = taskSpecCache c"
  shows "sys_inv B c'" and "task_table B (state c') = task_table B (state c)"
proof -
  note S = store_inv_workflow_state [OF sys_invD(1) [OF assms(1)] assms(2,3)]
  show "task_table B (state c') = task_table B (state c)" by (rule S(2))
  show "sys_inv B c'"
    using S sys_invD [OF assms(1)] assms(4-7) by (simp add: sys_inv_def)
qed

lemma sys_inv_same:
  assumes "sys_inv B c" and "state c' = state c"
    and "readyQueue c' = readyQueue c" and "runningTasks c' = runningTasks c"
    and "assignedTasks c' = assignedTasks c" and "taskSpecCache c' = taskSpecCache c"
  shows "sys_inv B c'"
  using assms by (simp add: sys_inv_def)

lemma queue_invD:
  assumes "queue_inv T q" and "t \<in> set q"
  obtains r where "T t = Some r" "State r = TASK_QUEUED"
  using assms unfolding queue_inv_def by blast

lemma queue_inv_sub:
  assumes "queue_inv T q" and "distinct q'" and "set q' \<subseteq> set q"
  shows "queue_inv T q'"
  using assms unfolding queue_inv_def by blast

text \<open>What a change of the table must leave alone for the memory to stay right.\<close>

lemma queue_inv_step:
  assumes "queue_inv T q" and "\<And>t r. t \<in> set q \<Longrightarrow> T t = Some r \<Longrightarrow> \<exists>r'. T' t = Some r' \<and> State r' = State r"
  shows "queue_inv T' q"
  unfolding queue_inv_def
proof (intro conjI ballI)
  show "distinct q" using assms(1) by (simp add: queue_inv_def)
  fix t assume t: "t \<in> set q"
  from queue_invD [OF assms(1) t] obtain r where "T t = Some r" "State r = TASK_QUEUED" .
  with assms(2) [OF t] show "\<exists>r. T' t = Some r \<and> State r = TASK_QUEUED" by metis
qed

definition keeps_hold :: "TaskStateRecord \<Rightarrow> TaskStateRecord \<Rightarrow> bool" where
  "keeps_hold r r' \<longleftrightarrow> ExecutionID r' = ExecutionID r \<and> (State r' = State r \<or> State r' = TASK_SKIPPED)"

lemma held_step:
  assumes "held T t e" and "\<And>r. T t = Some r \<Longrightarrow> \<exists>r'. T' t = Some r' \<and> keeps_hold r r'"
    and "dep_count T' t \<le> dep_count T t"
  shows "held T' t e"
proof -
  from assms(1) obtain r where r: "T t = Some r" "ExecutionID r = e"
    "State r = TASK_RUNNING \<or> State r = TASK_SKIPPED" "dep_count T t = 0"
    unfolding held_def by blast
  from assms(2) [OF r(1)] obtain r' where "T' t = Some r'" "keeps_hold r r'" by blast
  with r assms(3) show ?thesis unfolding held_def keeps_hold_def by auto
qed

lemma assigned_inv_step:
  assumes "assigned_inv T running assigned"
    and "\<And>t e r. assigned t = Some e \<Longrightarrow> T t = Some r \<Longrightarrow> \<exists>r'. T' t = Some r' \<and> keeps_hold r r'"
    and "\<And>t. dep_count T' t \<le> dep_count T t"
  shows "assigned_inv T' running assigned"
  using assms(1) unfolding assigned_inv_def by (auto intro: held_step [OF _ assms(2) assms(3)])

lemma assigned_invD: "assigned_inv T running assigned \<Longrightarrow> assigned t = Some e \<Longrightarrow> held T t e"
  by (simp add: assigned_inv_def)

lemma assigned_inv_remove:
  "assigned_inv T running assigned \<Longrightarrow> assigned_inv T (running(t := None)) (assigned(t := None))"
  by (auto simp: assigned_inv_def)

lemma assigned_inv_add:
  assumes "assigned_inv T running assigned" and "held T t e"
  shows "assigned_inv T (running(t \<mapsto> w)) (assigned(t \<mapsto> e))"
  using assms by (auto simp: assigned_inv_def)

lemma held_not_queued: "queue_inv T q \<Longrightarrow> held T t e \<Longrightarrow> t \<notin> set q"
  by (auto simp: queue_inv_def held_def)

section \<open>Every handler keeps the invariant\<close>

text \<open>Outcome of a handler on the invariant and the task table, when it submits nothing.\<close>

definition keeps :: "'b bolt \<Rightarrow> 'b Coordinator \<Rightarrow> 'b Coordinator \<Rightarrow> bool" where
  "keeps B c c' \<longleftrightarrow>
     sys_inv B c' \<and> evolves (task_table B (state c)) (task_table B (state c')) \<and>
     spec_table B (state c') = spec_table B (state c) \<and> taskSpecCache c' = taskSpecCache c"

lemma keeps_refl: "sys_inv B c \<Longrightarrow> keeps B c c"
  by (simp add: keeps_def)

lemma keeps_trans [trans]: "keeps B a b \<Longrightarrow> keeps B b c \<Longrightarrow> keeps B a c"
  unfolding keeps_def by (auto intro: evolves_trans)

lemma keepsD: "keeps B c c' \<Longrightarrow> sys_inv B c'"
  by (simp add: keeps_def)

lemma keeps_same:
  assumes "sys_inv B c" and "state c' = state c"
    and "readyQueue c' = readyQueue c" and "runningTasks c' = runningTasks c"
    and "assignedTasks c' = assignedTasks c" and "taskSpecCache c' = taskSpecCache c"
  shows "keeps B c c'"
  using sys_inv_same [OF assms] assms by (simp add: keeps_def)

lemma keeps_tasks:
  assumes "sys_inv B c" and "only_tasks_changed (state c) (state c')" and "tasks_wf B (state c')"
    and "table_inv (task_table B (state c'))"
    and "evolves (task_table B (state c)) (task_table B (state c'))"
    and "queue_inv (task_table B (state c')) (readyQueue c')"
    and "assigned_inv (task_table B (state c')) (runningTasks c') (assignedTasks c')"
    and "taskSpecCache c' = taskSpecCache c"
  shows "keeps B c c'"
  using sys_inv_tasks [OF assms] assms(5,8) spec_table_cong [OF only_tasks_changedD(1) [OF assms(2)]]
  by (simp add: keeps_def)

lemma keeps_workflow_state:
  assumes "sys_inv B c" and "only_workflow_state_changed (state c) db'" and "workflows_wf B db'"
  shows "keeps B c (c\<lparr>state := db'\<rparr>)"
  using sys_inv_workflow_state [OF assms(1), of "c\<lparr>state := db'\<rparr>"] assms(2,3)
    spec_table_cong [OF only_workflow_state_changedD(2) [OF assms(2)]]
  by (simp add: keeps_def)

lemma sys_inv_pop:
  assumes "sys_inv B c" and "readyQueue c = t # rest"
  shows "sys_inv B (c\<lparr>readyQueue := rest\<rparr>)"
  using assms by (simp add: sys_inv_def queue_inv_def)

text \<open>A harmless change of one record.\<close>

lemma held_update:
  assumes "table_inv T" and "T t = Some r" and "harmless T t r r'" and "held T u e" and "u \<noteq> t"
  shows "held (T(t \<mapsto> r')) u e"
  using assms(4,5) harmless_update(3) [OF assms(1-3)] by (simp add: held_def)

lemma assigned_inv_update:
  assumes "table_inv T" and "T t = Some r" and "harmless T t r r'"
    and "assigned_inv T running assigned" and "assigned t = None"
  shows "assigned_inv (T(t \<mapsto> r')) running assigned"
proof -
  have "held (T(t \<mapsto> r')) u e" if "assigned u = Some e" for u e
    using that assms(5) assigned_invD [OF assms(4) that] by (intro held_update [OF assms(1-3)]) auto
  then show ?thesis using assms(4) by (simp add: assigned_inv_def)
qed

lemma queue_inv_update:
  assumes "queue_inv T q" and "t \<notin> set q"
  shows "queue_inv (T(t \<mapsto> r')) q"
  using assms by (auto simp: queue_inv_def)

text \<open>The new execution ids are no longer than the ones they replace, as UUIDs are.\<close>

definition ids_fit :: "table \<Rightarrow> string set \<Rightarrow> (nat \<Rightarrow> string) \<Rightarrow> bool" where
  "ids_fit T A uuid \<longleftrightarrow> (\<forall>t\<in>A. \<forall>r i. T t = Some r \<longrightarrow> length (uuid i) \<le> length (ExecutionID r))"

text \<open>A task that may go back to the queue: in nobody's hands, unfinished, nothing open.\<close>

definition requeueable :: "'b bolt \<Rightarrow> 'b Coordinator \<Rightarrow> string \<Rightarrow> bool" where
  "requeueable B c t \<longleftrightarrow>
     assignedTasks c t = None \<and> t \<notin> set (readyQueue c) \<and>
     (\<exists>r. task_table B (state c) t = Some r \<and> State r \<noteq> TASK_COMPLETE) \<and>
     dep_count (task_table B (state c)) t = 0"

text \<open>A record that \<^verbatim>\<open>RequeueTask\<close> has written: QUEUED, under the execution id it was given.\<close>

definition requeued :: "string \<Rightarrow> i64 \<Rightarrow> TaskStateRecord \<Rightarrow> TaskStateRecord" where
  "requeued e now r = r\<lparr>State := TASK_QUEUED, ExecutionID := e, LastUpdated := now\<rparr>"

text \<open>
  Of the tasks \<open>ids\<close>, those in \<open>qs\<close> were requeued, each under the UUID drawn in its own round of the
  loop, which starts with round \<open>i\<close>; no other record changed.
\<close>

definition requeues ::
    "clock \<Rightarrow> (nat \<Rightarrow> string) \<Rightarrow> nat \<Rightarrow> string list \<Rightarrow> string list \<Rightarrow> table \<Rightarrow> table \<Rightarrow> bool" where
  "requeues clk uuid i ids qs T T' \<longleftrightarrow>
     (\<forall>t. t \<notin> set qs \<longrightarrow> T' t = T t) \<and>
     (\<forall>j<length ids. ids ! j \<in> set qs \<longrightarrow>
        (\<exists>r. T (ids ! j) = Some r \<and> T' (ids ! j) = Some (requeued (uuid (i + j)) (clk (i + j)) r)))"

lemma requeues_skip:
  assumes "requeues clk uuid (Suc i) ids qs T T'" and "t \<notin> set qs"
  shows "requeues clk uuid i (t # ids) qs T T'"
  using assms by (auto simp: requeues_def nth_Cons split: nat.splits)

lemma requeues_Cons:
  assumes "requeues clk uuid (Suc i) ids qs (T(t \<mapsto> requeued (uuid i) (clk i) r)) T'" and "T t = Some r"
    and "t \<notin> set ids" and "set qs \<subseteq> set ids"
  shows "requeues clk uuid i (t # ids) (t # qs) T T'"
proof -
  have "t \<notin> set qs" using assms(3,4) by blast
  with assms(1-3) show ?thesis
    unfolding requeues_def by (auto simp: nth_Cons split: nat.splits if_splits)
qed

text \<open>All of them were requeued.\<close>

lemma requeues_all:
  assumes "requeues clk uuid 0 ids ids T T'"
  shows "j < length ids \<Longrightarrow> \<exists>r. T (ids ! j) = Some r \<and>
      T' (ids ! j) = Some (r\<lparr>State := TASK_QUEUED, ExecutionID := uuid j, LastUpdated := clk j\<rparr>)"
    and "t \<notin> set ids \<Longrightarrow> T' t = T t"
  using assms by (auto simp: requeues_def requeued_def)

lemma requeues_all_state:
  assumes "requeues clk uuid 0 ids ids T T'" and "t \<in> set ids"
  shows "\<exists>r. T' t = Some r \<and> State r = TASK_QUEUED"
proof -
  from assms(2) obtain j where "j < length ids" "ids ! j = t" unfolding in_set_conv_nth by blast
  with requeues_all(1) [OF assms(1), of j] show ?thesis by auto
qed

lemma enqueue_fields [simp]:
  "state (enqueue ids c) = state c" "readyQueue (enqueue ids c) = readyQueue c @ ids"
  "runningTasks (enqueue ids c) = runningTasks c" "assignedTasks (enqueue ids c) = assignedTasks c"
  "taskSpecCache (enqueue ids c) = taskSpecCache c" "taskWorkflowMap (enqueue ids c) = taskWorkflowMap c"
  "workflowFailurePolicy (enqueue ids c) = workflowFailurePolicy c"
  "heartbeat (enqueue ids c) = heartbeat c" "metrics (enqueue ids c) = metrics c"
  by (simp_all add: enqueue_def)

lemma unassign_fields [simp]:
  "state (unassign t c) = state c" "readyQueue (unassign t c) = readyQueue c"
  "runningTasks (unassign t c) = (runningTasks c)(t := None)"
  "assignedTasks (unassign t c) = (assignedTasks c)(t := None)"
  "taskSpecCache (unassign t c) = taskSpecCache c" "taskWorkflowMap (unassign t c) = taskWorkflowMap c"
  "workflowFailurePolicy (unassign t c) = workflowFailurePolicy c"
  "heartbeat (unassign t c) = heartbeat c" "metrics (unassign t c) = metrics c"
  by (simp_all add: unassign_def)

lemma unassign_keeps:
  assumes "sys_inv B c"
  shows "keeps B c (unassign t c)"
  using assms assigned_inv_remove [OF sys_invD(3) [OF assms]]
  by (simp add: keeps_def sys_inv_def)

lemma unassign_requeueable:
  assumes "sys_inv B c" and "assignedTasks c t = Some e"
  shows "requeueable B (unassign t c) t"
  using assigned_invD [OF sys_invD(3) [OF assms(1)] assms(2)] held_not_queued [OF sys_invD(2) [OF assms(1)]]
  by (auto simp: requeueable_def held_def)

lemma requeue_one_keeps:
  assumes inv: "sys_inv B c" and ok: "requeueable B c t" and r: "task_table B (state c) t = Some r"
    and T': "task_table B db' = (task_table B (state c))(t \<mapsto> r\<lparr>State := TASK_QUEUED, ExecutionID := e, LastUpdated := now\<rparr>)"
    and db: "tasks_wf B db'" "only_tasks_changed (state c) db'"
  shows "keeps B c (enqueue [t] (c\<lparr>state := db'\<rparr>))"
    and "dep_count (task_table B db') = dep_count (task_table B (state c))"
proof -
  let ?r' = "r\<lparr>State := TASK_QUEUED, ExecutionID := e, LastUpdated := now\<rparr>" and ?T = "task_table B (state c)"
  note S = store_invD [OF sys_invD(1) [OF inv]]
  have na: "assignedTasks c t = None" and nq: "t \<notin> set (readyQueue c)"
    and h: "harmless ?T t r ?r'"
    using ok r by (auto simp: requeueable_def harmless_def evolves_rec_def)
  note H = harmless_update [OF S(3) r h]
  have "queue_inv (?T(t \<mapsto> ?r')) (readyQueue c @ [t])"
    using queue_inv_update [OF sys_invD(2) [OF inv] nq, of ?r'] nq by (simp add: queue_inv_def)
  moreover have "assigned_inv (?T(t \<mapsto> ?r')) (runningTasks c) (assignedTasks c)"
    using assigned_inv_update [OF S(3) r h sys_invD(3) [OF inv] na] .
  ultimately show "keeps B c (enqueue [t] (c\<lparr>state := db'\<rparr>))"
    using H(1,2) db by (intro keeps_tasks [OF inv]) (simp_all add: T')
  show "dep_count (task_table B db') = dep_count ?T" using H(3) by (simp add: T')
qed

lemma unassign_all_fields:
  "state (fold unassign ids c) = state c" "readyQueue (fold unassign ids c) = readyQueue c"
  "taskSpecCache (fold unassign ids c) = taskSpecCache c"
  "assignedTasks (fold unassign ids c) t = (if t \<in> set ids then None else assignedTasks c t)"
  "runningTasks (fold unassign ids c) t = (if t \<in> set ids then None else runningTasks c t)"
  by (induction ids arbitrary: c) auto

lemma unassign_all_keeps: "sys_inv B c \<Longrightarrow> keeps B c (fold unassign ids c)"
proof (induction ids arbitrary: c)
  case (Cons t ids)
  then show ?case using unassign_keeps [OF Cons.prems, of t] keeps_trans keepsD by fastforce
qed (simp add: keeps_refl)

lemma unassign_all_requeueable:
  assumes "sys_inv B c" and "t \<in> set ids" and "assignedTasks c t = Some e"
  shows "requeueable B (fold unassign ids c) t"
  using assms unassign_requeueable [OF assms(1,3)]
  by (simp add: requeueable_def unassign_all_fields)

lemma drop_worker_fields [simp]:
  "state (drop_worker w n c) = state c" "readyQueue (drop_worker w n c) = readyQueue c"
  "runningTasks (drop_worker w n c) = runningTasks c" "assignedTasks (drop_worker w n c) = assignedTasks c"
  "taskSpecCache (drop_worker w n c) = taskSpecCache c"
  "heartbeat (drop_worker w n c) = forget_worker w (heartbeat c)"
  by (simp_all add: drop_worker_def HeartbeatMonitor_RemoveWorker_def Let_def)

lemma count_dead_worker_fields [simp]:
  "state (count_dead_worker now c) = state c" "readyQueue (count_dead_worker now c) = readyQueue c"
  "runningTasks (count_dead_worker now c) = runningTasks c"
  "assignedTasks (count_dead_worker now c) = assignedTasks c"
  "taskSpecCache (count_dead_worker now c) = taskSpecCache c"
  "heartbeat (count_dead_worker now c) = heartbeat c"
  by (simp_all add: count_dead_worker_def)

lemma dequeue_fields [simp]:
  "state (dequeue_all ids c) = state c"
  "readyQueue (dequeue_all ids c) = filter (\<lambda>id. id \<notin> set ids) (readyQueue c)"
  "runningTasks (dequeue_all ids c) = runningTasks c" "assignedTasks (dequeue_all ids c) = assignedTasks c"
  "taskSpecCache (dequeue_all ids c) = taskSpecCache c" "taskWorkflowMap (dequeue_all ids c) = taskWorkflowMap c"
  "workflowFailurePolicy (dequeue_all ids c) = workflowFailurePolicy c"
  by (simp_all add: dequeue_all_def)

text \<open>A failure policy leaves a record alone, or skips a task that is not finished.\<close>

definition may_skip :: "TaskStateRecord \<Rightarrow> TaskStateRecord \<Rightarrow> bool" where
  "may_skip r r' \<longleftrightarrow> (\<exists>b. skips b r r')"

lemma may_skip_refl [simp]: "may_skip r r"
  by (auto simp: may_skip_def skips_def intro: exI [of _ False])

lemma may_skip_options [simp]: "rel_option may_skip x x"
  by (cases x) simp_all

lemma cancels_skips: "cancels w r r' \<Longrightarrow> skips (cancellable w r) r r'"
  by (auto simp: skips_def cancels_def cancellable_def split: if_splits)

lemma may_skipI:
  "rel_option (skips b) x y \<Longrightarrow> rel_option may_skip x y" "rel_option (cancels w) x y \<Longrightarrow> rel_option may_skip x y"
  by (cases x; cases y; auto simp: may_skip_def intro: cancels_skips)+

text \<open>Skipping a set of unfinished tasks and taking them off the queue.\<close>

lemma skips_harmless:
  assumes "table_inv T" and "T t = Some r" and "skips b r r'"
  shows "harmless T t r r'" and "keeps_hold r r'" and "\<not> b \<Longrightarrow> r' = r"
proof -
  show "harmless T t r r'"
  proof (cases b)
    case True
    with assms(3) obtain now where "\<not> terminal (State r)" "r' = r\<lparr>State := TASK_SKIPPED, LastUpdated := now\<rparr>"
      by (auto simp: skips_def)
    then show ?thesis by (auto simp: harmless_def evolves_rec_def active_def terminal_def)
  next
    case False
    with assms(3) have "r' = r" by (simp add: skips_def)
    then show ?thesis using harmless_refl [OF assms(1,2)] by simp
  qed
  show "keeps_hold r r'" using assms(3) by (auto simp: skips_def keeps_hold_def split: if_splits)
  show "r' = r" if "\<not> b" using assms(3) that by (simp add: skips_def)
qed

lemma skipping_keeps:
  assumes inv: "sys_inv B c"
    and rel: "\<And>t. rel_option (skips (t \<in> set ids)) (task_table B (state c) t) (task_table B db' t)"
    and db: "tasks_wf B db'" "only_tasks_changed (state c) db'"
  shows "keeps B c (dequeue_all ids (c\<lparr>state := db'\<rparr>))"
proof -
  let ?T = "task_table B (state c)" and ?T' = "task_table B db'"
  let ?c' = "dequeue_all ids (c\<lparr>state := db'\<rparr>)"
  note S = store_invD [OF sys_invD(1) [OF inv]]
  have rec: "\<exists>r'. ?T' t = Some r' \<and> harmless ?T t r r' \<and> keeps_hold r r' \<and> (t \<notin> set ids \<longrightarrow> r' = r)"
    if "?T t = Some r" for t r
    using rel [of t] skips_harmless [OF S(3) that] that by (auto simp: option_rel_Some1)
  have "rel_option (harmless ?T t) (?T t) (?T' t)" for t
    using rel [of t] rec [of t] by (cases "?T t") auto
  note H = harmless_step [OF S(3) this]
  show ?thesis
  proof (rule keeps_tasks [OF inv])
    have "queue_inv ?T (filter (\<lambda>id. id \<notin> set ids) (readyQueue c))"
      using sys_invD(2) [OF inv] by (auto simp: queue_inv_def)
    then have "queue_inv ?T' (filter (\<lambda>id. id \<notin> set ids) (readyQueue c))"
      by (rule queue_inv_step) (use rec in fastforce)
    then show "queue_inv (task_table B (state ?c')) (readyQueue ?c')" by simp
    have "assigned_inv ?T' (runningTasks c) (assignedTasks c)"
      using sys_invD(3) [OF inv] by (rule assigned_inv_step) (use rec in blast, simp add: H(3))
    then show "assigned_inv (task_table B (state ?c')) (runningTasks ?c') (assignedTasks ?c')" by simp
  qed (use H(1,2) db in simp_all)
qed

lemma dequeue_none [simp]: "dequeue_all [] c = c"
  by (simp add: dequeue_all_def)

lemma retry_fields [simp]:
  "state (retry_task t c) = state c" "readyQueue (retry_task t c) = readyQueue c @ [t]"
  "runningTasks (retry_task t c) = (runningTasks c)(t := None)"
  "assignedTasks (retry_task t c) = (assignedTasks c)(t := None)"
  "taskSpecCache (retry_task t c) = taskSpecCache c"
  by (simp_all add: retry_task_def set_QueueDepth_def Let_def)

lemma count_failure_fields [simp]:
  "state (count_failure w c) = state c" "readyQueue (count_failure w c) = readyQueue c"
  "runningTasks (count_failure w c) = runningTasks c" "assignedTasks (count_failure w c) = assignedTasks c"
  "taskSpecCache (count_failure w c) = taskSpecCache c"
  by (simp_all add: count_failure_def)

context bolt_spec
begin

lemma GetReadyTask_keeps:
  assumes inv: "sys_inv B c"
  obtains c' res where "GetReadyTask B now uuid c workerID = (c', Inr res)" "keeps B c c'"
proof (cases "readyQueue c")
  case Nil
  then have "GetReadyTask B now uuid c workerID = (c, Inr None)" by (simp add: GetReadyTask_def)
  with that keeps_refl [OF inv] show ?thesis by blast
next
  case (Cons t rest)
  let ?T = "task_table B (state c)" and ?c1 = "c\<lparr>readyQueue := rest\<rparr>"
  note S = store_invD [OF sys_invD(1) [OF inv]] and inv1 = sys_inv_pop [OF inv Cons]
  have pop: "keeps B c ?c1" using inv1 by (simp add: keeps_def)
  show ?thesis
  proof (cases "taskSpecCache c t")
    case None
    with Cons have "GetReadyTask B now uuid c workerID = (?c1, Inr None)" by (simp add: GetReadyTask_def)
    with that pop show ?thesis by blast
  next
    case (Some spec)
    from S(1) show ?thesis
    proof (cases rule: AssignTask_cases [of "state c" now t uuid])
      case (error er)
      with Cons Some have "GetReadyTask B now uuid c workerID = (?c1, Inr None)"
        by (simp add: GetReadyTask_def Let_def)
      with that pop show ?thesis by blast
    next
      case (ok db' r)
      let ?r' = "r\<lparr>State := TASK_RUNNING, ExecutionID := uuid, LastUpdated := now\<rparr>"
      have tq: "t \<in> set (readyQueue c)" "t \<notin> set rest"
        using Cons sys_invD(2) [OF inv] by (simp_all add: queue_inv_def)
      have rq: "State r = TASK_QUEUED" using queue_invD [OF sys_invD(2) [OF inv] tq(1)] ok(2) by auto
      have z: "dep_count ?T t = 0" using table_invD(5) [OF S(3) ok(2)] rq by (simp add: active_def)
      have h: "harmless ?T t r ?r'" using rq z by (simp add: harmless_def evolves_rec_def active_def)
      note H = harmless_update [OF S(3) ok(2) h]
      have na: "assignedTasks c t = None"
        using held_not_queued [OF sys_invD(2) [OF inv] assigned_invD [OF sys_invD(3) [OF inv]]] tq(1)
        by (cases "assignedTasks c t") auto
      let ?c2 = "set_QueueDepth (?c1\<lparr>state := db', runningTasks := (runningTasks c)(t \<mapsto> workerID),
                    assignedTasks := (assignedTasks c)(t \<mapsto> uuid)\<rparr>)"
      have "keeps B c ?c2"
      proof (rule keeps_tasks [OF inv])
        show "queue_inv (task_table B (state ?c2)) (readyQueue ?c2)"
          using queue_inv_update [OF sys_invD(2) [OF inv1]] tq(2) ok(3) by (simp add: set_QueueDepth_def)
        show "assigned_inv (task_table B (state ?c2)) (runningTasks ?c2) (assignedTasks ?c2)"
          using assigned_inv_add [OF assigned_inv_update [OF S(3) ok(2) h sys_invD(3) [OF inv] na], of t uuid] z H(3)
          by (simp add: set_QueueDepth_def ok(3) held_def)
      qed (use ok(3-5) H in \<open>simp_all add: set_QueueDepth_def\<close>)
      moreover have "GetReadyTask B now uuid c workerID =
          (?c2, Inr (Some \<lparr>ta_TaskId = t, ta_ExecutionId = uuid, ta_Command = Command spec,
                          ta_Env = Env spec, ta_TimeoutSeconds = TimeoutSeconds spec\<rparr>))"
        using Cons Some ok(1) by (simp add: GetReadyTask_def Let_def)
      ultimately show ?thesis using that by blast
    qed
  qed
qed

text \<open>
  \<^verbatim>\<open>checkWorkflowCompletion\<close>: nothing while a task of the workflow is unfinished; FAILED if one
  of its tasks failed and COMPLETE otherwise; nothing if the update cannot be committed.
\<close>

lemma checkWorkflowCompletion_cases:
  assumes "tasks_wf B (state c)" and "workflows_wf B (state c)"
  obtains
    (unfinished) t r where "task_table B (state c) t = Some r" "WorkflowID r = w" "\<not> terminal (State r)"
      "checkWorkflowCompletion B clk c w = (c, Inr ())"
  | (finished) db' where
      "\<And>t r. task_table B (state c) t = Some r \<Longrightarrow> WorkflowID r = w \<Longrightarrow> terminal (State r)"
      "checkWorkflowCompletion B clk c w = (c\<lparr>state := db'\<rparr>, Inr ())"
      "wf_table B db' = (wf_table B (state c))(w \<mapsto> set_workflow_state clk w
         (if \<exists>t r. task_table B (state c) t = Some r \<and> WorkflowID r = w \<and> State r = TASK_FAILED
          then WORKFLOW_FAILED else WORKFLOW_COMPLETE) (wf_table B (state c) w))"
      "workflows_wf B db'" "only_workflow_state_changed (state c) db'"
  | (dropped) "checkWorkflowCompletion B clk c w = (c, Inr ())"
      "\<not> (reliable B \<and> w \<in> dom (wf_table B (state c)))"
proof (cases "\<forall>t r. task_table B (state c) t = Some r \<longrightarrow> WorkflowID r = w \<longrightarrow> terminal (State r)")
  case False
  then have "IsWorkflowComplete B (state c) w = (False, None)"
    by (simp add: IsWorkflowComplete_table [OF assms(1)])
  then have "checkWorkflowCompletion B clk c w = (c, Inr ())" by (simp add: checkWorkflowCompletion_def)
  with False show thesis using unfinished by blast
next
  case True
  then have complete: "IsWorkflowComplete B (state c) w = (True, None)"
    by (simp add: IsWorkflowComplete_table [OF assms(1)])
  obtain sts where sts: "GetTaskStatusesForWorkflow B (state c) w = (sts, None)"
    "set sts = {status_of r | t r. task_table B (state c) t = Some r \<and> WorkflowID r = w}"
    by (rule GetTaskStatusesForWorkflow_table [OF assms(1)])
  have st: "ts_State (status_of r) = State r" for r by (simp add: status_of_def)
  have "(\<exists>ts\<in>set sts. ts_State ts = TASK_FAILED) \<longleftrightarrow>
      (\<exists>t r. task_table B (state c) t = Some r \<and> WorkflowID r = w \<and> State r = TASK_FAILED)"
  proof
    assume "\<exists>ts\<in>set sts. ts_State ts = TASK_FAILED"
    then obtain t r where "task_table B (state c) t = Some r" "WorkflowID r = w"
      "ts_State (status_of r) = TASK_FAILED" unfolding sts(2) by blast
    then show "\<exists>t r. task_table B (state c) t = Some r \<and> WorkflowID r = w \<and> State r = TASK_FAILED"
      unfolding st by blast
  next
    assume "\<exists>t r. task_table B (state c) t = Some r \<and> WorkflowID r = w \<and> State r = TASK_FAILED"
    then obtain t r where r: "task_table B (state c) t = Some r" "WorkflowID r = w" "State r = TASK_FAILED"
      by blast
    then have "status_of r \<in> set sts" unfolding sts(2) by blast
    with r(3) st show "\<exists>ts\<in>set sts. ts_State ts = TASK_FAILED" by (intro bexI [of _ "status_of r"]) simp_all
  qed
  then have fin: "final_state sts =
      (if \<exists>t r. task_table B (state c) t = Some r \<and> WorkflowID r = w \<and> State r = TASK_FAILED
       then WORKFLOW_FAILED else WORKFLOW_COMPLETE)"
    by (simp add: final_state_def)
  have canon: "canonical_workflow_state (final_state sts)" by (simp add: final_state_def)
  from assms(2) canon show thesis
  proof (cases rule: UpdateWorkflowState_cases [of "state c" "final_state sts" clk w])
    case (ok db')
    with complete sts(1) have "checkWorkflowCompletion B clk c w = (c\<lparr>state := db'\<rparr>, Inr ())"
      by (simp add: checkWorkflowCompletion_def)
    with True ok show thesis using finished [of db'] unfolding fin by blast
  next
    case (error m)
    with complete sts(1) have "checkWorkflowCompletion B clk c w = (c, Inr ())"
      by (simp add: checkWorkflowCompletion_def fatal_def)
    with error(2) show thesis using dropped by blast
  qed
qed

lemma checkWorkflowCompletion_keeps:
  assumes inv: "sys_inv B c"
  obtains c' where "checkWorkflowCompletion B clk c w = (c', Inr ())" "keeps B c c'"
    "task_table B (state c') = task_table B (state c)" "readyQueue c' = readyQueue c"
    "assignedTasks c' = assignedTasks c" "runningTasks c' = runningTasks c"
proof -
  note S = store_invD [OF sys_invD(1) [OF inv]]
  note that' = that [OF _ keeps_refl [OF inv]]
  from S(1,2) show thesis
  proof (cases rule: checkWorkflowCompletion_cases [of c w clk])
    case (finished db')
    with keeps_workflow_state [OF inv finished(5,4)] store_inv_workflow_state(2) [OF sys_invD(1) [OF inv] finished(5,4)]
    show thesis using that [of "c\<lparr>state := db'\<rparr>"] by simp
  qed (use that' in simp_all)
qed

lemma finish_fields [simp]:
  "state (CompleteTask_finish t ready c) = state c"
  "readyQueue (CompleteTask_finish t ready c) = readyQueue c @ ready"
  "runningTasks (CompleteTask_finish t ready c) = (runningTasks c)(t := None)"
  "assignedTasks (CompleteTask_finish t ready c) = (assignedTasks c)(t := None)"
  "taskSpecCache (CompleteTask_finish t ready c) = taskSpecCache c"
  "taskWorkflowMap (CompleteTask_finish t ready c) = taskWorkflowMap c"
  by (simp_all add: CompleteTask_finish_def set_QueueDepth_def enqueue_def unassign_def Let_def)

lemma completed_keeps:
  assumes inv: "sys_inv B c" and held: "held (task_table B (state c)) t e"
    and r: "task_table B (state c) t = Some r" "State r \<noteq> TASK_COMPLETE"
    and dec: "abs_decrement clk 1 (DownstreamTaskIDs r)
         ((task_table B (state c))(t \<mapsto> r\<lparr>State := TASK_COMPLETE, Output := out, LastUpdated := clk 0\<rparr>)) []
       = (task_table B db', ready)"
    and db: "tasks_wf B db'" "only_tasks_changed (state c) db'"
  shows "keeps B c (CompleteTask_finish t ready (c\<lparr>state := db'\<rparr>))"
proof -
  let ?T = "task_table B (state c)" and ?T' = "task_table B db'"
  let ?c' = "CompleteTask_finish t ready (c\<lparr>state := db'\<rparr>)"
  note S = store_invD [OF sys_invD(1) [OF inv]]
  have step: "table_inv ?T'" "evolves ?T ?T'" "distinct ready"
    "v \<in> set ready \<longleftrightarrow> (\<exists>s s'. ?T v = Some s \<and> ?T' v = Some s' \<and> State s = TASK_PENDING \<and> State s' = TASK_QUEUED)"
    "?T v = Some s \<Longrightarrow> ?T' v = Some s' \<Longrightarrow> v \<noteq> t \<Longrightarrow> State s \<noteq> TASK_PENDING \<Longrightarrow> s' = s"
    "dep_count ?T' v \<le> dep_count ?T v" for v s s'
    using complete_step [OF S(3) r _ _ _ _ dec] held by (simp_all add: held_def)
  have same: "?T' v = Some s" if "?T v = Some s" "v \<noteq> t" "State s \<noteq> TASK_PENDING" for v s
    using evolvesD [OF step(2) that(1)] step(5) [OF that(1) _ that(2,3)] by metis
  have tq: "t \<notin> set (readyQueue c)" using held_not_queued [OF sys_invD(2) [OF inv] held] .
  show ?thesis
  proof (rule keeps_tasks [OF inv])
    show "queue_inv (task_table B (state ?c')) (readyQueue ?c')"
      unfolding queue_inv_def
    proof (intro conjI ballI)
      have "v \<notin> set ready" if v: "v \<in> set (readyQueue c)" for v
        using queue_invD [OF sys_invD(2) [OF inv] v] step(4) by fastforce
      then show "distinct (readyQueue ?c')"
        using sys_invD(2) [OF inv] step(3) by (auto simp: queue_inv_def)
      fix v assume v: "v \<in> set (readyQueue ?c')"
      show "\<exists>s. task_table B (state ?c') v = Some s \<and> State s = TASK_QUEUED"
      proof (cases "v \<in> set ready")
        case True
        then show ?thesis using step(4) by auto
      next
        case False
        with v have v: "v \<in> set (readyQueue c)" by simp
        then obtain s where s: "?T v = Some s" "State s = TASK_QUEUED"
          by (rule queue_invD [OF sys_invD(2) [OF inv]])
        have "v \<noteq> t" using v tq by blast
        with s same [OF s(1)] show ?thesis by simp
      qed
    qed
    have "held ?T' v e'" if v: "v \<noteq> t" "assignedTasks c v = Some e'" for v e'
    proof (rule held_step [OF assigned_invD [OF sys_invD(3) [OF inv] v(2)] _ step(6)])
      fix s assume s: "?T v = Some s"
      have "State s \<noteq> TASK_PENDING"
        using assigned_invD [OF sys_invD(3) [OF inv] v(2)] s by (auto simp: held_def)
      from same [OF s v(1) this] show "\<exists>s'. ?T' v = Some s' \<and> keeps_hold s s'"
        by (auto simp: keeps_hold_def)
    qed
    then show "assigned_inv (task_table B (state ?c')) (runningTasks ?c') (assignedTasks ?c')"
      using sys_invD(3) [OF inv] by (auto simp: assigned_inv_def)
  qed (use step(1,2) db in simp_all)
qed

text \<open>A report of an execution that is not the assigned one.\<close>

lemma CompleteTask_unassigned:
  assumes "tasks_wf B (state c)" and "assignedTasks c t \<noteq> Some e"
  obtains
    (stale) er where "er = ErrTaskNotFound \<or> er = ErrStaleExecution" "Coordinator_CompleteTask B clk c t e out = (c, Inl er)"
  | (repeated) r where "assignedTasks c t = None" "task_table B (state c) t = Some r"
      "State r = TASK_COMPLETE" "ExecutionID r = e" "Coordinator_CompleteTask B clk c t e out = (c, Inr ())"
proof (cases "assignedTasks c t = None")
  case None: True
  show thesis
  proof (cases "\<exists>r. task_table B (state c) t = Some r \<and> State r = TASK_COMPLETE \<and> ExecutionID r = e")
    case True
    with None show thesis
      using repeated by (auto simp: Coordinator_CompleteTask_def CompleteTask_admit_def GetTask_table [OF assms(1)])
  next
    case False
    then have "CompleteTask_admit B c t e = Reply (Inl (case task_table B (state c) t of
        None \<Rightarrow> ErrTaskNotFound | Some _ \<Rightarrow> ErrStaleExecution))"
      using None by (auto simp: CompleteTask_admit_def GetTask_table [OF assms(1)] split: option.splits)
    then show thesis
      using stale by (simp add: Coordinator_CompleteTask_def split: option.splits)
  qed
next
  case False
  with assms(2) show thesis using stale
    by (auto simp: Coordinator_CompleteTask_def CompleteTask_admit_def)
qed

text \<open>What a committed completion does to the table of tasks.\<close>

lemma completed_table:
  assumes "table_inv T" and "held T t e" and "T t = Some r" and "State r \<noteq> TASK_COMPLETE"
    and "abs_decrement clk 1 (DownstreamTaskIDs r) (T(t \<mapsto> r\<lparr>State := TASK_COMPLETE, Output := out, LastUpdated := now\<rparr>)) [] = (T', ready)"
  shows "T' t = Some (r\<lparr>State := TASK_COMPLETE, Output := out, LastUpdated := now\<rparr>)"
    and "v \<in> set ready \<longleftrightarrow> (\<exists>s s'. T v = Some s \<and> T' v = Some s' \<and> State s = TASK_PENDING \<and> State s' = TASK_QUEUED)"
    and "v \<in> set ready \<longleftrightarrow> v \<in> set (DownstreamTaskIDs r) \<and> (\<exists>s. T v = Some s \<and> State s = TASK_PENDING) \<and> dep_count T' v = 0"
    and "v \<noteq> t \<Longrightarrow> T v = Some s \<Longrightarrow> State s \<noteq> TASK_PENDING \<Longrightarrow> T' v = Some s"
proof -
  note step = complete_step [OF assms(1,3,4) _ _ _ _ assms(5)]
  show "T' t = Some (r\<lparr>State := TASK_COMPLETE, Output := out, LastUpdated := now\<rparr>)"
    "v \<in> set ready \<longleftrightarrow> (\<exists>s s'. T v = Some s \<and> T' v = Some s' \<and> State s = TASK_PENDING \<and> State s' = TASK_QUEUED)"
    "v \<in> set ready \<longleftrightarrow> v \<in> set (DownstreamTaskIDs r) \<and> (\<exists>s. T v = Some s \<and> State s = TASK_PENDING) \<and> dep_count T' v = 0"
    using step(5,4) completion_releases [OF assms(1,3,4) _ _ _ assms(5)] assms(2) by (simp_all add: held_def)
  have ev: "evolves T T'" and keep: "T v = Some s \<Longrightarrow> T' v = Some s' \<Longrightarrow> v \<noteq> t \<Longrightarrow> State s \<noteq> TASK_PENDING \<Longrightarrow> s' = s" for s'
    using step(2,6) assms(2) by (simp_all add: held_def)
  show "T' v = Some s" if "v \<noteq> t" "T v = Some s" "State s \<noteq> TASK_PENDING"
    using evolvesD [OF ev that(2)] keep [OF that(2) _ that(1,3)] by metis
qed

lemma Coordinator_CompleteTask_cases:
  assumes inv: "sys_inv B c"
  obtains
    (stale) er where "assignedTasks c t \<noteq> Some e" "er = ErrTaskNotFound \<or> er = ErrStaleExecution"
      "Coordinator_CompleteTask B clk c t e out = (c, Inl er)"
  | (repeated) r where "assignedTasks c t = None" "task_table B (state c) t = Some r"
      "State r = TASK_COMPLETE" "ExecutionID r = e"
      "Coordinator_CompleteTask B clk c t e out = (c, Inr ())"
  | (dropped) m where "assignedTasks c t = Some e"
      "Coordinator_CompleteTask B clk c t e out = (c, Inl (LibErr m))"
  | (completed) c' r ready where "assignedTasks c t = Some e" "task_table B (state c) t = Some r"
      "State r \<noteq> TASK_COMPLETE" "Coordinator_CompleteTask B clk c t e out = (c', Inr ())" "keeps B c c'"
      "task_table B (state c') t = Some (r\<lparr>State := TASK_COMPLETE, Output := out, LastUpdated := clk 0 0\<rparr>)"
      "assignedTasks c' = (assignedTasks c)(t := None)" "readyQueue c' = readyQueue c @ ready"
      "\<And>v. v \<in> set ready \<longleftrightarrow> (\<exists>s s'. task_table B (state c) v = Some s \<and>
          task_table B (state c') v = Some s' \<and> State s = TASK_PENDING \<and> State s' = TASK_QUEUED)"
      "\<And>v. v \<in> set ready \<longleftrightarrow> v \<in> set (DownstreamTaskIDs r) \<and>
          (\<exists>s. task_table B (state c) v = Some s \<and> State s = TASK_PENDING) \<and>
          dep_count (task_table B (state c')) v = 0"
      "\<And>v s. v \<noteq> t \<Longrightarrow> task_table B (state c) v = Some s \<Longrightarrow> State s \<noteq> TASK_PENDING \<Longrightarrow>
          task_table B (state c') v = Some s"
proof (cases "assignedTasks c t = Some e")
  case False
  have "tasks_wf B (state c)" using store_invD(1) [OF sys_invD(1) [OF inv]] .
  from this False show thesis
    by (rule CompleteTask_unassigned [of c t e clk out]) (use False stale repeated in blast)+
next
  case asg: True
  let ?T = "task_table B (state c)"
  note S = store_invD [OF sys_invD(1) [OF inv]]
  note that_completed = completed
  have held: "held ?T t e" using assigned_invD [OF sys_invD(3) [OF inv] asg] .
  then obtain r0 where r0: "?T t = Some r0" "ExecutionID r0 = e" "State r0 \<noteq> TASK_COMPLETE"
    by (auto simp: held_def)
  have admit: "CompleteTask_admit B c t e = Proceed" using asg by (simp add: CompleteTask_admit_def)
  from S(1) show thesis
  proof (cases rule: CompleteTask_cases [of "state c" t "clk 0" e out])
    case (failed m)
    with admit asg show thesis using dropped by (simp add: Coordinator_CompleteTask_def)
  next
    case (completed db' r ready)
    let ?c1 = "CompleteTask_finish t ready (c\<lparr>state := db'\<rparr>)"
    have k: "keeps B c ?c1"
      using inv held completed(1,3,5,6,7) by (rule completed_keeps)
    note step = completed_table [OF S(3) held completed(1,3,5)]
    obtain c' where c': "checkWorkflowCompletion B (clk 1) ?c1 (taskWorkflowID ?c1 t) = (c', Inr ())"
      "keeps B ?c1 c'" "task_table B (state c') = task_table B (state ?c1)"
      "readyQueue c' = readyQueue ?c1" "assignedTasks c' = assignedTasks ?c1"
      by (rule checkWorkflowCompletion_keeps [OF keepsD [OF k]])
    let ?c2 = "if taskWorkflowID ?c1 t \<noteq> [] then c' else ?c1"
    have "Coordinator_CompleteTask B clk c t e out = (?c2, Inr ())"
      using admit completed(4) c'(1) by (simp add: Coordinator_CompleteTask_def Let_def)
    moreover have "keeps B c ?c2" using k keeps_trans [OF k c'(2)] by simp
    ultimately show thesis
      using that_completed [OF asg completed(1,3), of ?c2 ready] step(1-3) step(4) c'(3-5) by simp
  qed (use r0 in simp_all)
qed

text \<open>What the requeueing loop does to the store and the queue, in any state of the memory.\<close>

lemma requeue_all_table:
  assumes "tasks_wf B (state c)" and "distinct ids"
  shows "\<exists>c' qs. requeue_all B clk uuid i ids c = (c', Inr ()) \<and>
    tasks_wf B (state c') \<and> only_tasks_changed (state c) (state c') \<and>
    readyQueue c' = readyQueue c @ qs \<and> distinct qs \<and> set qs \<subseteq> set ids \<and>
    assignedTasks c' = assignedTasks c \<and> runningTasks c' = runningTasks c \<and> taskSpecCache c' = taskSpecCache c \<and>
    requeues clk uuid i ids qs (task_table B (state c)) (task_table B (state c')) \<and>
    (reliable B \<longrightarrow> ids_fit (task_table B (state c)) (set ids) uuid \<longrightarrow> set ids \<subseteq> dom (task_table B (state c)) \<longrightarrow> qs = ids)"
  using assms
proof (induction ids arbitrary: c i)
  case Nil
  then show ?case by (simp add: requeues_def)
next
  case (Cons t ids)
  from Cons.prems(1) show ?case
  proof (cases rule: RequeueTask_cases [of "state c" "clk i" t "uuid i"])
    case (error er)
    obtain c' qs where IH: "requeue_all B clk uuid (Suc i) ids c = (c', Inr ())"
      "tasks_wf B (state c')" "only_tasks_changed (state c) (state c')" "readyQueue c' = readyQueue c @ qs"
      "distinct qs" "set qs \<subseteq> set ids" "assignedTasks c' = assignedTasks c" "runningTasks c' = runningTasks c"
      "taskSpecCache c' = taskSpecCache c"
      "requeues clk uuid (Suc i) ids qs (task_table B (state c)) (task_table B (state c'))"
      using Cons.IH [OF Cons.prems(1), of "Suc i"] Cons.prems(2) by auto
    have "requeue_all B clk uuid i (t # ids) c = (c', Inr ())" using error IH(1) by simp
    moreover have "\<not> (reliable B \<and> ids_fit (task_table B (state c)) (set (t # ids)) uuid \<and>
        set (t # ids) \<subseteq> dom (task_table B (state c)))"
      using error(4) by (auto simp: ids_fit_def)
    moreover have "t \<notin> set qs" using IH(6) Cons.prems(2) by auto
    note requeues_skip [OF IH(10) this]
    ultimately show ?thesis using IH(2-9) by (intro exI [of _ c'] exI [of _ qs]) auto
  next
    case (ok db' r)
    let ?c1 = "enqueue [t] (c\<lparr>state := db'\<rparr>)"
    obtain c' qs where IH: "requeue_all B clk uuid (Suc i) ids ?c1 = (c', Inr ())"
      "tasks_wf B (state c')" "only_tasks_changed (state ?c1) (state c')" "readyQueue c' = readyQueue ?c1 @ qs"
      "distinct qs" "set qs \<subseteq> set ids" "assignedTasks c' = assignedTasks ?c1" "runningTasks c' = runningTasks ?c1"
      "taskSpecCache c' = taskSpecCache ?c1"
      "requeues clk uuid (Suc i) ids qs (task_table B (state ?c1)) (task_table B (state c'))"
      "reliable B \<longrightarrow> ids_fit (task_table B (state ?c1)) (set ids) uuid \<longrightarrow>
         set ids \<subseteq> dom (task_table B (state ?c1)) \<longrightarrow> qs = ids"
      using Cons.IH [of ?c1 "Suc i"] Cons.prems(2) ok(4) by auto
    have T1: "task_table B (state ?c1) = (task_table B (state c))(t \<mapsto> requeued (uuid i) (clk i) r)"
      by (simp add: ok(3) requeued_def)
    have "requeues clk uuid i (t # ids) (t # qs) (task_table B (state c)) (task_table B (state c'))"
      using IH(10) ok(2) Cons.prems(2) IH(6) unfolding T1 by (intro requeues_Cons [of _ _ _ _ _ _ _ r]) auto
    moreover have "requeue_all B clk uuid i (t # ids) c = (c', Inr ())" using ok(1) IH(1) by simp
    moreover have "only_tasks_changed (state c) (state c')"
      using only_tasks_changed_trans [OF ok(5)] IH(3) by simp
    moreover have "ids_fit (task_table B (state ?c1)) (set ids) uuid \<and> set ids \<subseteq> dom (task_table B (state ?c1))"
      if "ids_fit (task_table B (state c)) (set (t # ids)) uuid" "set (t # ids) \<subseteq> dom (task_table B (state c))"
      using that Cons.prems(2) unfolding T1 by (auto simp: ids_fit_def)
    moreover have "t \<notin> set qs" using IH(6) Cons.prems(2) by auto
    ultimately show ?thesis
      using IH(2,4-9,11) by (intro exI [of _ c'] exI [of _ "t # qs"]) auto
  qed
qed

lemma requeue_all_keeps:
  assumes "sys_inv B c" and "distinct ids" and "\<forall>t\<in>set ids. requeueable B c t"
    and "requeue_all B clk uuid i ids c = (c', res)"
  shows "keeps B c c'"
  using assms
proof (induction ids arbitrary: c i)
  case Nil
  then show ?case by (simp add: keeps_refl)
next
  case (Cons t ids)
  note S = store_invD [OF sys_invD(1) [OF Cons.prems(1)]]
  from S(1) show ?case
  proof (cases rule: RequeueTask_cases [of "state c" "clk i" t "uuid i"])
    case (error er)
    with Cons.prems have "requeue_all B clk uuid (Suc i) ids c = (c', res)" by simp
    with Cons.IH [OF Cons.prems(1)] Cons.prems(2,3) show ?thesis by simp
  next
    case (ok db' r)
    let ?c1 = "enqueue [t] (c\<lparr>state := db'\<rparr>)"
    have rt: "requeueable B c t" using Cons.prems(3) by simp
    note K = requeue_one_keeps [OF Cons.prems(1) rt ok(2,3,4,5)]
    have "\<forall>u\<in>set ids. requeueable B ?c1 u"
      using Cons.prems(2,3) K(2) by (auto simp: requeueable_def ok(3))
    moreover have "requeue_all B clk uuid (Suc i) ids ?c1 = (c', res)" using Cons.prems(4) ok(1) by simp
    ultimately have "keeps B ?c1 c'" using Cons.IH [OF keepsD [OF K(1)]] Cons.prems(2) by simp
    with K(1) show ?thesis by (rule keeps_trans)
  qed
qed

text \<open>
  \<^verbatim>\<open>HandleDeadWorker\<close>: the worker holds no task afterwards; each of its tasks is back in the
  queue (\<open>qs\<close>), or was left as it was because the store could not requeue it.
\<close>

lemma HandleDeadWorker_keeps:
  assumes inv: "sys_inv B c" and ord: "range_order (runningTasks c) ord"
  obtains c' qs where "HandleDeadWorker B now clk uuid ord c w = (c', Inr ())" "keeps B c c'"
    "readyQueue c' = readyQueue c @ qs" "set qs \<subseteq> {t. runningTasks c t = Some w}"
    "\<And>t. assignedTasks c' t = (if runningTasks c t = Some w then None else assignedTasks c t)"
    "\<And>t. runningTasks c' t = (if runningTasks c t = Some w then None else runningTasks c t)"
    "requeues clk uuid 0 (tasks_of_worker c ord w) qs (task_table B (state c)) (task_table B (state c'))"
    "reliable B \<Longrightarrow> ids_fit (task_table B (state c)) {t. runningTasks c t = Some w} uuid \<Longrightarrow>
       qs = tasks_of_worker c ord w"
proof -
  let ?ids = "tasks_of_worker c ord w" and ?c0 = "count_dead_worker now c"
  let ?c1 = "fold unassign ?ids ?c0"
  have k0: "keeps B c ?c0" by (rule keeps_same [OF inv]) simp_all
  note k1 = keeps_trans [OF k0 unassign_all_keeps [OF keepsD [OF k0], of ?ids]]
  have ids: "distinct ?ids" "set ?ids = {t. runningTasks c t = Some w}"
    using range_orderD [OF ord] by (auto simp: tasks_of_worker_def)
  have rq: "requeueable B ?c1 t" if "t \<in> set ?ids" for t
  proof -
    have "t \<in> dom (assignedTasks c)"
      using that ids(2) sys_invD(3) [OF inv] by (auto simp: assigned_inv_def)
    then obtain e where "assignedTasks ?c0 t = Some e" by auto
    with that show ?thesis by (intro unassign_all_requeueable [OF keepsD [OF k0]])
  qed
  have "tasks_wf B (state ?c1)" using store_invD(1) [OF sys_invD(1) [OF keepsD [OF k1]]] .
  from requeue_all_table [OF this ids(1), of clk uuid 0]
  obtain c2 qs where R: "requeue_all B clk uuid 0 ?ids ?c1 = (c2, Inr ())"
    "readyQueue c2 = readyQueue ?c1 @ qs" "set qs \<subseteq> set ?ids"
    "assignedTasks c2 = assignedTasks ?c1" "runningTasks c2 = runningTasks ?c1"
    "requeues clk uuid 0 ?ids qs (task_table B (state ?c1)) (task_table B (state c2))"
    "reliable B \<longrightarrow> ids_fit (task_table B (state ?c1)) (set ?ids) uuid \<longrightarrow>
       set ?ids \<subseteq> dom (task_table B (state ?c1)) \<longrightarrow> qs = ?ids" by blast
  have known: "set ?ids \<subseteq> dom (task_table B (state ?c1))" using rq by (force simp: requeueable_def)
  have k: "keeps B ?c1 c2" using rq by (intro requeue_all_keeps [OF keepsD [OF k1] ids(1) _ R(1)]) blast
  let ?c3 = "drop_worker w (length ?ids) c2"
  note k2 = keeps_trans [OF k1 k]
  have "keeps B c2 ?c3" by (rule keeps_same [OF keepsD [OF k]]) simp_all
  with k2 have "keeps B c ?c3" by (rule keeps_trans)
  moreover have "HandleDeadWorker B now clk uuid ord c w = (?c3, Inr ())"
    using R(1) by (simp add: HandleDeadWorker_def Let_def)
  ultimately show thesis
    using that [of ?c3 qs] R(2-7) known ids(2) by (simp add: unassign_all_fields)
qed

lemma CancelWorkflowTasks_keeps:
  assumes inv: "sys_inv B c"
  obtains
    (ok) db' cancelled where "CancelWorkflowTasks B clk (state c) w = (db', Inr cancelled)"
      "keeps B c (dequeue_all cancelled (c\<lparr>state := db'\<rparr>))"
      "set cancelled = {t. \<exists>r. task_table B (state c) t = Some r \<and> WorkflowID r = w \<and> \<not> terminal (State r)}"
      "\<And>t. rel_option (cancels w) (task_table B (state c) t) (task_table B db' t)"
      "only_tasks_changed (state c) db'"
  | (dropped) m where "CancelWorkflowTasks B clk (state c) w = (state c, Inl (LibErr m))" "\<not> reliable B"
proof -
  note S = store_invD [OF sys_invD(1) [OF inv]]
  from S(1) show thesis
  proof (cases rule: CancelWorkflowTasks_cases [of "state c" clk w])
    case (failed m)
    then show thesis using dropped by blast
  next
    case (ok db')
    let ?T = "task_table B (state c)"
    let ?ids = "filter (\<lambda>t. cancellable w (the (?T t))) (task_keys B (state c))"
    have ids: "set ?ids = {t. \<exists>r. ?T t = Some r \<and> WorkflowID r = w \<and> \<not> terminal (State r)}"
      using task_keys(1) [OF S(1)] by (auto simp: cancellable_def)
    have "rel_option (skips (t \<in> set ?ids)) (?T t) (task_table B db' t)" for t
    proof -
      have "skips (t \<in> set ?ids) r r'" if "?T t = Some r" "cancels w r r'" for r r'
        unfolding ids using that by (auto simp: skips_def cancels_def cancellable_def split: if_splits)
      then show ?thesis using ok(2) [of t] by (cases "?T t"; cases "task_table B db' t") auto
    qed
    from skipping_keeps [OF inv this ok(3,4)] show thesis
      using that(1) [OF ok(1) _ ids ok(2,4)] by simp
  qed
qed

lemma CancelWorkflow_keeps:
  assumes inv: "sys_inv B c"
  obtains c' res where "CancelWorkflow B clk c w = (c', res)" "keeps B c c'" "\<And>e. res = Inl e \<Longrightarrow> \<not> fatal e"
proof -
  from inv show thesis
  proof (cases rule: CancelWorkflowTasks_keeps [of c "clk 0" w])
    case (dropped m)
    then have "CancelWorkflow B clk c w = (c, Inl (LibErr m))" by (simp add: CancelWorkflow_def)
    then show thesis using that keeps_refl [OF inv] by (simp add: fatal_def)
  next
    case (ok db' cancelled)
    let ?c1 = "dequeue_all cancelled (c\<lparr>state := db'\<rparr>)"
    have wf: "workflows_wf B (state ?c1)" using store_invD(2) [OF sys_invD(1) [OF keepsD [OF ok(2)]]] .
    from wf canonical_workflow_state_named(4) show thesis
    proof (cases rule: UpdateWorkflowState_cases [of "state ?c1" WORKFLOW_CANCELLED "clk 1" w])
      case (ok db2)
      have "CancelWorkflow B clk c w = (?c1\<lparr>state := db2\<rparr>, Inr ())"
        using ok(1) \<open>CancelWorkflowTasks B (clk 0) (state c) w = (db', Inr cancelled)\<close>
        by (simp add: CancelWorkflow_def Let_def)
      with keeps_trans [OF \<open>keeps B c ?c1\<close> keeps_workflow_state [OF keepsD [OF \<open>keeps B c ?c1\<close>] ok(4,3)]]
      show thesis using that by blast
    next
      case (error m)
      have "CancelWorkflow B clk c w = (?c1, Inl (LibErr m))"
        using error(1) ok(1) by (simp add: CancelWorkflow_def Let_def)
      then show thesis using that [OF _ ok(2)] by (simp add: fatal_def)
    qed
  qed
qed

lemma applyFailurePolicy_keeps:
  assumes inv: "sys_inv B c" and t: "task_table B (state c) t = Some r"
  obtains c' where "applyFailurePolicy B clk c w t policy = (c', Inr ())" "keeps B c c'"
    "assignedTasks c' = assignedTasks c" "set (readyQueue c') \<subseteq> set (readyQueue c)"
    "\<And>u. rel_option may_skip (task_table B (state c) u) (task_table B (state c') u)"
proof (cases "policy = FAIL_FAST")
  case True
  from inv show thesis
  proof (cases rule: CancelWorkflowTasks_keeps [of c "clk 0" w])
    case (dropped m)
    then have "applyFailurePolicy B clk c w t policy = (c, Inr ())"
      by (simp add: applyFailurePolicy_def True fatal_def)
    then show thesis using that keeps_refl [OF inv] by simp
  next
    case (ok db' cancelled)
    let ?c1 = "dequeue_all cancelled (c\<lparr>state := db'\<rparr>)"
    have wf: "workflows_wf B (state ?c1)" using store_invD(2) [OF sys_invD(1) [OF keepsD [OF ok(2)]]] .
    from wf canonical_workflow_state_named(3) show thesis
    proof (cases rule: UpdateWorkflowState_cases [of "state ?c1" WORKFLOW_FAILED "clk 1" w])
      case upd: (ok db2)
      have "applyFailurePolicy B clk c w t policy = (?c1\<lparr>state := db2\<rparr>, Inr ())"
        using upd(1) ok(1) by (simp add: applyFailurePolicy_def True Let_def)
      with keeps_trans [OF ok(2) keeps_workflow_state [OF keepsD [OF ok(2)] upd(4,3)]]
        task_table_cong(1) [OF only_workflow_state_changedD(1) [OF upd(4)]]
      show thesis using that may_skipI(2) [OF ok(4)] by auto
    next
      case (error m)
      have "applyFailurePolicy B clk c w t policy = (?c1, Inr ())"
        using error(1) ok(1) by (simp add: applyFailurePolicy_def True Let_def fatal_def)
      then show thesis using that [OF _ ok(2)] may_skipI(2) [OF ok(4)] by auto
    qed
  qed
next
  case False
  show thesis
  proof (cases "\<exists>n. policy = POLICY_UNRECOGNIZED n")
    case True
    then have "applyFailurePolicy B clk c w t policy = (c, Inr ())" by (auto simp: applyFailurePolicy_def)
    then show thesis using that keeps_refl [OF inv] by simp
  next
    case False2: False
    obtain db' skipped where sk: "SkipDownstreamTasks B (clk 0) (state c) t = (db', Inr skipped)"
      "tasks_wf B db'" "only_tasks_changed (state c) db'"
      "\<And>v. rel_option (skips (v \<in> set skipped)) (task_table B (state c) v) (task_table B db' v)"
      using SkipDownstreamTasks_ok [OF store_invD(1) [OF sys_invD(1) [OF inv]] t] by metis
    let ?c1 = "dequeue_all skipped (c\<lparr>state := db'\<rparr>)"
    note k = skipping_keeps [OF inv sk(4,2,3)]
    obtain c' where c': "checkWorkflowCompletion B (clk 1) ?c1 w = (c', Inr ())" "keeps B ?c1 c'"
      "assignedTasks c' = assignedTasks ?c1" "readyQueue c' = readyQueue ?c1"
      "task_table B (state c') = task_table B (state ?c1)"
      by (rule checkWorkflowCompletion_keeps [OF keepsD [OF k]])
    have "(if skipped \<noteq> [] then ?c1 else c\<lparr>state := db'\<rparr>) = ?c1" by simp
    then have "applyFailurePolicy B clk c w t policy = (c', Inr ())"
      using False False2 sk(1) c'(1) by (cases policy) (auto simp: applyFailurePolicy_def)
    then show thesis using that keeps_trans [OF k c'(2)] c'(3-5) may_skipI(1) [OF sk(4)] by auto
  qed
qed

lemma retry_keeps:
  assumes inv: "sys_inv B c" and asg: "assignedTasks c t = Some e"
    and r: "task_table B (state c) t = Some r"
    and T': "task_table B db' = (task_table B (state c))(t \<mapsto> r\<lparr>State := TASK_QUEUED, ExecutionID := e', LastUpdated := now\<rparr>)"
    and db: "tasks_wf B db'" "only_tasks_changed (state c) db'"
  shows "keeps B c (retry_task t (c\<lparr>state := db'\<rparr>))"
proof -
  let ?u = "unassign t c"
  note k = unassign_keeps [OF inv, of t]
  have "keeps B ?u (enqueue [t] (?u\<lparr>state := db'\<rparr>))" (is "keeps B _ ?c1")
    using r T' db by (intro requeue_one_keeps(1) [OF keepsD [OF k] unassign_requeueable [OF inv asg]]) simp_all
  with k have k1: "keeps B c ?c1" by (rule keeps_trans)
  have "keeps B ?c1 (retry_task t (c\<lparr>state := db'\<rparr>))" by (rule keeps_same [OF keepsD [OF k1]]) simp_all
  with k1 show ?thesis by (rule keeps_trans)
qed

lemma failed_keeps:
  assumes inv: "sys_inv B c" and asg: "assignedTasks c t = Some e"
    and r: "task_table B (state c) t = Some r"
    and T': "task_table B db' = (task_table B (state c))
               (t \<mapsto> r\<lparr>State := TASK_FAILED, Error := msg, AttemptCount := n, LastUpdated := now\<rparr>)"
    and db: "tasks_wf B db'" "only_tasks_changed (state c) db'"
  shows "keeps B c (count_failure w (unassign t (c\<lparr>state := db'\<rparr>)))" (is "keeps B c ?c'")
proof -
  let ?T = "task_table B (state c)"
  let ?r' = "r\<lparr>State := TASK_FAILED, Error := msg, AttemptCount := n, LastUpdated := now\<rparr>"
  note S = store_invD [OF sys_invD(1) [OF inv]]
  have held: "held ?T t e" using assigned_invD [OF sys_invD(3) [OF inv] asg] .
  have nq: "t \<notin> set (readyQueue c)" using held_not_queued [OF sys_invD(2) [OF inv] held] .
  have h: "harmless ?T t r ?r'"
    using held r by (auto simp: held_def harmless_def evolves_rec_def active_def)
  note H = harmless_update [OF S(3) r h]
  have "assigned_inv (?T(t \<mapsto> ?r')) ((runningTasks c)(t := None)) ((assignedTasks c)(t := None))"
    using assigned_inv_update [OF S(3) r h assigned_inv_remove [OF sys_invD(3) [OF inv], of t]] by simp
  then show ?thesis
    using H(1,2) db queue_inv_update [OF sys_invD(2) [OF inv] nq, of ?r']
    by (intro keeps_tasks [OF inv]) (simp_all add: T')
qed

lemma Coordinator_FailTask_cases:
  assumes inv: "sys_inv B c"
  obtains
    (stale) "assignedTasks c t \<noteq> Some e" "Coordinator_FailTask B clk uuid c t e msg = (c, Inl ErrStaleExecution)"
  | (dropped) er where "assignedTasks c t = Some e" "Coordinator_FailTask B clk uuid c t e msg = (c, Inl er)" "\<not> fatal er"
  | (retried) c' r where "assignedTasks c t = Some e" "task_table B (state c) t = Some r"
      "sint (AttemptCount r + 1) < sint (max_attempts c t)"
      "Coordinator_FailTask B clk uuid c t e msg = (c', Inr ())" "keeps B c c'"
      "task_table B (state c') = (task_table B (state c))
         (t \<mapsto> r\<lparr>State := TASK_QUEUED, ExecutionID := uuid, LastUpdated := clk 0 0\<rparr>)"
      "readyQueue c' = readyQueue c @ [t]" "assignedTasks c' = (assignedTasks c)(t := None)"
  | (exhausted) c1 c' r where "assignedTasks c t = Some e" "task_table B (state c) t = Some r"
      "\<not> sint (AttemptCount r + 1) < sint (max_attempts c t)"
      "Coordinator_FailTask B clk uuid c t e msg = (c', Inr ())" "keeps B c c1" "keeps B c1 c'"
      "task_table B (state c1) = (task_table B (state c)) (t \<mapsto> r\<lparr>State := TASK_FAILED, Error := msg,
          AttemptCount := AttemptCount r + 1, LastUpdated := clk 0 0\<rparr>)"
      "assignedTasks c' = (assignedTasks c)(t := None)" "set (readyQueue c') \<subseteq> set (readyQueue c)"
      "\<And>u. rel_option may_skip (task_table B (state c1) u) (task_table B (state c') u)"
      "taskWorkflowID c t = [] \<Longrightarrow> c' = c1"
      "taskWorkflowID c t \<noteq> [] \<Longrightarrow> applyFailurePolicy B (\<lambda>k. clk (Suc k)) c1 (taskWorkflowID c t) t
          (policy_of c (taskWorkflowID c t)) = (c', Inr ())"
proof (cases "assignedTasks c t = Some e")
  case False
  then show thesis using stale by (simp add: Coordinator_FailTask_def)
next
  case asg: True
  note S = store_invD [OF sys_invD(1) [OF inv]]
  obtain r where r: "task_table B (state c) t = Some r"
    using assigned_invD [OF sys_invD(3) [OF inv] asg] by (auto simp: held_def)
  have get: "GetTask B (state c) t = Inr r" using GetTask_table [OF S(1)] r by simp
  show thesis
  proof (cases "sint (AttemptCount r + 1) < sint (max_attempts c t)")
    case retry: True
    from S(1) show thesis
    proof (cases rule: RequeueTask_cases [of "state c" "clk 0 0" t uuid])
      case (error er)
      then have "Coordinator_FailTask B clk uuid c t e msg = (c, Inl er)"
        using asg get retry by (simp add: Coordinator_FailTask_def Let_def)
      then show thesis using dropped asg error(2) by blast
    next
      case (ok db' r')
      then have "Coordinator_FailTask B clk uuid c t e msg = (retry_task t (c\<lparr>state := db'\<rparr>), Inr ())"
        using asg get retry by (simp add: Coordinator_FailTask_def Let_def)
      then show thesis
        using retried [OF asg r retry, of "retry_task t (c\<lparr>state := db'\<rparr>)"]
          retry_keeps [OF inv asg ok(2-5)] ok(2,3) r by simp
    qed
  next
    case no_retry: False
    let ?w = "taskWorkflowID c t"
    from S(1) show thesis
    proof (cases rule: FailTask_cases [of "state c" "clk 0 0" t msg "AttemptCount r + 1"])
      case (error er)
      then have "Coordinator_FailTask B clk uuid c t e msg = (c, Inl er)"
        using asg get no_retry by (simp add: Coordinator_FailTask_def Let_def)
      then show thesis using dropped asg error(2) by blast
    next
      case (ok db' r')
      let ?c1 = "count_failure ?w (unassign t (c\<lparr>state := db'\<rparr>))"
      have rr: "r' = r" using ok(2) r by simp
      note k = failed_keeps [OF inv asg ok(2-5), of ?w]
      have t1: "\<exists>s. task_table B (state ?c1) t = Some s" by (simp add: ok(3))
      then obtain c' where c': "applyFailurePolicy B (\<lambda>k. clk (Suc k)) ?c1 ?w t (policy_of c ?w) = (c', Inr ())"
        "keeps B ?c1 c'" "assignedTasks c' = assignedTasks ?c1" "set (readyQueue c') \<subseteq> set (readyQueue ?c1)"
        "\<And>u. rel_option may_skip (task_table B (state ?c1) u) (task_table B (state c') u)"
        using applyFailurePolicy_keeps [OF keepsD [OF k]] by blast
      let ?c2 = "if ?w \<noteq> [] then c' else ?c1"
      have "Coordinator_FailTask B clk uuid c t e msg = (?c2, Inr ())"
        using asg get no_retry ok(1) c'(1) by (simp add: Coordinator_FailTask_def Let_def)
      moreover have "keeps B ?c1 ?c2" using c'(2) keeps_refl [OF keepsD [OF k]] by (cases "?w = []") auto
      moreover have "assignedTasks ?c2 = (assignedTasks c)(t := None)" "set (readyQueue ?c2) \<subseteq> set (readyQueue c)"
        "rel_option may_skip (task_table B (state ?c1) u) (task_table B (state ?c2) u)" for u
        using c'(3-5) by (cases "?w = []"; simp)+
      ultimately show thesis
        using exhausted [OF asg r no_retry _ k, of ?c2] ok(3) rr c'(1) by simp
    qed
  qed
qed

lemma UpdateWorkerHeartbeat_keeps:
  assumes "sys_inv B c"
  shows "keeps B c (UpdateWorkerHeartbeat c w ts tasks)"
  by (rule keeps_same [OF assms]) (simp_all add: UpdateWorkerHeartbeat_def split: prod.split)

lemma finite_runningTasks:
  assumes "sys_inv B c"
  shows "finite (dom (runningTasks c))"
proof -
  have "dom (runningTasks c) \<subseteq> dom (task_table B (state c))"
    using sys_invD(3) [OF assms] by (force simp: assigned_inv_def held_def)
  then show ?thesis using finite_subset table_invD(1) store_invD(3) sys_invD(1) assms by metis
qed

lemma handle_dead_keeps:
  assumes "sys_inv B c"
    and ord: "\<forall>w m. finite (dom m) \<longrightarrow> range_order m (snd (snd (snd (calls w))) m)"
  shows "\<exists>c'. handle_dead B calls ws c = (c', Inr ()) \<and> keeps B c c'"
  using assms(1)
proof (induction ws arbitrary: c)
  case Nil
  then show ?case by (simp add: keeps_refl)
next
  case (Cons w ws)
  obtain now clk uuid od where w: "calls w = (now, clk, uuid, od)" by (cases "calls w") auto
  have od: "range_order (runningTasks c) (od (runningTasks c))"
    using ord finite_runningTasks [OF Cons.prems] w by (metis snd_conv)
  obtain c1 where c1: "HandleDeadWorker B now clk uuid (od (runningTasks c)) c w = (c1, Inr ())" "keeps B c c1"
    using HandleDeadWorker_keeps [OF Cons.prems od] by metis
  let ?c2 = "c1\<lparr>heartbeat := forget_worker w (heartbeat c1)\<rparr>"
  have k2: "keeps B c1 ?c2" by (rule keeps_same [OF keepsD [OF c1(2)]]) simp_all
  obtain c3 where "handle_dead B calls ws ?c2 = (c3, Inr ())" "keeps B ?c2 c3"
    using Cons.IH [OF keepsD [OF k2]] by blast
  with w c1 k2 show ?case by (auto intro: keeps_trans)
qed

lemma Run_tick_keeps:
  assumes "sys_inv B c"
    and "\<forall>w m. finite (dom m) \<longrightarrow> range_order m (snd (snd (snd (calls w))) m)"
  obtains c' where "Run_tick B nowMs wid_ord calls c = (c', Inr ())" "keeps B c c'"
  using handle_dead_keeps [OF assms] unfolding Run_tick_def by blast

end

end
