(* ===== verification/Coord_Submit.thy ===== *)
theory Coord_Submit
  imports Coord_Inv
begin

text \<open>
  Submission and restart keep the system invariant of theory \<open>Coord_Inv\<close>. A submission
  needs task ids that no other workflow uses (\<open>fresh_workflow\<close>), since the task bucket is
  keyed by the task id alone; a restart starts from any database that satisfies the stored
  part of the invariant.
\<close>

section \<open>Submission\<close>

definition fresh_workflow :: "'b bolt \<Rightarrow> 'b Coordinator \<Rightarrow> WorkflowSpec \<Rightarrow> bool" where
  "fresh_workflow B c w \<longleftrightarrow>
     (\<forall>t\<in>task_ids w. t \<notin> dom (task_table B (state c)) \<and>
        (\<forall>w' s. spec_table B (state c) w' = Some s \<longrightarrow> w' \<noteq> WorkflowId w \<longrightarrow> t \<notin> task_ids s))"

text \<open>Fewer than \<open>2 ^ 31\<close> dependencies per task: the in-degree is an \<^verbatim>\<open>int32\<close>.\<close>

definition small_workflow :: "WorkflowSpec \<Rightarrow> bool" where
  "small_workflow w \<longleftrightarrow> (\<forall>t\<in>set (Tasks w). length (Dependencies t) < 2 ^ 31)"

definition submit_orders :: "WorkflowSpec \<Rightarrow> (nat \<Rightarrow> string list) \<Rightarrow> bool" where
  "submit_orders w ords \<longleftrightarrow> (\<forall>i<4. id_order w (ords i))"

lemma submit_ordersD:
  assumes "submit_orders w ords"
  shows "id_order w (ords 0)" "id_order w (ords 1)" "id_order w (ords 2)" "id_order w (ords 3)"
  using assms by (simp_all add: submit_orders_def)

lemma deps_of_small: "small_workflow w \<Longrightarrow> length (deps_of w t) < 2 ^ 31"
  using spec_map_mem by (auto simp: small_workflow_def deps_of_def split: option.split)

lemma deps_of_closed:
  assumes "valid_workflow w"
  shows "set (deps_of w t) \<subseteq> task_ids w"
  using assms deps_exist_deps_of [of w] deps_of_outside [of t w]
  by (cases "t \<in> task_ids w") (auto simp: valid_workflow_def)

lemma in_deps_of: "x \<in> set (deps_of w t) \<Longrightarrow> t \<in> task_ids w"
  using deps_of_outside [of t w] by fastforce

text \<open>The downstream map of an accepted workflow stays within it.\<close>

lemma downstream_closed:
  assumes "valid_workflow w" "id_order w ord" "dag_downstream (built w ord) u = Some ds"
  shows "set ds \<subseteq> task_ids w"
proof
  fix x assume "x \<in> set ds"
  then have "0 < count_list (GetDownstream (built w ord) u) x"
    using assms(3) by (simp add: GetDownstream_def slice_at_def length_le_count_pos)
  then have "u \<in> set (deps_of w x)"
    using built_shape(5) [OF assms(1,2)] by (simp add: length_le_count_pos)
  then show "x \<in> task_ids w" by (rule in_deps_of)
qed

lemma initial_record_shape:
  assumes "valid_workflow w" "id_order w ord" "t \<in> set (Tasks w)"
    and r_def: "r = initial_record now wid (GetInDegree (built w ord)) (GetAllDownstream (built w ord)) t"
  shows "State r = TASK_PENDING" and "InDegree r = word_of_nat (length (deps_of w (TaskId t)))"
    and "count_list (DownstreamTaskIDs r) v = count_list (deps_of w v) (TaskId t)"
proof -
  note shape = built_shape [OF assms(1,2)]
  have t: "TaskId t \<in> task_ids w" using assms(3) by (simp add: task_ids_def)
  show "State r = TASK_PENDING" by (simp add: r_def initial_record_def)
  show "InDegree r = word_of_nat (length (deps_of w (TaskId t)))"
    using shape(3) [OF t] by (simp add: r_def initial_record_def GetInDegree_def)
  have "DownstreamTaskIDs r = GetDownstream (built w ord) (TaskId t)"
    by (simp add: r_def initial_record_def GetAllDownstream_def GetDownstream_def slice_at_def)
  then show "count_list (DownstreamTaskIDs r) v = count_list (deps_of w v) (TaskId t)"
    using shape(5) by simp
qed

lemma linked_added:
  assumes add: "added T (task_ids w) (deps_of w) T'" and "ids_unique w" and s: "s \<in> set (Tasks w)"
    and valid: "valid_workflow w"
  shows "linked T' s"
  unfolding linked_def
proof (intro impI ballI)
  fix d assume "d \<in> set (Dependencies s)"
  then have d: "d \<in> set (deps_of w (TaskId s))" using deps_of_task [OF assms(2) s] by simp
  then have "d \<in> task_ids w" using deps_of_closed [OF valid] by blast
  from addedD(7) [OF add this] obtain r where r: "T' d = Some r"
    "\<And>v. count_list (DownstreamTaskIDs r) v = count_list (deps_of w v) d" by blast
  then show "\<exists>r. T' d = Some r \<and> TaskId s \<in> set (DownstreamTaskIDs r)"
    using d by (auto simp: length_le_count_pos)
qed

lemma linked_old:
  assumes "added T N deps T'" and "linked T s" and "TaskId s \<notin> N"
  shows "linked T' s"
  unfolding linked_def
proof (intro impI ballI)
  note D = addedD [OF assms(1)]
  fix d assume "TaskId s \<in> dom T'" and d: "d \<in> set (Dependencies s)"
  then have "TaskId s \<in> dom T" using added_dom [OF assms(1)] assms(3) by blast
  with assms(2) d obtain r where r: "T d = Some r" "TaskId s \<in> set (DownstreamTaskIDs r)"
    unfolding linked_def by blast
  then have "d \<notin> N" using D(2) by blast
  with D(3) r show "\<exists>r. T' d = Some r \<and> TaskId s \<in> set (DownstreamTaskIDs r)" by auto
qed

lemma queue_inv_added:
  assumes "added T N deps T'" and "queue_inv T q"
  shows "queue_inv T' q"
proof (rule queue_inv_step [OF assms(2)])
  fix t r assume "T t = Some r"
  moreover from this have "t \<notin> N" using addedD(2) [OF assms(1)] by blast
  ultimately show "\<exists>r'. T' t = Some r' \<and> State r' = State r" using addedD(3) [OF assms(1)] by simp
qed

lemma assigned_inv_added:
  assumes inv: "table_inv T" and add: "added T N deps T'" and "assigned_inv T running assigned"
  shows "assigned_inv T' running assigned"
proof -
  have "held T' t e" if h: "held T t e" for t e
  proof -
    from h obtain r where "T t = Some r" unfolding held_def by blast
    then have "t \<notin> N" using addedD(2) [OF add] by blast
    with h addedD(3) [OF add] added_dep_count(2) [OF inv add] show ?thesis by (simp add: held_def)
  qed
  with assms(3) show ?thesis by (auto simp: assigned_inv_def)
qed

text \<open>
  What a submission does. An invalid workflow changes nothing. Otherwise the invariant
  holds afterwards and no existing task is touched, whether or not a store error stops the
  submission half-way; an accepted workflow has all its tasks in the table, those without
  dependencies QUEUED and appended to the ready queue.
\<close>

definition submitted :: "'b bolt \<Rightarrow> 'b Coordinator \<Rightarrow> 'b Coordinator \<Rightarrow> bool" where
  "submitted B c c' \<longleftrightarrow>
     sys_inv B c' \<and> (\<forall>t r. task_table B (state c) t = Some r \<longrightarrow> task_table B (state c') t = Some r) \<and>
     assignedTasks c' = assignedTasks c"

definition task_accepted :: "table \<Rightarrow> WorkflowSpec \<Rightarrow> TaskSpec \<Rightarrow> bool" where
  "task_accepted T w t \<longleftrightarrow>
     (\<exists>r. T (TaskId t) = Some r \<and>
        State r = (if Dependencies t = [] then TASK_QUEUED else TASK_PENDING))"

text \<open>How a valid submission may end.\<close>

definition submit_ok :: "'b bolt \<Rightarrow> 'b Coordinator \<Rightarrow> WorkflowSpec \<Rightarrow> (nat \<Rightarrow> string list) \<Rightarrow> 'b Coordinator \<times> (err + unit) \<Rightarrow> bool" where
  "submit_ok B c w ords R \<longleftrightarrow>
     (case R of (c', res) \<Rightarrow>
        submitted B c c' \<and>
        (case res of Inl e \<Rightarrow> \<not> fatal e
         | Inr _ \<Rightarrow> readyQueue c' = readyQueue c @ GetReadyTasks (built w (ords 1)) (ords 3) \<and>
             (\<forall>t\<in>set (Tasks w). taskSpecCache c' (TaskId t) = Some t \<and>
                task_accepted (task_table B (state c')) w t)))"

context bolt_spec
begin

lemma enqueue_ready_keeps:
  assumes "sys_inv B c" and "distinct ids"
    and "\<forall>t\<in>set ids. t \<notin> set (readyQueue c) \<and> dep_count (task_table B (state c)) t = 0 \<and>
           (\<exists>r. task_table B (state c) t = Some r \<and> State r = TASK_PENDING)"
  shows "\<exists>c' res. enqueue_ready B clk i ids c = (c', res) \<and> keeps B c c' \<and>
    (\<forall>t. t \<notin> set ids \<longrightarrow> task_table B (state c') t = task_table B (state c) t) \<and>
    assignedTasks c' = assignedTasks c \<and>
    (case res of Inl e \<Rightarrow> \<not> fatal e
     | Inr _ \<Rightarrow> readyQueue c' = readyQueue c @ ids \<and>
         (\<forall>t\<in>set ids. \<exists>r. task_table B (state c') t = Some r \<and> State r = TASK_QUEUED))"
  using assms
proof (induction ids arbitrary: c i)
  case Nil
  then show ?case by (simp add: keeps_refl)
next
  case (Cons t ids)
  note inv = Cons.prems(1)
  note S = store_invD [OF sys_invD(1) [OF inv]]
  let ?T = "task_table B (state c)"
  have t: "t \<notin> set (readyQueue c)" "dep_count ?T t = 0" using Cons.prems(3) by auto
  from S(1) canonical_task_state_named(2) show ?case
  proof (cases rule: UpdateTaskState_cases [of "state c" TASK_QUEUED "clk i" t])
    case (error er)
    then show ?thesis using keeps_refl [OF inv] by simp
  next
    case (ok db' r)
    let ?r' = "r\<lparr>State := TASK_QUEUED, LastUpdated := clk i\<rparr>" and ?c1 = "enqueue [t] (c\<lparr>state := db'\<rparr>)"
    have rp: "State r = TASK_PENDING" using Cons.prems(3) ok(2) by auto
    have h: "harmless ?T t r ?r'" using rp t by (simp add: harmless_def evolves_rec_def)
    note H = harmless_update [OF S(3) ok(2) h]
    have na: "assignedTasks c t = None"
      using assigned_invD [OF sys_invD(3) [OF inv], of t] ok(2) rp
      by (cases "assignedTasks c t") (auto simp: held_def)
    have "queue_inv (?T(t \<mapsto> ?r')) (readyQueue c @ [t])"
      using queue_inv_update [OF sys_invD(2) [OF inv] t(1), of ?r'] t(1) by (simp add: queue_inv_def)
    then have k: "keeps B c ?c1"
      using H(1,2) ok(4,5) assigned_inv_update [OF S(3) ok(2) h sys_invD(3) [OF inv] na]
      by (intro keeps_tasks [OF inv]) (simp_all add: ok(3))
    have "\<forall>u\<in>set ids. u \<notin> set (readyQueue ?c1) \<and> dep_count (task_table B (state ?c1)) u = 0 \<and>
           (\<exists>r. task_table B (state ?c1) u = Some r \<and> State r = TASK_PENDING)"
      using Cons.prems(2,3) H(3) by (auto simp: ok(3))
    with Cons.IH [OF keepsD [OF k], of "Suc i"] Cons.prems(2) obtain c' res where
      IH: "enqueue_ready B clk (Suc i) ids ?c1 = (c', res)" "keeps B ?c1 c'"
        "\<forall>u. u \<notin> set ids \<longrightarrow> task_table B (state c') u = task_table B (state ?c1) u"
        "assignedTasks c' = assignedTasks ?c1"
        "case res of Inl e \<Rightarrow> \<not> fatal e
         | Inr _ \<Rightarrow> readyQueue c' = readyQueue ?c1 @ ids \<and>
             (\<forall>t\<in>set ids. \<exists>r. task_table B (state c') t = Some r \<and> State r = TASK_QUEUED)"
      by auto
    have "enqueue_ready B clk i (t # ids) c = (c', res)" using ok(1) IH(1) by simp
    moreover have "keeps B c c'" using k IH(2) by (rule keeps_trans)
    moreover have "task_table B (state c') t = Some ?r'" using IH(3) Cons.prems(2) by (simp add: ok(3))
    ultimately show ?thesis using IH(3-5) by (auto simp: ok(3) split: sum.splits)
  qed
qed

lemma spec_stored_inv:
  assumes inv: "sys_inv B c" and fresh: "fresh_workflow B c w"
    and db: "db' = (state c)\<lparr>bucket_workflows := bucket_workflows db'\<rparr>"
    and spec: "spec_table B db' = (spec_table B (state c))(WorkflowId w \<mapsto> w)"
  shows "sys_inv B (c\<lparr>state := db'\<rparr>)" and "task_table B db' = task_table B (state c)"
proof -
  have b: "bucket_task_state db' = bucket_task_state (state c)"
    "bucket_workflow_state db' = bucket_workflow_state (state c)"
    by (subst db, simp)+
  note T = task_table_cong [OF b(1), of B] and W = wf_table_cong(2) [OF b(2), of B]
  show "task_table B db' = task_table B (state c)" by (rule T(1))
  have "linked (task_table B (state c)) s" if "s \<in> set (Tasks w)" for s
    using that fresh by (auto simp: linked_def fresh_workflow_def task_ids_def)
  then have "stored_inv (task_table B (state c)) (spec_table B db')"
    using store_invD(4) [OF sys_invD(1) [OF inv]] by (auto simp: spec stored_inv_def)
  then show "sys_inv B (c\<lparr>state := db'\<rparr>)"
    using sys_invD [OF inv] store_invD [OF sys_invD(1) [OF inv]] T W
    by (simp add: sys_inv_def store_inv_def)
qed

lemma tasks_added_inv:
  assumes inv: "sys_inv B c" and valid: "valid_workflow w" and ord: "id_order w ord"
    and spec: "spec_table B (state c) (WorkflowId w) = Some w"
    and fresh: "fresh_workflow B c w"
    and db: "tasks_wf B db'" "only_tasks_changed (state c) db'"
    and add: "added (task_table B (state c)) (task_ids w) (deps_of w) (task_table B db')"
  shows "sys_inv B (cache_workflow w (built w ord) (c\<lparr>state := db'\<rparr>))"
proof -
  let ?T = "task_table B (state c)" and ?T' = "task_table B db'"
  note S = store_invD [OF sys_invD(1) [OF inv]] and D = only_tasks_changedD [OF db(2)]
  have uniq: "ids_unique w" using valid by (simp add: valid_workflow_def)
  have W: "workflows_wf B db' = workflows_wf B (state c)" "spec_table B db' = spec_table B (state c)"
    using wf_table_cong(2) [OF D(4)] spec_table_cong [OF D(1)] by auto
  have "linked ?T' s" if "spec_table B (state c) w' = Some sp" "s \<in> set (Tasks sp)" for w' sp s
  proof (cases "w' = WorkflowId w")
    case True
    then show ?thesis using that spec linked_added [OF add uniq _ valid] by simp
  next
    case False
    have "TaskId s \<in> task_ids sp" using that(2) by (simp add: task_ids_def)
    with False have "TaskId s \<notin> task_ids w"
      using fresh that(1) unfolding fresh_workflow_def by blast
    moreover have "linked ?T s" using S(4) that by (auto simp: stored_inv_def)
    ultimately show ?thesis by (intro linked_old [OF add])
  qed
  then have stored: "stored_inv ?T' (spec_table B db')" by (auto simp: stored_inv_def W(2))
  have "TaskId s = t \<and> linked ?T' s" if c: "(taskSpecCache c ++ spec_map (Tasks w)) t = Some s" for t s
  proof (cases "spec_map (Tasks w) t")
    case None
    then have "t \<notin> task_ids w" using dom_spec_tasks [of w] by (metis domIff)
    moreover have "TaskId s = t" "linked ?T s"
      using c None sys_invD(4) [OF inv] by (auto simp: cache_inv_def map_add_def)
    ultimately show ?thesis using linked_old [OF add] by blast
  next
    case (Some s')
    with c have "s' = s" by (simp add: map_add_def)
    with spec_map_mem [OF Some] linked_added [OF add uniq _ valid] show ?thesis by blast
  qed
  then have "cache_inv ?T' (taskSpecCache c ++ spec_map (Tasks w))" by (simp add: cache_inv_def)
  then show ?thesis
    using db(1) W S(2) added_inv [OF S(3) add] stored queue_inv_added [OF add sys_invD(2) [OF inv]]
      assigned_inv_added [OF S(3) add sys_invD(3) [OF inv]]
    by (simp add: sys_inv_def store_inv_def cache_workflow_def GetAllTaskSpecs_def built_deps(2))
qed

lemma initialized_added:
  assumes inv: "table_inv T" and valid: "valid_workflow w" and ord: "id_order w ord" and small: "small_workflow w"
    and disj: "task_ids w \<inter> dom T = {}"
    and old: "\<And>k. k \<notin> TaskId ` set (Tasks w) \<Longrightarrow> T' k = T k"
    and new: "\<And>t. t \<in> set (Tasks w) \<Longrightarrow> \<exists>now. T' (TaskId t) =
        Some (initial_record now wid (GetInDegree (built w ord)) (GetAllDownstream (built w ord)) t)"
  shows "added T (task_ids w) (deps_of w) T'"
  unfolding added_def
proof (intro conjI allI impI ballI)
  fix v assume "v \<in> task_ids w"
  then obtain t where t: "t \<in> set (Tasks w)" "v = TaskId t" by (auto simp: task_ids_def)
  from new [OF t(1)] obtain now where n: "T' v =
      Some (initial_record now wid (GetInDegree (built w ord)) (GetAllDownstream (built w ord)) t)"
    using t(2) by blast
  from initial_record_shape [OF valid ord t(1) refl, of now wid] n t(2)
  show "\<exists>r. T' v = Some r \<and> State r = TASK_PENDING \<and> InDegree r = word_of_nat (length (deps_of w v)) \<and>
             (\<forall>u. count_list (DownstreamTaskIDs r) u = count_list (deps_of w u) v)" by simp
qed (use disj old deps_of_outside deps_of_closed [OF valid] deps_of_small [OF small] finite_task_ids
     in \<open>auto simp: task_ids_def\<close>)

lemma GetReadyTasks_built:
  assumes "valid_workflow w" "id_order w ord" "id_order w ord'" "small_workflow w"
  shows "distinct (GetReadyTasks (built w ord) ord')"
    and "set (GetReadyTasks (built w ord) ord') = {t \<in> task_ids w. deps_of w t = []}"
proof -
  show "distinct (GetReadyTasks (built w ord) ord')"
    using assms(3) by (simp add: GetReadyTasks_def id_order_def)
  have "dag_inDegree (built w ord) t = Some 0 \<longleftrightarrow> deps_of w t = []" if "t \<in> task_ids w" for t
  proof -
    have u: "unat (word_of_nat (length (deps_of w t)) :: i32) = length (deps_of w t)"
      using deps_of_small [OF assms(4), of t] by (simp add: unat_of_nat)
    have "(word_of_nat (length (deps_of w t)) :: i32) = 0 \<longleftrightarrow> deps_of w t = []"
    proof
      assume "(word_of_nat (length (deps_of w t)) :: i32) = 0"
      then have "unat (word_of_nat (length (deps_of w t)) :: i32) = 0" by (simp only: unat_0)
      then show "deps_of w t = []" unfolding u by simp
    qed simp
    then show ?thesis using built_shape(3) [OF assms(1,2) that] by simp
  qed
  then show "set (GetReadyTasks (built w ord) ord') = {t \<in> task_ids w. deps_of w t = []}"
    using assms(3) by (auto simp: GetReadyTasks_def id_order_def)
qed

lemma submit_ok_error: "submitted B c c' \<Longrightarrow> submit_ok B c w ords (c', Inl (LibErr m))"
  by (simp add: submit_ok_def fatal_def)

text \<open>The ready tasks of the new workflow can be queued.\<close>

lemma ready_new_tasks:
  assumes "sys_inv B c" and "valid_workflow w" and "small_workflow w" and "submit_orders w ords" and "fresh_workflow B c w"
    and add: "table_inv T" "added T (task_ids w) (deps_of w) T3"
    and t: "t \<in> set (GetReadyTasks (built w (ords 1)) (ords 3))"
  shows "dep_count T3 t = 0" and "\<exists>r. T3 t = Some r \<and> State r = TASK_PENDING" and "t \<notin> set (readyQueue c)"
proof -
  note O = submit_ordersD [OF assms(4)]
  have t: "t \<in> task_ids w" "deps_of w t = []" using t GetReadyTasks_built(2) [OF assms(2) O(2,4) assms(3)] by auto
  show "dep_count T3 t = 0" using added_dep_count(1) [OF add t(1)] t(2) by simp
  show "\<exists>r. T3 t = Some r \<and> State r = TASK_PENDING" using addedD(7) [OF add(2) t(1)] by blast
  have "t \<notin> dom (task_table B (state c))" using assms(5) t(1) unfolding fresh_workflow_def by blast
  then show "t \<notin> set (readyQueue c)" using queue_invD [OF sys_invD(2) [OF assms(1)], of t] by blast
qed

text \<open>A task is QUEUED if it was ready and PENDING otherwise.\<close>

lemma queued_accepted:
  assumes "valid_workflow w" and "added T (task_ids w) (deps_of w) T3" and "t \<in> set (Tasks w)"
    and ready: "set ids = {t \<in> task_ids w. deps_of w t = []}"
    and "\<forall>t. t \<notin> set ids \<longrightarrow> T' t = T3 t" and "\<forall>t\<in>set ids. \<exists>r. T' t = Some r \<and> State r = TASK_QUEUED"
  shows "task_accepted T' w t"
proof -
  have d: "deps_of w (TaskId t) = Dependencies t"
    using deps_of_task assms(1,3) by (simp add: valid_workflow_def)
  have m: "TaskId t \<in> task_ids w" using assms(3) by (simp add: task_ids_def)
  show ?thesis
  proof (cases "Dependencies t = []")
    case True
    with assms(6) m d ready show ?thesis by (auto simp: task_accepted_def)
  next
    case False
    then have "TaskId t \<notin> set ids" using ready d by simp
    with assms(5) addedD(7) [OF assms(2) m] False show ?thesis by (auto simp: task_accepted_def)
  qed
qed

lemma SubmitWorkflow_enqueue:
  assumes inv: "sys_inv B c" and valid: "valid_workflow w" and small: "small_workflow w"
    and ords: "submit_orders w ords" and fresh: "fresh_workflow B c w"
    and inv2: "sys_inv B (c\<lparr>state := db2\<rparr>)" and T2: "task_table B db2 = task_table B (state c)"
    and S2: "spec_table B db2 = (spec_table B (state c))(WorkflowId w \<mapsto> w)"
    and db: "tasks_wf B db3" "only_tasks_changed db2 db3"
    and old: "\<And>k. k \<notin> TaskId ` set (Tasks w) \<Longrightarrow> task_table B db3 k = task_table B db2 k"
    and new: "\<And>t. t \<in> set (Tasks w) \<Longrightarrow> \<exists>now. task_table B db3 (TaskId t) =
        Some (initial_record now wid (GetInDegree (built w (ords 1))) (GetAllDownstream (built w (ords 1))) t)"
  shows "submit_ok B c w ords (enqueue_ready B clk 0 (GetReadyTasks (built w (ords 1)) (ords 3))
             (cache_workflow w (built w (ords 1)) (c\<lparr>state := db3\<rparr>)))"
proof -
  let ?dag = "built w (ords 1)" and ?c2 = "c\<lparr>state := db2\<rparr>"
  let ?ids = "GetReadyTasks ?dag (ords 3)" and ?c3 = "cache_workflow w ?dag (c\<lparr>state := db3\<rparr>)"
  note O = submit_ordersD [OF ords]
  note ready = GetReadyTasks_built [OF valid O(2,4) small]
  have T: "table_inv (task_table B (state ?c2))" using store_invD(3) [OF sys_invD(1) [OF inv2]] .
  have fresh2: "fresh_workflow B ?c2 w" using fresh by (simp add: fresh_workflow_def T2 S2)
  have add: "added (task_table B (state ?c2)) (task_ids w) (deps_of w) (task_table B db3)"
    using fresh old new by (intro initialized_added [OF T valid O(2) small])
      (auto simp: T2 fresh_workflow_def)
  have inv3: "sys_inv B ?c3"
    using tasks_added_inv [OF inv2 valid O(2) _ fresh2, of db3] S2 db add by simp
  have f: "state ?c3 = db3" "readyQueue ?c3 = readyQueue c" by (simp_all add: cache_workflow_def)
  have "\<forall>t\<in>set ?ids. t \<notin> set (readyQueue ?c3) \<and> dep_count (task_table B (state ?c3)) t = 0 \<and>
           (\<exists>r. task_table B (state ?c3) t = Some r \<and> State r = TASK_PENDING)"
    unfolding f using ready_new_tasks [OF inv valid small ords fresh T add] by blast
  from enqueue_ready_keeps [OF inv3 ready(1) this, of clk 0] obtain c' res where
    R: "enqueue_ready B clk 0 ?ids ?c3 = (c', res)" "keeps B ?c3 c'"
      "\<forall>t. t \<notin> set ?ids \<longrightarrow> task_table B (state c') t = task_table B db3 t"
      "assignedTasks c' = assignedTasks ?c3"
      "case res of Inl e \<Rightarrow> \<not> fatal e
       | Inr _ \<Rightarrow> readyQueue c' = readyQueue c @ ?ids \<and>
           (\<forall>t\<in>set ?ids. \<exists>r. task_table B (state c') t = Some r \<and> State r = TASK_QUEUED)"
    unfolding f by blast
  have "task_table B (state c') t = Some r" if r: "task_table B (state c) t = Some r" for t r
  proof -
    have "t \<notin> task_ids w" using r fresh by (auto simp: fresh_workflow_def)
    then show ?thesis using R(3) ready(2) addedD(3) [OF add] r by (simp add: T2)
  qed
  moreover have "taskSpecCache c' (TaskId t) = Some t" if t: "t \<in> set (Tasks w)" for t
    using R(2) t valid spec_map_Some [of "Tasks w" t]
    by (simp add: keeps_def cache_workflow_def GetAllTaskSpecs_def built_deps(2) map_add_def
        valid_workflow_def ids_unique_def)
  moreover note queued_accepted [OF valid add _ ready(2) R(3)]
  ultimately show ?thesis
    using R(1,4,5) keepsD [OF R(2)]
    by (auto simp: submit_ok_def submitted_def cache_workflow_def split: sum.splits)
qed

text \<open>The same from the third transaction on, and for the whole handler.\<close>

lemma SubmitWorkflow_tasks:
  assumes inv: "sys_inv B c" and valid: "valid_workflow w" and small: "small_workflow w"
    and ords: "submit_orders w ords" and fresh: "fresh_workflow B c w"
    and inv2: "sys_inv B (c\<lparr>state := db2\<rparr>)" and T2: "task_table B db2 = task_table B (state c)"
    and S2: "spec_table B db2 = (spec_table B (state c))(WorkflowId w \<mapsto> w)"
  shows "submit_ok B c w ords
    (case InitializeTasksForWorkflow B (clk 1) db2 (WorkflowId w) (Tasks w)
            (GetInDegree (built w (ords 1))) (GetAllDownstream (built w (ords 1))) of
       (db, Inl e) \<Rightarrow> (c\<lparr>state := db\<rparr>, Inl e)
     | (db, Inr _) \<Rightarrow> enqueue_ready B (clk 2) 0 (GetReadyTasks (built w (ords 1)) (ords 3))
         (cache_workflow w (built w (ords 1)) (c\<lparr>state := db\<rparr>)))"
proof -
  let ?dag = "built w (ords 1)"
  have "tasks_wf B db2" using store_invD(1) [OF sys_invD(1) [OF inv2]] by simp
  moreover have "distinct (map TaskId (Tasks w))"
    using valid by (simp add: valid_workflow_def ids_unique_def)
  moreover have "\<forall>t\<in>set (Tasks w). \<forall>ds. GetAllDownstream ?dag (TaskId t) = Some ds \<longrightarrow> set ds \<subseteq> TaskId ` set (Tasks w)"
    using downstream_closed [OF valid submit_ordersD(2) [OF ords]] unfolding GetAllDownstream_def task_ids_def by blast
  ultimately show ?thesis
  proof (cases rule: InitializeTasksForWorkflow_cases [of db2 "Tasks w" "GetAllDownstream ?dag" "clk 1" "WorkflowId w" "GetInDegree ?dag"])
    case (error m)
    have "submitted B c (c\<lparr>state := db2\<rparr>)" using inv2 T2 by (simp add: submitted_def)
    with error show ?thesis by (simp add: submit_ok_error)
  next
    case (ok db3)
    with SubmitWorkflow_enqueue [OF inv valid small ords fresh inv2 T2 S2 ok(2,3,5,6), of "clk 2"] show ?thesis by simp
  qed
qed

lemma SubmitWorkflow_valid:
  assumes inv: "sys_inv B c" and small: "small_workflow w" and ords: "submit_orders w ords" and fresh: "fresh_workflow B c w"
    and valid: "valid_workflow w" "ValidateAndSort (ords 0) (ords 1) (ords 2) w = Inr (built w (ords 1))"
  shows "submit_ok B c w ords (SubmitWorkflow B clk ords c w)"
proof (cases rule: StoreWorkflow_cases [of "state c" w])
  case (error m)
  with valid(2) inv show ?thesis by (simp add: SubmitWorkflow_def submit_ok_error submitted_def)
next
  case store: (ok db1)
  note I1 = spec_stored_inv [OF inv fresh store(3,2)]
  have "workflows_wf B db1" using store_invD(2) [OF sys_invD(1) [OF I1(1)]] by simp
  then show ?thesis
  proof (cases rule: InitWorkflowState_cases [of db1 "clk 0 0" "WorkflowId w"])
    case (error m)
    with valid(2) store(1) I1 show ?thesis by (simp add: SubmitWorkflow_def submit_ok_error submitted_def)
  next
    case init: (ok db2)
    have I2: "sys_inv B (c\<lparr>state := db2\<rparr>)" "task_table B db2 = task_table B (state c)"
      using sys_inv_workflow_state [OF I1(1), of "c\<lparr>state := db2\<rparr>"] init(3,4) I1(2) by simp_all
    have S2: "spec_table B db2 = (spec_table B (state c))(WorkflowId w \<mapsto> w)"
      using spec_table_cong [OF only_workflow_state_changedD(2) [OF init(4)], of B] store(2) by simp
    show ?thesis
      unfolding SubmitWorkflow_def valid(2) store(1) init(1) sum.case prod.case
      by (rule SubmitWorkflow_tasks [OF inv valid(1) small ords fresh I2 S2])
  qed
qed

lemma SubmitWorkflow_cases:
  assumes inv: "sys_inv B c" and small: "small_workflow w"
    and ords: "submit_orders w ords" and fresh: "fresh_workflow B c w"
  obtains
    (invalid) e where "\<not> valid_workflow w" "ValidateAndSort (ords 0) (ords 1) (ords 2) w = Inl e"
      "SubmitWorkflow B clk ords c w = (c, Inl (InvalidDAG e))"
  | (dropped) c' e where "valid_workflow w" "SubmitWorkflow B clk ords c w = (c', Inl e)" "\<not> fatal e"
      "submitted B c c'"
  | (accepted) c' where "valid_workflow w" "SubmitWorkflow B clk ords c w = (c', Inr ())" "submitted B c c'"
      "readyQueue c' = readyQueue c @ GetReadyTasks (built w (ords 1)) (ords 3)"
      "\<And>t. t \<in> set (Tasks w) \<Longrightarrow> taskSpecCache c' (TaskId t) = Some t \<and>
         task_accepted (task_table B (state c')) w t"
proof -
  note O = submit_ordersD [OF ords]
  have refused: thesis if "ValidateAndSort (ords 0) (ords 1) (ords 2) w = Inl e" "\<not> valid_workflow w" for e
    using invalid [OF that(2,1)] that(1) by (simp add: SubmitWorkflow_def)
  from O(1,3) show thesis
  proof (cases rule: ValidateAndSort_cases [of w "ords 0" "ords 2" "ords 1"])
    case duplicate
    then show thesis using refused by (auto simp: valid_workflow_def)
  next
    case (missing t x)
    then show thesis using refused by (auto simp: valid_workflow_def)
  next
    case (cyclic y)
    then have "\<not> acyclic (dep_rel w)" by (auto simp: acyclic_def)
    with cyclic show thesis using refused by (auto simp: valid_workflow_def)
  next
    case valid
    obtain c' res where s: "SubmitWorkflow B clk ords c w = (c', res)" by fastforce
    with SubmitWorkflow_valid [OF inv small ords fresh valid, of clk] have "submit_ok B c w ords (c', res)" by simp
    with s show thesis
      using dropped [OF valid(1), of c'] accepted [OF valid(1), of c'] by (cases res) (simp_all add: submit_ok_def)
  qed
qed

end

end
