(* ===== verification/Coord_Restart.thy ===== *)
theory Coord_Restart
  imports Coord_Submit
begin

text \<open>
  Restart: what \<^verbatim>\<open>main\<close> of \<^verbatim>\<open>cmd/coordinator/main.go\<close> does with the database before it serves
  requests. From any database that satisfies the stored part of the invariant, the new
  coordinator satisfies the whole invariant; its ready queue lists the QUEUED tasks, then
  the tasks that were RUNNING, and when no commit fails no task is left RUNNING.
\<close>

section \<open>Startup\<close>

text \<open>
  The two recovery calls, whose errors are logged only. \<open>interval\<close> and \<open>dead\<close> are the
  command line flags \<^verbatim>\<open>-scan-interval\<close> and \<^verbatim>\<open>-dead-threshold\<close>.
\<close>

definition startup ::
    "'b bolt \<Rightarrow> i64 \<Rightarrow> i64 \<Rightarrow> i64 \<Rightarrow> clock \<Rightarrow> (nat \<Rightarrow> string) \<Rightarrow> 'b DB \<Rightarrow> 'b Coordinator \<times> (err + unit)" where
  "startup B interval dead now clk uuid db =
     (case LoadStateFromDB B (NewCoordinator db [WithHeartbeatConfig interval dead]) of
        (c, r1) \<Rightarrow>
          if panics r1 then (c, r1)
          else
            (case PrepareRecovery B now clk uuid c of
               (c, r2) \<Rightarrow> (c, if panics r2 then r2 else Inr ())))"

definition tasks_in :: "table \<Rightarrow> TaskState \<Rightarrow> string set" where
  "tasks_in T s = {t. \<exists>r. T t = Some r \<and> State r = s}"

text \<open>The ids of the tasks in a state, in key order.\<close>

definition keys_in :: "'b bolt \<Rightarrow> 'b DB \<Rightarrow> TaskState \<Rightarrow> string list" where
  "keys_in B db s = filter (\<lambda>k. State (the (task_table B db k)) = s) (task_keys B db)"

text \<open>The specifications of every workflow that was running are cached.\<close>

definition caches_running :: "'b bolt \<Rightarrow> 'b DB \<Rightarrow> 'b Coordinator \<Rightarrow> bool" where
  "caches_running B db c \<longleftrightarrow>
     (\<forall>w rec s. wf_table B db w = Some rec \<longrightarrow> wsr_State rec = WORKFLOW_RUNNING \<longrightarrow>
        spec_table B db (wsr_WorkflowID rec) = Some s \<longrightarrow> task_ids s \<subseteq> dom (taskSpecCache c))"

section \<open>Hydration\<close>

lemma queued_only: "queue_inv T q \<Longrightarrow> T t = Some r \<Longrightarrow> State r \<noteq> TASK_QUEUED \<Longrightarrow> t \<notin> set q"
  by (auto simp: queue_inv_def)

lemma cache_specs_fields:
  "state (fold (cache_spec w) ts c) = state c" "readyQueue (fold (cache_spec w) ts c) = readyQueue c"
  "runningTasks (fold (cache_spec w) ts c) = runningTasks c"
  "assignedTasks (fold (cache_spec w) ts c) = assignedTasks c"
  by (induction ts arbitrary: c) (auto simp: cache_spec_def)

lemma cache_inv_upd:
  assumes "cache_inv T cache" and "linked T s"
  shows "cache_inv T (cache(TaskId s \<mapsto> s))"
  unfolding cache_inv_def
proof (intro allI impI)
  fix t s' assume "(cache(TaskId s \<mapsto> s)) t = Some s'"
  with assms show "TaskId s' = t \<and> linked T s'"
    by (cases "t = TaskId s") (simp_all add: cache_inv_def)
qed

lemma cache_specs_inv:
  assumes "cache_inv T (taskSpecCache c)" and "\<forall>s\<in>set ts. linked T s"
  shows "cache_inv T (taskSpecCache (fold (cache_spec w) ts c))"
  using assms
proof (induction ts arbitrary: c)
  case (Cons s ts)
  then have "cache_inv T (taskSpecCache (cache_spec w s c))"
    by (simp add: cache_spec_def cache_inv_upd)
  with Cons show ?case by simp
qed simp

lemma cache_specs_dom:
  "dom (taskSpecCache (fold (cache_spec w) ts c)) = dom (taskSpecCache c) \<union> TaskId ` set ts"
  by (induction ts arbitrary: c) (auto simp: cache_spec_def)

lemma NewCoordinator_fields [simp]:
  "state (NewCoordinator db [WithHeartbeatConfig i d]) = db"
  "readyQueue (NewCoordinator db [WithHeartbeatConfig i d]) = []"
  "runningTasks (NewCoordinator db [WithHeartbeatConfig i d]) = Map.empty"
  "assignedTasks (NewCoordinator db [WithHeartbeatConfig i d]) = Map.empty"
  "taskSpecCache (NewCoordinator db [WithHeartbeatConfig i d]) = Map.empty"
  by (simp_all add: NewCoordinator_def WithHeartbeatConfig_def)

lemma NewCoordinator_inv:
  "store_inv B db \<Longrightarrow> sys_inv B (NewCoordinator db [WithHeartbeatConfig i d])"
  by (simp add: sys_inv_def queue_inv_def assigned_inv_def cache_inv_def)

context bolt_spec
begin

lemma load_workflows_inv:
  assumes "sys_inv B c"
  shows "\<exists>c'. load_workflows B ws c = (c', Inr ()) \<and> sys_inv B c' \<and> state c' = state c \<and>
    readyQueue c' = readyQueue c \<and> assignedTasks c' = assignedTasks c \<and>
    dom (taskSpecCache c) \<subseteq> dom (taskSpecCache c') \<and>
    (\<forall>rec\<in>set ws. \<forall>s. wsr_State rec = WORKFLOW_RUNNING \<longrightarrow>
       spec_table B (state c) (wsr_WorkflowID rec) = Some s \<longrightarrow> task_ids s \<subseteq> dom (taskSpecCache c'))"
  using assms
proof (induction ws arbitrary: c)
  case Nil
  then show ?case by simp
next
  case (Cons rec ws)
  show ?case
  proof (cases "wsr_State rec = WORKFLOW_RUNNING \<and> spec_table B (state c) (wsr_WorkflowID rec) \<noteq> None")
    case False
    have "load_workflows B (rec # ws) c = load_workflows B ws c"
    proof (cases "wsr_State rec = WORKFLOW_RUNNING")
      case True
      with False have "spec_table B (state c) (wsr_WorkflowID rec) = None" by simp
      then obtain e where "GetWorkflow B (state c) (wsr_WorkflowID rec) = Inl e"
        using GetWorkflow_table [of "state c" "wsr_WorkflowID rec"]
        by (cases "GetWorkflow B (state c) (wsr_WorkflowID rec)") auto
      with True GetWorkflow_error [OF this] show ?thesis by simp
    qed simp
    with Cons.IH [OF Cons.prems] obtain c' where IH: "load_workflows B (rec # ws) c = (c', Inr ())"
      "sys_inv B c'" "state c' = state c" "readyQueue c' = readyQueue c" "assignedTasks c' = assignedTasks c"
      "dom (taskSpecCache c) \<subseteq> dom (taskSpecCache c')"
      "\<forall>rec\<in>set ws. \<forall>s. wsr_State rec = WORKFLOW_RUNNING \<longrightarrow>
       spec_table B (state c) (wsr_WorkflowID rec) = Some s \<longrightarrow> task_ids s \<subseteq> dom (taskSpecCache c')"
      by metis
    with False show ?thesis by (intro exI [of _ c']) simp
  next
    case True
    then obtain s where s: "spec_table B (state c) (wsr_WorkflowID rec) = Some s" by blast
    let ?c0 = "c\<lparr>workflowFailurePolicy := (workflowFailurePolicy c)(WorkflowId s \<mapsto> Failure_Policy s)\<rparr>"
    let ?c1 = "fold (cache_spec s) (Tasks s) ?c0"
    have "\<forall>t\<in>set (Tasks s). linked (task_table B (state c)) t"
      using store_invD(4) [OF sys_invD(1) [OF Cons.prems]] s by (auto simp: stored_inv_def)
    then have "cache_inv (task_table B (state c)) (taskSpecCache ?c1)"
      using sys_invD(4) [OF Cons.prems] by (intro cache_specs_inv) simp_all
    then have inv1: "sys_inv B ?c1"
      using sys_invD [OF Cons.prems] by (simp add: sys_inv_def cache_specs_fields)
    have dom1: "dom (taskSpecCache ?c1) = dom (taskSpecCache c) \<union> task_ids s"
      by (simp add: cache_specs_dom task_ids_def)
    have "load_workflows B (rec # ws) c = load_workflows B ws ?c1"
      using True s GetWorkflow_table [of "state c" "wsr_WorkflowID rec" s] by simp
    with Cons.IH [OF inv1] obtain c' where IH: "load_workflows B (rec # ws) c = (c', Inr ())"
      "sys_inv B c'" "state c' = state c" "readyQueue c' = readyQueue c" "assignedTasks c' = assignedTasks c"
      "dom (taskSpecCache ?c1) \<subseteq> dom (taskSpecCache c')"
      "\<forall>rec\<in>set ws. \<forall>s. wsr_State rec = WORKFLOW_RUNNING \<longrightarrow>
       spec_table B (state c) (wsr_WorkflowID rec) = Some s \<longrightarrow> task_ids s \<subseteq> dom (taskSpecCache c')"
      unfolding cache_specs_fields by auto
    have "task_ids s \<subseteq> dom (taskSpecCache c')" and "dom (taskSpecCache c) \<subseteq> dom (taskSpecCache c')"
      using IH(6) dom1 by blast+
    with IH s show ?thesis by (intro exI [of _ c']) simp
  qed
qed

lemma keys_in_set:
  assumes "tasks_wf B db"
  shows "set (keys_in B db s) = tasks_in (task_table B db) s" and "distinct (keys_in B db s)"
  using task_keys(1,2) [OF assms] by (auto simp: keys_in_def tasks_in_def)

lemma LoadStateFromDB_inv:
  assumes inv: "sys_inv B c" and fresh: "readyQueue c = []"
  obtains c' where "LoadStateFromDB B c = (c', Inr ())" "sys_inv B c'" "state c' = state c"
    "readyQueue c' = keys_in B (state c) TASK_QUEUED" "assignedTasks c' = assignedTasks c"
    "caches_running B (state c) c'"
proof -
  note S = store_invD [OF sys_invD(1) [OF inv]]
  obtain rs where rs: "GetAllWorkflowStates B (state c) = (rs, None)" "set rs = ran (wf_table B (state c))"
    by (rule GetAllWorkflowStates_table [OF S(2)])
  obtain c1 where c1: "load_workflows B rs c = (c1, Inr ())" "sys_inv B c1" "state c1 = state c"
    "readyQueue c1 = readyQueue c" "assignedTasks c1 = assignedTasks c"
    "\<forall>rec\<in>set rs. \<forall>s. wsr_State rec = WORKFLOW_RUNNING \<longrightarrow>
       spec_table B (state c) (wsr_WorkflowID rec) = Some s \<longrightarrow> task_ids s \<subseteq> dom (taskSpecCache c1)"
    using load_workflows_inv [OF inv, of rs] by blast
  let ?q = "keys_in B (state c) TASK_QUEUED"
  have q: "GetTasksInState B (state c1) TASK_QUEUED = (?q, None)"
    using c1(3) by (simp add: GetTasksInState_table [OF S(1)] keys_in_def)
  have "queue_inv (task_table B (state c)) ?q"
    using keys_in_set [OF S(1), of TASK_QUEUED] by (simp add: queue_inv_def tasks_in_def)
  then have "sys_inv B (enqueue ?q c1)"
    using sys_invD [OF c1(2)] c1(3,4) fresh by (simp add: sys_inv_def)
  moreover have "LoadStateFromDB B c = (enqueue ?q c1, Inr ())"
    using rs(1) c1(1) q by (simp add: LoadStateFromDB_def)
  moreover have "caches_running B (state c) (enqueue ?q c1)"
    using c1(6) rs(2) by (simp add: caches_running_def ran_def)
      (metis (no_types, lifting) mem_Collect_eq)
  ultimately show thesis using that [of "enqueue ?q c1"] c1(3,4,5) fresh by simp
qed

lemma PrepareRecovery_keeps:
  assumes inv: "sys_inv B c" and fresh: "assignedTasks c = Map.empty"
    and run: "PrepareRecovery B now clk uuid c = (c', res)"
  shows "keeps B c c'"
proof -
  let ?T = "task_table B (state c)" and ?ids = "keys_in B (state c) TASK_RUNNING"
  let ?c0 = "c\<lparr>recoveryPrepareCount := recoveryPrepareCount c + 1, lastRecoveryStartedAtMs := now\<rparr>"
  note S = store_invD [OF sys_invD(1) [OF inv]]
  note K = keys_in_set [OF S(1), of TASK_RUNNING]
  have k0: "keeps B c ?c0" by (rule keeps_same [OF inv]) simp_all
  have rq: "requeueable B ?c0 t" if t: "t \<in> set ?ids" for t
  proof -
    obtain r where r: "?T t = Some r" "State r = TASK_RUNNING" using t K(1) by (auto simp: tasks_in_def)
    then have "t \<notin> set (readyQueue c)" using queued_only [OF sys_invD(2) [OF inv]] by simp
    with r fresh table_invD(5) [OF S(3) r(1)] show ?thesis by (simp add: requeueable_def active_def)
  qed
  have "requeue_all B clk uuid 0 ?ids ?c0 = (c', res)"
    using run by (simp add: PrepareRecovery_def Let_def GetTasksInState_table [OF S(1)] keys_in_def)
  from requeue_all_keeps [OF keepsD [OF k0] K(2) _ this] rq have "keeps B ?c0 c'" by blast
  with k0 show ?thesis by (rule keeps_trans)
qed

section \<open>Recovery from any database whose records decode\<close>

text \<open>
  Nothing but well-formed records is needed for the two recovery calls to return and to queue what
  the store says is QUEUED or RUNNING.
\<close>

lemma load_workflows_store:
  "\<exists>c'. load_workflows B ws c = (c', Inr ()) \<and> state c' = state c \<and> readyQueue c' = readyQueue c \<and>
     assignedTasks c' = assignedTasks c"
proof (induction ws arbitrary: c)
  case (Cons rec ws)
  show ?case
  proof (cases "GetWorkflow B (state c) (wsr_WorkflowID rec)")
    case (Inl e)
    with GetWorkflow_error [OF Inl] Cons.IH [of c] show ?thesis by simp
  next
    case (Inr s)
    with Cons.IH [of c] Cons.IH [of "fold (cache_spec s) (Tasks s)
        (c\<lparr>workflowFailurePolicy := (workflowFailurePolicy c)(WorkflowId s \<mapsto> Failure_Policy s)\<rparr>)"]
    show ?thesis by (simp add: cache_specs_fields)
  qed
qed simp

lemma startup_recovers:
  assumes "tasks_wf B db" and "workflows_wf B db"
  obtains c' qs where "startup B interval dead now clk uuid db = (c', Inr ())"
    "tasks_wf B (state c')" "only_tasks_changed db (state c')" "assignedTasks c' = Map.empty"
    "readyQueue c' = keys_in B db TASK_QUEUED @ qs" "distinct (readyQueue c')"
    "set qs \<subseteq> tasks_in (task_table B db) TASK_RUNNING"
    "requeues clk uuid 0 (keys_in B db TASK_RUNNING) qs (task_table B db) (task_table B (state c'))"
    "reliable B \<Longrightarrow> ids_fit (task_table B db) (tasks_in (task_table B db) TASK_RUNNING) uuid \<Longrightarrow>
       qs = keys_in B db TASK_RUNNING"
proof -
  let ?c0 = "NewCoordinator db [WithHeartbeatConfig interval dead]" and ?ids = "keys_in B db TASK_RUNNING"
  note Q = keys_in_set [OF assms(1), of TASK_QUEUED] and R = keys_in_set [OF assms(1), of TASK_RUNNING]
  obtain rs where rs: "GetAllWorkflowStates B db = (rs, None)" by (rule GetAllWorkflowStates_table [OF assms(2)])
  obtain c1 where c1: "load_workflows B rs ?c0 = (c1, Inr ())" "state c1 = db" "readyQueue c1 = []" "assignedTasks c1 = Map.empty"
    using load_workflows_store [of rs ?c0] by auto
  let ?c2 = "enqueue (keys_in B db TASK_QUEUED) c1"
  let ?c3 = "?c2\<lparr>recoveryPrepareCount := recoveryPrepareCount ?c2 + 1, lastRecoveryStartedAtMs := now\<rparr>"
  have load: "LoadStateFromDB B ?c0 = (?c2, Inr ())"
    using rs c1 by (simp add: LoadStateFromDB_def GetTasksInState_table [OF assms(1)] keys_in_def)
  have "tasks_wf B (state ?c3)" using assms(1) c1(2) by simp
  from requeue_all_table [OF this R(2), of clk uuid 0] obtain c' qs where c': "requeue_all B clk uuid 0 ?ids ?c3 = (c', Inr ())"
    "tasks_wf B (state c')" "only_tasks_changed (state ?c3) (state c')" "readyQueue c' = readyQueue ?c3 @ qs" "distinct qs"
    "set qs \<subseteq> set ?ids" "assignedTasks c' = assignedTasks ?c3"
    "requeues clk uuid 0 ?ids qs (task_table B (state ?c3)) (task_table B (state c'))"
    "reliable B \<longrightarrow> ids_fit (task_table B (state ?c3)) (set ?ids) uuid \<longrightarrow> set ?ids \<subseteq> dom (task_table B (state ?c3)) \<longrightarrow> qs = ?ids"
    by blast
  have "PrepareRecovery B now clk uuid ?c2 = (c', Inr ())"
    using c'(1) c1(2) by (simp add: PrepareRecovery_def Let_def GetTasksInState_table [OF assms(1)] keys_in_def)
  with load have "startup B interval dead now clk uuid db = (c', Inr ())" by (simp add: startup_def)
  moreover have "set ?ids \<subseteq> dom (task_table B db)" using R(1) by (auto simp: tasks_in_def)
  moreover have "distinct (keys_in B db TASK_QUEUED @ qs)"
    using Q R(1) c'(5,6) by (auto simp: tasks_in_def)
  ultimately show thesis using that [of c' qs] c'(2-9) c1 R(1) by simp
qed

text \<open>When commits succeed, recovery is exact.\<close>

lemma startup_exact:
  assumes "tasks_wf B db" and "workflows_wf B db" and "reliable B"
    and "ids_fit (task_table B db) (tasks_in (task_table B db) TASK_RUNNING) uuid"
  shows "\<exists>c' qs. startup B interval dead now clk uuid db = (c', Inr ()) \<and>
    assignedTasks c' = Map.empty \<and> distinct (readyQueue c') \<and>
    set (readyQueue c') = tasks_in (task_table B db) TASK_QUEUED \<union> tasks_in (task_table B db) TASK_RUNNING \<and>
    tasks_in (task_table B (state c')) TASK_RUNNING = {} \<and>
    set qs = tasks_in (task_table B db) TASK_RUNNING \<and> distinct qs \<and>
    (\<forall>j<length qs. \<exists>r. task_table B db (qs ! j) = Some r \<and>
       task_table B (state c') (qs ! j) = Some (r\<lparr>State := TASK_QUEUED, ExecutionID := uuid j, LastUpdated := clk j\<rparr>)) \<and>
    (\<forall>t. t \<notin> set qs \<longrightarrow> task_table B (state c') t = task_table B db t)"
proof -
  let ?qs = "keys_in B db TASK_RUNNING"
  obtain c' where S: "startup B interval dead now clk uuid db = (c', Inr ())"
    "assignedTasks c' = Map.empty" "readyQueue c' = keys_in B db TASK_QUEUED @ ?qs" "distinct (readyQueue c')"
    "requeues clk uuid 0 ?qs ?qs (task_table B db) (task_table B (state c'))"
    by (rule startup_recovers [OF assms(1,2), of interval dead now clk uuid]) (use assms(3,4) in blast)
  note keys = keys_in_set [OF assms(1)]
  have "t \<notin> tasks_in (task_table B (state c')) TASK_RUNNING" for t
  proof (cases "t \<in> set ?qs")
    case True
    from requeues_all_state [OF S(5) this] show ?thesis by (auto simp: tasks_in_def)
  next
    case False
    with requeues_all(2) [OF S(5) False] keys(1) show ?thesis by (auto simp: tasks_in_def)
  qed
  then show ?thesis
    using S(1-4) requeues_all [OF S(5)] keys by (intro exI [of _ c'] exI [of _ ?qs]) auto
qed

lemma startup_cases:
  assumes "store_inv B db"
  obtains c' qs where "startup B interval dead now clk uuid db = (c', Inr ())" "sys_inv B c'"
    "evolves (task_table B db) (task_table B (state c'))"
    "spec_table B (state c') = spec_table B db"
    "readyQueue c' = keys_in B db TASK_QUEUED @ qs" "set qs \<subseteq> tasks_in (task_table B db) TASK_RUNNING"
    "assignedTasks c' = Map.empty" "caches_running B db c'"
    "requeues clk uuid 0 (keys_in B db TASK_RUNNING) qs (task_table B db) (task_table B (state c'))"
    "reliable B \<Longrightarrow> ids_fit (task_table B db) (tasks_in (task_table B db) TASK_RUNNING) uuid \<Longrightarrow>
       qs = keys_in B db TASK_RUNNING"
proof -
  let ?c0 = "NewCoordinator db [WithHeartbeatConfig interval dead]"
  obtain c1 where c1: "LoadStateFromDB B ?c0 = (c1, Inr ())" "sys_inv B c1" "state c1 = db"
    "readyQueue c1 = keys_in B db TASK_QUEUED" "assignedTasks c1 = Map.empty" "caches_running B db c1"
    using LoadStateFromDB_inv [OF NewCoordinator_inv [OF assms], of interval dead] by auto
  obtain c' qs where c': "startup B interval dead now clk uuid db = (c', Inr ())" "assignedTasks c' = Map.empty"
    "readyQueue c' = keys_in B db TASK_QUEUED @ qs" "set qs \<subseteq> tasks_in (task_table B db) TASK_RUNNING"
    "requeues clk uuid 0 (keys_in B db TASK_RUNNING) qs (task_table B db) (task_table B (state c'))"
    "reliable B \<Longrightarrow> ids_fit (task_table B db) (tasks_in (task_table B db) TASK_RUNNING) uuid \<Longrightarrow>
       qs = keys_in B db TASK_RUNNING"
    by (rule startup_recovers [OF store_invD(1,2) [OF assms], of interval dead now clk uuid]) blast
  obtain res where "PrepareRecovery B now clk uuid c1 = (c', res)"
    using c1(1) c'(1) by (auto simp: startup_def split: prod.splits if_splits)
  note k = PrepareRecovery_keeps [OF c1(2,5) this]
  moreover have "caches_running B db c'" using c1(6) k by (simp add: caches_running_def keeps_def)
  ultimately show thesis
    using that [of c' qs] c' c1(3) by (simp add: keeps_def)
qed

end

end
