(* ===== verification/Coord_Records.thy ===== *)
theory Coord_Records
  imports Coord_Restart
begin

text \<open>
  What holds without any condition on the requests. The invariant \<open>sys_inv\<close> needs submissions with
  new task ids; the well-formedness of the stored records (\<open>records_wf\<close>) needs nothing: every
  handler keeps it from every state of the memory, so that a restart can always read the
  database. A submission writes the records of its own task ids only.
\<close>

definition records_wf :: "'b bolt \<Rightarrow> 'b DB \<Rightarrow> bool" where
  "records_wf B db \<longleftrightarrow> tasks_wf B db \<and> workflows_wf B db"

lemma records_wf_tasks:
  assumes "records_wf B db" and "only_tasks_changed db db'" and "tasks_wf B db'"
  shows "records_wf B db'"
  using assms wf_table_cong(2) [OF only_tasks_changedD(4) [OF assms(2)]] by (auto simp: records_wf_def)

lemma records_wf_workflow_state:
  assumes "records_wf B db" and "only_workflow_state_changed db db'" and "workflows_wf B db'"
  shows "records_wf B db'"
  using assms task_table_cong(2) [OF only_workflow_state_changedD(1) [OF assms(2)]] by (simp add: records_wf_def)

lemma UpdateWorkerHeartbeat_state [simp]: "state (UpdateWorkerHeartbeat c k ts ids) = state c"
  by (simp add: UpdateWorkerHeartbeat_def split: prod.split)

context bolt_spec
begin

section \<open>Operations of the store\<close>

lemma UpdateTaskState_records:
  assumes "records_wf B db" and "UpdateTaskState B now db t st = (db', r)" and "canonical_task_state st"
  shows "records_wf B db'"
proof -
  have "tasks_wf B db" using assms(1) by (simp add: records_wf_def)
  then show ?thesis
    by (cases rule: UpdateTaskState_cases [OF _ assms(3), of db now t])
       (use assms(1,2) in \<open>auto intro: records_wf_tasks\<close>)
qed

lemma AssignTask_records:
  assumes "records_wf B db" and "AssignTask B now db t e = (db', r)"
  shows "records_wf B db'"
proof -
  have "tasks_wf B db" using assms(1) by (simp add: records_wf_def)
  then show ?thesis
    by (cases rule: AssignTask_cases [of db now t e]) (use assms in \<open>auto intro: records_wf_tasks\<close>)
qed

lemma RequeueTask_records:
  assumes "records_wf B db" and "RequeueTask B now db t e = (db', r)"
  shows "records_wf B db'"
proof -
  have "tasks_wf B db" using assms(1) by (simp add: records_wf_def)
  then show ?thesis
    by (cases rule: RequeueTask_cases [of db now t e]) (use assms in \<open>auto intro: records_wf_tasks\<close>)
qed

lemma FailTask_records:
  assumes "records_wf B db" and "FailTask B now db t msg n = (db', r)"
  shows "records_wf B db'"
proof -
  have "tasks_wf B db" using assms(1) by (simp add: records_wf_def)
  then show ?thesis
    by (cases rule: FailTask_cases [of db now t msg n]) (use assms in \<open>auto intro: records_wf_tasks\<close>)
qed

lemma CompleteTask_records:
  assumes "records_wf B db" and "CompleteTask B clk db t e out = (db', r)"
  shows "records_wf B db'"
proof -
  have "tasks_wf B db" using assms(1) by (simp add: records_wf_def)
  then show ?thesis
    by (cases rule: CompleteTask_cases [of db t clk e out]) (use assms in \<open>auto intro: records_wf_tasks\<close>)
qed

lemma CancelWorkflowTasks_records:
  assumes "records_wf B db" and "CancelWorkflowTasks B clk db w = (db', r)"
  shows "records_wf B db'"
proof -
  have "tasks_wf B db" using assms(1) by (simp add: records_wf_def)
  then show ?thesis
    by (cases rule: CancelWorkflowTasks_cases [of db clk w]) (use assms in \<open>auto intro: records_wf_tasks\<close>)
qed

lemma SkipDownstreamTasks_records:
  assumes "records_wf B db" and "SkipDownstreamTasks B clk db t = (db', r)"
  shows "records_wf B db'"
proof -
  have wf: "tasks_wf B db" using assms(1) by (simp add: records_wf_def)
  show ?thesis
  proof (cases "task_table B db t")
    case None
    with assms wf show ?thesis by (simp add: SkipDownstreamTasks_def GetTask_table)
  next
    case (Some rec)
    show ?thesis
      by (rule SkipDownstreamTasks_ok [OF wf Some, of clk]) (use assms in \<open>auto intro: records_wf_tasks\<close>)
  qed
qed

lemma UpdateWorkflowState_records:
  assumes "records_wf B db" and "UpdateWorkflowState B clk db w st = (db', r)" and "canonical_workflow_state st"
  shows "records_wf B db'"
proof -
  have "workflows_wf B db" using assms(1) by (simp add: records_wf_def)
  then show ?thesis
    by (cases rule: UpdateWorkflowState_cases [OF _ assms(3), of db clk w])
       (use assms(1,2) in \<open>auto intro: records_wf_workflow_state\<close>)
qed

section \<open>Handlers\<close>

lemma GetReadyTask_records:
  assumes "records_wf B (state c)" and "GetReadyTask B now uid c k = (c', r)"
  shows "records_wf B (state c')"
  using assms AssignTask_records [OF assms(1), of now _ uid]
  by (fastforce simp: GetReadyTask_def Let_def set_QueueDepth_def split: list.splits option.splits prod.splits sum.splits)

lemma checkWorkflowCompletion_records:
  assumes "records_wf B (state c)" and "checkWorkflowCompletion B clk c w = (c', r)"
  shows "records_wf B (state c')"
proof -
  have "canonical_workflow_state (final_state sts)" for sts by (simp add: final_state_def)
  then show ?thesis
    using assms UpdateWorkflowState_records [OF assms(1), of clk w "final_state _"]
    by (fastforce simp: checkWorkflowCompletion_def split: prod.splits sum.splits option.splits bool.splits)
qed

lemma CompleteTask_handler_records:
  assumes "records_wf B (state c)" and "Coordinator_CompleteTask B clk c t e out = (c', r)"
  shows "records_wf B (state c')"
proof (cases "CompleteTask_admit B c t e")
  case Proceed
  obtain db res where s: "CompleteTask B (clk 0) (state c) t e out = (db, res)" by fastforce
  note R = CompleteTask_records [OF assms(1) s]
  show ?thesis
  proof (cases res)
    case (Inr ready)
    have "records_wf B (state (CompleteTask_finish t ready (c\<lparr>state := db\<rparr>)))" using R by simp
    from checkWorkflowCompletion_records [OF this] assms(2) Proceed s Inr R show ?thesis
      by (auto simp: Coordinator_CompleteTask_def Let_def split: if_splits)
  qed (use assms(2) Proceed s R in \<open>auto simp: Coordinator_CompleteTask_def\<close>)
qed (use assms in \<open>auto simp: Coordinator_CompleteTask_def\<close>)

lemma applyFailurePolicy_records:
  assumes "records_wf B (state c)" and "applyFailurePolicy B clk c w t policy = (c', r)"
  shows "records_wf B (state c')"
proof -
  obtain db res where s: "SkipDownstreamTasks B (clk 0) (state c) t = (db, res)" by fastforce
  obtain db1 res1 where k: "CancelWorkflowTasks B (clk 0) (state c) w = (db1, res1)" by fastforce
  obtain db2 res2 where u: "UpdateWorkflowState B (clk 1) db1 w WORKFLOW_FAILED = (db2, res2)" by fastforce
  note S = SkipDownstreamTasks_records [OF assms(1) s] and K = CancelWorkflowTasks_records [OF assms(1) k]
  note U = UpdateWorkflowState_records [OF K u canonical_workflow_state_named(3)]
  have skip: "records_wf B (state c')"
    if "policy = SKIP_DOWNSTREAM \<or> policy = CONTINUE_INDEPENDENT"
  proof (cases res)
    case (Inl e)
    with that assms(2) s S checkWorkflowCompletion_records [of "c\<lparr>state := db\<rparr>" "clk 1" w c' r] show ?thesis
      by (auto simp: applyFailurePolicy_def split: if_splits)
  next
    case (Inr skipped)
    let ?c1 = "if skipped \<noteq> [] then dequeue_all skipped (c\<lparr>state := db\<rparr>) else c\<lparr>state := db\<rparr>"
    have "checkWorkflowCompletion B (clk 1) ?c1 w = (c', r)"
      using that assms(2) s Inr by (auto simp: applyFailurePolicy_def)
    moreover have "records_wf B (state ?c1)" using S by simp
    ultimately show ?thesis by (rule checkWorkflowCompletion_records [rotated])
  qed
  show ?thesis
    by (cases policy) (use skip assms k u K U in \<open>auto simp: applyFailurePolicy_def Let_def split: sum.splits\<close>)
qed

lemma FailTask_handler_records:
  assumes "records_wf B (state c)" and "Coordinator_FailTask B clk uid c t e msg = (c', r)"
  shows "records_wf B (state c')"
proof (cases "assignedTasks c t = Some e \<and> (\<exists>rec. GetTask B (state c) t = Inr rec)")
  case True
  then obtain rec where rec: "GetTask B (state c) t = Inr rec" by blast
  obtain db res where s: "RequeueTask B (clk 0 0) (state c) t uid = (db, res)" by fastforce
  obtain db1 res1 where f: "FailTask B (clk 0 0) (state c) t msg (AttemptCount rec + 1) = (db1, res1)" by fastforce
  note S = RequeueTask_records [OF assms(1) s] and F = FailTask_records [OF assms(1) f]
  let ?w = "taskWorkflowID c t" and ?c1 = "count_failure (taskWorkflowID c t) (unassign t (c\<lparr>state := db1\<rparr>))"
  have P: "records_wf B (state c')"
    if "applyFailurePolicy B (\<lambda>k. clk (Suc k)) ?c1 ?w t (policy_of c ?w) = (c', r)"
    using applyFailurePolicy_records [OF _ that] F by simp
  show ?thesis
    using assms(2) True rec s f S F P
    by (cases res; cases res1) (auto simp: Coordinator_FailTask_def Let_def split: if_splits)
qed (use assms in \<open>auto simp: Coordinator_FailTask_def split: if_splits sum.splits\<close>)

lemma CancelWorkflow_records:
  assumes "records_wf B (state c)" and "CancelWorkflow B clk c w = (c', r)"
  shows "records_wf B (state c')"
proof -
  obtain db1 res1 where k: "CancelWorkflowTasks B (clk 0) (state c) w = (db1, res1)" by fastforce
  obtain db2 res2 where u: "UpdateWorkflowState B (clk 1) db1 w WORKFLOW_CANCELLED = (db2, res2)" by fastforce
  note K = CancelWorkflowTasks_records [OF assms(1) k]
  note U = UpdateWorkflowState_records [OF K u canonical_workflow_state_named(4)]
  show ?thesis using assms k u K U by (cases res1) (auto simp: CancelWorkflow_def Let_def)
qed

lemma requeue_all_records:
  "records_wf B (state c) \<Longrightarrow> requeue_all B clk uuid i ids c = (c', r) \<Longrightarrow> records_wf B (state c')"
proof (induction ids arbitrary: c i)
  case (Cons t ids)
  obtain db res where s: "RequeueTask B (clk i) (state c) t (uuid i) = (db, res)" by fastforce
  note R = RequeueTask_records [OF Cons.prems(1) s]
  show ?case
    using Cons.prems(2) Cons.IH [of "c\<lparr>state := db\<rparr>" "Suc i"] Cons.IH [of "enqueue [t] (c\<lparr>state := db\<rparr>)" "Suc i"] R s
    by (cases res) (auto split: if_splits)
qed simp

lemma HandleDeadWorker_records:
  assumes "records_wf B (state c)" and "HandleDeadWorker B now clk uuid ord c w = (c', r)"
  shows "records_wf B (state c')"
proof -
  let ?ids = "tasks_of_worker c ord w"
  obtain d res where d: "requeue_all B clk uuid 0 ?ids (fold unassign ?ids (count_dead_worker now c)) = (d, res)" by fastforce
  have "records_wf B (state d)" using requeue_all_records [OF _ d] assms(1) by (simp add: unassign_all_fields)
  with assms(2) d show ?thesis by (cases res) (auto simp: HandleDeadWorker_def Let_def)
qed

lemma handle_dead_records:
  "records_wf B (state c) \<Longrightarrow> handle_dead B calls ws c = (c', r) \<Longrightarrow> records_wf B (state c')"
proof (induction ws arbitrary: c)
  case (Cons w ws)
  obtain now clk uuid ord where w: "calls w = (now, clk, uuid, ord)" by (metis prod_cases4)
  obtain d res where d: "HandleDeadWorker B now clk uuid (ord (runningTasks c)) c w = (d, res)" by fastforce
  have "records_wf B (state d)" by (rule HandleDeadWorker_records [OF Cons.prems(1) d])
  with Cons.prems(2) w d Cons.IH [of "d\<lparr>heartbeat := forget_worker w (heartbeat d)\<rparr>"] show ?case
    by (auto split: if_splits)
qed simp

lemma Run_tick_records:
  "records_wf B (state c) \<Longrightarrow> Run_tick B now ord calls c = (c', r) \<Longrightarrow> records_wf B (state c')"
  unfolding Run_tick_def by (rule handle_dead_records)

lemma startup_records:
  assumes "records_wf B db" and "startup B interval dead now clk uuids db = (c', r)"
  shows "records_wf B (state c')"
proof -
  have "tasks_wf B db" "workflows_wf B db" using assms(1) by (simp_all add: records_wf_def)
  then show ?thesis
    by (rule startup_recovers [of db interval dead now clk uuids])
       (use assms in \<open>auto intro: records_wf_tasks\<close>)
qed

section \<open>Submission, with new task ids or not\<close>

lemma enqueue_ready_records:
  assumes "records_wf B (state c)" and "enqueue_ready B clk i ids c = (c', r)"
  shows "records_wf B (state c') \<and> (\<forall>t. t \<notin> set ids \<longrightarrow> task_table B (state c') t = task_table B (state c) t)"
  using assms
proof (induction ids arbitrary: c i)
  case (Cons t ids)
  have wf: "tasks_wf B (state c)" using Cons.prems(1) by (simp add: records_wf_def)
  show ?case
  proof (rule UpdateTaskState_cases [OF wf canonical_task_state_named(2), of "clk i" t])
    fix db' rec
    assume ok: "UpdateTaskState B (clk i) (state c) t TASK_QUEUED = (db', Inr ())"
      "task_table B db' = (task_table B (state c))(t \<mapsto> rec\<lparr>State := TASK_QUEUED, LastUpdated := clk i\<rparr>)"
      "tasks_wf B db'" "only_tasks_changed (state c) db'"
    have R: "records_wf B db'" by (rule records_wf_tasks [OF Cons.prems(1) ok(4,3)])
    moreover have "enqueue_ready B clk (Suc i) ids (enqueue [t] (c\<lparr>state := db'\<rparr>)) = (c', r)"
      using Cons.prems(2) ok(1) by simp
    ultimately show ?case using Cons.IH [of "enqueue [t] (c\<lparr>state := db'\<rparr>)" "Suc i"] ok(2) by simp
  qed (use Cons.prems in simp)
qed simp

lemma submit_tasks_records:
  assumes "records_wf B db" and valid: "valid_workflow w" and ords: "submit_orders w ords"
    and run: "(case InitializeTasksForWorkflow B (clk 1) db (WorkflowId w) (Tasks w)
            (GetInDegree (built w (ords 1))) (GetAllDownstream (built w (ords 1))) of
          (db, Inl e) \<Rightarrow> (c\<lparr>state := db\<rparr>, Inl e)
        | (db, Inr _) \<Rightarrow> enqueue_ready B (clk 2) 0 (GetReadyTasks (built w (ords 1)) (ords 3))
            (cache_workflow w (built w (ords 1)) (c\<lparr>state := db\<rparr>))) = (c', res)"
  shows "records_wf B (state c') \<and> (\<forall>t. t \<notin> task_ids w \<longrightarrow> task_table B (state c') t = task_table B db t)"
proof -
  let ?dag = "built w (ords 1)"
  have wf: "tasks_wf B db" using assms(1) by (simp add: records_wf_def)
  have d: "distinct (map TaskId (Tasks w))" using valid by (simp add: valid_workflow_def ids_unique_def)
  have cl: "\<forall>t\<in>set (Tasks w). \<forall>ds. GetAllDownstream ?dag (TaskId t) = Some ds \<longrightarrow> set ds \<subseteq> TaskId ` set (Tasks w)"
    using downstream_closed [OF valid submit_ordersD(2) [OF ords]] unfolding GetAllDownstream_def task_ids_def by blast
  have ready: "set (GetReadyTasks ?dag (ords 3)) \<subseteq> task_ids w"
    using submit_ordersD(4) [OF ords] by (auto simp: GetReadyTasks_def id_order_def)
  show ?thesis
  proof (rule InitializeTasksForWorkflow_cases [OF wf d cl, of "clk 1" "WorkflowId w" "GetInDegree ?dag"])
    fix db3
    assume t: "InitializeTasksForWorkflow B (clk 1) db (WorkflowId w) (Tasks w) (GetInDegree ?dag) (GetAllDownstream ?dag) = (db3, Inr ())"
      "tasks_wf B db3" "only_tasks_changed db db3"
      "\<And>k. k \<notin> TaskId ` set (Tasks w) \<Longrightarrow> task_table B db3 k = task_table B db k"
    let ?c3 = "cache_workflow w ?dag (c\<lparr>state := db3\<rparr>)"
    have "records_wf B (state ?c3)"
      using records_wf_tasks [OF assms(1) t(3,2)] by (simp add: cache_workflow_def)
    moreover have "enqueue_ready B (clk 2) 0 (GetReadyTasks ?dag (ords 3)) ?c3 = (c', res)" using run t(1) by simp
    ultimately have "records_wf B (state c') \<and> (\<forall>t. t \<notin> set (GetReadyTasks ?dag (ords 3)) \<longrightarrow>
        task_table B (state c') t = task_table B (state ?c3) t)" by (rule enqueue_ready_records)
    moreover have "task_table B (state ?c3) k = task_table B db k" if "k \<notin> task_ids w" for k
      using t(4) [of k] that by (simp add: cache_workflow_def task_ids_def)
    ultimately show ?thesis using ready by (metis subsetD)
  qed (use run assms(1) in auto)
qed

lemma SubmitWorkflow_records:
  assumes "records_wf B (state c)" and "submit_orders w ords" and "SubmitWorkflow B clk ords c w = (c', res)"
  shows "records_wf B (state c') \<and> (\<forall>t. t \<notin> task_ids w \<longrightarrow> task_table B (state c') t = task_table B (state c) t)"
proof (cases "valid_workflow w \<and> ValidateAndSort (ords 0) (ords 1) (ords 2) w = Inr (built w (ords 1))")
  case False
  note O = submit_ordersD [OF assms(2)]
  have "\<exists>e. ValidateAndSort (ords 0) (ords 1) (ords 2) w = Inl e"
    by (rule ValidateAndSort_cases [OF O(1,3), of "ords 1"]) (use False in auto)
  with assms(1,3) show ?thesis by (auto simp: SubmitWorkflow_def)
next
  case True
  let ?dag = "built w (ords 1)"
  note O = submit_ordersD [OF assms(2)]
  show ?thesis
  proof (rule StoreWorkflow_cases [of "state c" w])
    fix m assume "StoreWorkflow B (state c) w = (state c, Inl (LibErr m))"
    with assms(1,3) True show ?thesis by (simp add: SubmitWorkflow_def)
  next
    fix db1
    assume s: "StoreWorkflow B (state c) w = (db1, Inr ())" "db1 = (state c)\<lparr>bucket_workflows := bucket_workflows db1\<rparr>"
    have same: "bucket_task_state db1 = bucket_task_state (state c)" "bucket_workflow_state db1 = bucket_workflow_state (state c)"
      using arg_cong [OF s(2), of bucket_task_state] arg_cong [OF s(2), of bucket_workflow_state] by simp_all
    have R1: "records_wf B db1" and T1: "task_table B db1 = task_table B (state c)"
      using assms(1) task_table_cong [OF same(1), of B] wf_table_cong [OF same(2), of B] by (simp_all add: records_wf_def)
    then have wf1: "workflows_wf B db1" by (simp add: records_wf_def)
    show ?thesis
    proof (rule InitWorkflowState_cases [OF wf1, of "clk 0 0" "WorkflowId w"])
      fix m assume "InitWorkflowState B (clk 0 0) db1 (WorkflowId w) = (db1, Inl (LibErr m))"
      with assms(3) True s(1) R1 T1 show ?thesis by (auto simp: SubmitWorkflow_def)
    next
      fix db2
      assume i: "InitWorkflowState B (clk 0 0) db1 (WorkflowId w) = (db2, Inr ())" "workflows_wf B db2"
        "only_workflow_state_changed db1 db2"
      have R2: "records_wf B db2" by (rule records_wf_workflow_state [OF R1 i(3,2)])
      have T2: "task_table B db2 = task_table B (state c)"
        using task_table_cong(1) [OF only_workflow_state_changedD(1) [OF i(3)]] T1 by simp
      have cont: "(case InitializeTasksForWorkflow B (clk 1) db2 (WorkflowId w) (Tasks w) (GetInDegree ?dag) (GetAllDownstream ?dag) of
            (db, Inl e) \<Rightarrow> (c\<lparr>state := db\<rparr>, Inl e)
          | (db, Inr _) \<Rightarrow> enqueue_ready B (clk 2) 0 (GetReadyTasks ?dag (ords 3)) (cache_workflow w ?dag (c\<lparr>state := db\<rparr>)))
          = (c', res)"
        using assms(3) unfolding SubmitWorkflow_def True [THEN conjunct2] s(1) i(1) prod.case sum.case .
      show ?thesis using submit_tasks_records [OF R2 True [THEN conjunct1] assms(2) cont] by (simp add: T2)
    qed
  qed
qed

end

end
