(* ===== verification/Coord_System.thy ===== *)
theory Coord_System
  imports Coord_Records
begin

text \<open>
  The scheduler as a transition system: its states are the coordinator with its database, a
  step is one request, one scan of the heartbeat monitor, or a restart of the process on
  the database as it stands. Which commits fail may differ from step to step
  (\<open>same_data\<close>), and a crash in the middle of a handler leaves the database that the handler
  leaves when all its later commits fail; so a crash is such a step followed by a restart.

  The relation \<open>sys_step\<close> admits every request. The code does not refuse a submission that uses task
  ids which the store already holds, and what such a submission does is in theory \<open>Divergences\<close>;
  the runs that lead to a \<open>reachable\<close> state are those in which no submission does so
  (\<open>admissible\<close>). Every reachable state satisfies the system invariant. The only step that changes
  the record of a COMPLETE task is a submission of its id.
\<close>

section \<open>Steps\<close>

text \<open>The same buckets and codecs; only the outcome of commits may differ.\<close>

definition same_data :: "'b bolt \<Rightarrow> 'b bolt \<Rightarrow> bool" where
  "same_data B B' \<longleftrightarrow> B' = B\<lparr>db_update := db_update B'\<rparr>"

text \<open>The orders of the ranges over \<^verbatim>\<open>c.runningTasks\<close> that the calls of one scan take.\<close>

definition dead_orders :: "(string \<Rightarrow> dead_call) \<Rightarrow> bool" where
  "dead_orders calls \<longleftrightarrow>
     (\<forall>w m. finite (dom m) \<longrightarrow> range_order m (snd (snd (snd (calls w))) m))"

text \<open>A step is labelled with the workflow it submits, if any.\<close>

datatype sys_event = Submitted WorkflowSpec | OtherEvent

inductive sys_step :: "'b bolt \<Rightarrow> 'b Coordinator \<Rightarrow> sys_event \<Rightarrow> 'b Coordinator \<Rightarrow> bool" for B where
  submit: "submit_orders w ords \<Longrightarrow> SubmitWorkflow B clk ords c w = (c', res) \<Longrightarrow> sys_step B c (Submitted w) c'"
| dispatch: "GetReadyTask B now uid c k = (c', given) \<Longrightarrow> sys_step B c OtherEvent c'"
| complete: "Coordinator_CompleteTask B clk c t e out = (c', res) \<Longrightarrow> sys_step B c OtherEvent c'"
| fail: "Coordinator_FailTask B clk uid c t e msg = (c', res) \<Longrightarrow> sys_step B c OtherEvent c'"
| cancel: "CancelWorkflow B clk c wid = (c', res) \<Longrightarrow> sys_step B c OtherEvent c'"
| heartbeat: "UpdateWorkerHeartbeat c k ts ids = c' \<Longrightarrow> sys_step B c OtherEvent c'"
| scan_workers: "dead_orders calls \<Longrightarrow> Run_tick B now ord calls c = (c', res) \<Longrightarrow> sys_step B c OtherEvent c'"
| restart: "startup B interval dead now clock0 uuids (state c) = (c', res) \<Longrightarrow> sys_step B c OtherEvent c'"

inductive_cases sys_stepE: "sys_step B c l c'"

definition any_step :: "'b bolt \<Rightarrow> 'b Coordinator \<Rightarrow> sys_event \<Rightarrow> 'b Coordinator \<Rightarrow> bool" where
  "any_step B c l c' \<longleftrightarrow> (\<exists>B'. bolt_spec B' \<and> same_data B B' \<and> sys_step B' c l c')"

text \<open>A submission whose task ids neither the task bucket nor another stored workflow holds.\<close>

definition admissible :: "'b bolt \<Rightarrow> 'b Coordinator \<Rightarrow> sys_event \<Rightarrow> bool" where
  "admissible B c l \<longleftrightarrow> (\<forall>w. l = Submitted w \<longrightarrow> small_workflow w \<and> fresh_workflow B c w)"

definition fresh_step :: "'b bolt \<Rightarrow> 'b Coordinator \<Rightarrow> 'b Coordinator \<Rightarrow> bool" where
  "fresh_step B c c' \<longleftrightarrow> (\<exists>l. any_step B c l c' \<and> admissible B c l)"

text \<open>Reachable: from a coordinator started on a new database file, by such steps.\<close>

inductive reachable :: "'b bolt \<Rightarrow> 'b Coordinator \<Rightarrow> bool" for B where
  boot: "New B (Inr Map.empty) None = Inr db \<Longrightarrow> startup B interval dead now clk uuids db = (c, res) \<Longrightarrow>
     reachable B c"
| step: "reachable B c \<Longrightarrow> fresh_step B c c' \<Longrightarrow> reachable B c'"

section \<open>The invariant holds in every reachable state\<close>

lemma same_data_refl [simp]: "same_data B B"
  by (simp add: same_data_def)

lemma same_data_fields:
  assumes "same_data B B'"
  shows "b_get B' = b_get B" "b_foreach B' = b_foreach B" "proto_unmarshal B' = proto_unmarshal B"
    "b_put B' = b_put B" "b_empty B' = b_empty B"
proof -
  from assms have "B' = B\<lparr>db_update := db_update B'\<rparr>" by (simp add: same_data_def)
  moreover have "b_get (B\<lparr>db_update := u\<rparr>) = b_get B" "b_foreach (B\<lparr>db_update := u\<rparr>) = b_foreach B"
    "proto_unmarshal (B\<lparr>db_update := u\<rparr>) = proto_unmarshal B" "b_put (B\<lparr>db_update := u\<rparr>) = b_put B"
    "b_empty (B\<lparr>db_update := u\<rparr>) = b_empty B" for u
    by simp_all
  ultimately show "b_get B' = b_get B" "b_foreach B' = b_foreach B" "proto_unmarshal B' = proto_unmarshal B"
    "b_put B' = b_put B" "b_empty B' = b_empty B"
    by metis+
qed

lemma same_data_tables:
  assumes "same_data B B'"
  shows "task_table B' = task_table B" "spec_table B' = spec_table B" "wf_table B' = wf_table B"
    "sys_inv B' = sys_inv B" "store_inv B' = store_inv B" "records_wf B' = records_wf B" "admissible B' = admissible B"
proof -
  note f = same_data_fields [OF assms]
  show T: "task_table B' = task_table B" "spec_table B' = spec_table B" "wf_table B' = wf_table B"
    by (simp_all add: fun_eq_iff task_table_def GetTask_def spec_table_def GetWorkflow_def wf_table_def
        GetWorkflowState_def f cong: option.case_cong)
  show S: "store_inv B' = store_inv B"
    by (simp add: fun_eq_iff store_inv_def tasks_wf_def workflows_wf_def f T)
  show "sys_inv B' = sys_inv B"
    by (simp add: fun_eq_iff sys_inv_def S T)
  show "records_wf B' = records_wf B"
    by (simp add: fun_eq_iff records_wf_def tasks_wf_def workflows_wf_def f)
  show "admissible B' = admissible B"
    by (simp add: fun_eq_iff admissible_def fresh_workflow_def T)
qed

text \<open>What a step guarantees on the task table: no task goes away, a COMPLETE record stays.\<close>

definition grows :: "table \<Rightarrow> table \<Rightarrow> bool" where
  "grows T T' \<longleftrightarrow> (\<forall>t r. T t = Some r \<longrightarrow> (\<exists>r'. T' t = Some r' \<and> evolves_rec r r'))"

lemma evolves_grows: "evolves T T' \<Longrightarrow> grows T T'"
  by (auto simp: grows_def evolves_rec_def elim!: evolvesD)

lemma grows_refl [simp]: "grows T T"
  by (simp add: grows_def)

lemma grows_trans: "grows T1 T2 \<Longrightarrow> grows T2 T3 \<Longrightarrow> grows T1 T3"
  unfolding grows_def using evolves_rec_trans by blast

lemma growsD:
  assumes "grows T T'" and "T t = Some r"
  obtains r' where "T' t = Some r'" "evolves_rec r r'"
  using assms unfolding grows_def by blast

context bolt_spec
begin

lemma sys_step_inv:
  assumes "sys_inv B c" and "sys_step B c l c'" and "admissible B c l"
  shows "sys_inv B c' \<and> grows (task_table B (state c)) (task_table B (state c'))"
proof -
  have kept: "sys_inv B d \<and> grows (task_table B (state c)) (task_table B (state d))" if "keeps B c d" for d
    using that by (simp add: keeps_def evolves_grows)
  from assms(2) show ?thesis
  proof (cases rule: sys_step.cases)
    case (submit w ords clk res)
    have w: "small_workflow w" "fresh_workflow B c w" using assms(3) submit(1) by (simp_all add: admissible_def)
    have "grows (task_table B (state c)) (task_table B (state d))" if "submitted B c d" for d
      using that by (auto simp: submitted_def grows_def)
    with submit(3) show ?thesis
      by (cases rule: SubmitWorkflow_cases [OF assms(1) w(1) submit(2) w(2), of clk])
         (use assms(1) in \<open>auto simp: submitted_def\<close>)
  next
    case (dispatch now uid k given)
    then show ?thesis
      by (metis GetReadyTask_keeps [OF assms(1)] kept fst_conv)
  next
    case (complete clk t e out res)
    then show ?thesis
      by (cases rule: Coordinator_CompleteTask_cases [OF assms(1), of t e clk out])
         (use assms(1) kept in auto)
  next
    case (fail clk uid t e msg res)
    then have "keeps B c c'"
      by (cases rule: Coordinator_FailTask_cases [OF assms(1), of t e clk uid msg])
         (use assms(1) in \<open>auto intro: keeps_refl keeps_trans\<close>)
    then show ?thesis by (rule kept)
  next
    case (cancel clk wid res)
    then show ?thesis
      by (metis CancelWorkflow_keeps [OF assms(1)] kept fst_conv)
  next
    case (heartbeat k ts ids)
    then show ?thesis
      using UpdateWorkerHeartbeat_keeps [OF assms(1)] kept by blast
  next
    case (scan_workers calls now ord res)
    then show ?thesis
      by (metis Run_tick_keeps [OF assms(1)] dead_orders_def kept fst_conv)
  next
    case (restart interval dead now clock0 uuids res)
    then show ?thesis
      by (metis startup_cases [OF sys_invD(1) [OF assms(1)]] evolves_grows fst_conv)
  qed
qed

lemma empty_store_inv:
  assumes "New B (Inr Map.empty) None = Inr db"
  shows "store_inv B db"
  using assms
  by (auto simp: New_def create_bucket_def store_inv_def tasks_wf_def workflows_wf_def table_inv_def
      stored_inv_def task_table_def GetTask_def spec_table_def GetWorkflow_def get_empty)

lemma fresh_step_inv:
  assumes "sys_inv B c" and "fresh_step B c c'"
  shows "sys_inv B c'" and "grows (task_table B (state c)) (task_table B (state c'))"
proof -
  from assms(2) obtain B' l where B': "bolt_spec B'" "same_data B B'" "sys_step B' c l c'" "admissible B c l"
    by (auto simp: fresh_step_def any_step_def)
  from bolt_spec.sys_step_inv [OF B'(1) _ B'(3)] assms(1) B'(4)
  show "sys_inv B c'" and "grows (task_table B (state c)) (task_table B (state c'))"
    by (simp_all add: same_data_tables [OF B'(2)])
qed

lemma reachable_inv:
  assumes "reachable B c"
  shows "sys_inv B c"
  using assms
proof induction
  case (boot db interval dead now clk uuids c res)
  then show ?case
    by (metis startup_cases [OF empty_store_inv] fst_conv)
next
  case (step c c')
  then show ?case using fresh_step_inv(1) by blast
qed

lemma fresh_steps_grow:
  assumes "sys_inv B c" and "(fresh_step B)\<^sup>*\<^sup>* c c'"
  shows "sys_inv B c' \<and> grows (task_table B (state c)) (task_table B (state c'))"
  using assms(2,1)
  by (induction rule: rtranclp_induct) (auto dest: fresh_step_inv grows_trans)

text \<open>What every step keeps, whatever it submits.\<close>

lemma sys_step_records:
  assumes "records_wf B (state c)" and "sys_step B c l c'"
  shows "records_wf B (state c')"
  using assms(2)
proof (cases rule: sys_step.cases)
  case (submit w ords clk res)
  then show ?thesis using SubmitWorkflow_records [OF assms(1) submit(2,3)] by simp
next
  case (heartbeat k ts ids)
  then show ?thesis using assms(1) by auto
qed (use assms(1) in \<open>auto elim: GetReadyTask_records CompleteTask_handler_records FailTask_handler_records
    CancelWorkflow_records Run_tick_records startup_records\<close>)

lemma complete_kept_unless_submitted:
  assumes "sys_inv B c" and "any_step B c l c'"
    and "task_table B (state c) t = Some r" and "State r = TASK_COMPLETE"
    and "\<And>w. l = Submitted w \<Longrightarrow> t \<notin> task_ids w"
  shows "task_table B (state c') t = Some r"
proof -
  from assms(2) obtain B' where B': "bolt_spec B'" "same_data B B'" "sys_step B' c l c'" by (auto simp: any_step_def)
  note same = same_data_tables [OF B'(2)]
  show ?thesis
  proof (cases l)
    case (Submitted w)
    with B'(3) obtain ords clk res where "submit_orders w ords" "SubmitWorkflow B' clk ords c w = (c', res)"
      by (auto elim: sys_stepE)
    moreover have "records_wf B' (state c)"
      using store_invD(1,2) [OF sys_invD(1) [OF assms(1)]] same by (simp add: records_wf_def)
    ultimately show ?thesis
      using bolt_spec.SubmitWorkflow_records [OF B'(1)] assms(3,5) Submitted same by metis
  next
    case OtherEvent
    then have "admissible B' c l" by (simp add: admissible_def)
    with bolt_spec.sys_step_inv [OF B'(1) _ B'(3)] assms(1) same
    have "grows (task_table B (state c)) (task_table B (state c'))" by simp
    from growsD [OF this assms(3)] assms(4) show ?thesis by (auto simp: evolves_rec_def)
  qed
qed

section \<open>Consequences used by the properties\<close>

text \<open>A specification that is linked to the table, and a task past its dependencies.\<close>

lemma linked_dependencies_complete:
  assumes "table_inv T" and "linked T s" and "T (TaskId s) = Some r" and "active (State r)"
    and "d \<in> set (Dependencies s)"
  shows "\<exists>rd. T d = Some rd \<and> State rd = TASK_COMPLETE"
proof -
  from assms(2,3,5) obtain rd where rd: "T d = Some rd" "TaskId s \<in> set (DownstreamTaskIDs rd)"
    by (auto simp: linked_def)
  with dep_count_complete [OF table_invD(1) [OF assms(1)] table_invD(5) [OF assms(1,3,4)] rd] show ?thesis
    by blast
qed

lemma GetReadyTask_given:
  assumes "sys_inv B c" and "GetReadyTask B now uid c k = (c', Inr (Some a))"
  obtains s r where "readyQueue c = ta_TaskId a # readyQueue c'" "taskSpecCache c (ta_TaskId a) = Some s"
    "task_table B (state c) (ta_TaskId a) = Some r"
    "task_table B (state c') = (task_table B (state c))(ta_TaskId a \<mapsto>
       r\<lparr>State := TASK_RUNNING, ExecutionID := uid, LastUpdated := now\<rparr>)"
    "a = \<lparr>ta_TaskId = ta_TaskId a, ta_ExecutionId = uid, ta_Command = Command s, ta_Env = Env s,
          ta_TimeoutSeconds = TimeoutSeconds s\<rparr>"
    "assignedTasks c' = (assignedTasks c)(ta_TaskId a \<mapsto> uid)"
    "runningTasks c' = (runningTasks c)(ta_TaskId a \<mapsto> k)" "taskSpecCache c' = taskSpecCache c"
proof -
  from assms(2) obtain t rest s where q: "readyQueue c = t # rest" "taskSpecCache c t = Some s"
    by (auto simp: GetReadyTask_def Let_def split: list.splits option.splits)
  show thesis
    using store_invD(1) [OF sys_invD(1) [OF assms(1)]]
  proof (cases rule: AssignTask_cases [of "state c" now t uid])
    case (ok db' r)
    with assms(2) q show thesis
      by (intro that [of s r]) (auto simp: GetReadyTask_def Let_def set_QueueDepth_def)
  next
    case (error er)
    with assms(2) q show thesis by (simp add: GetReadyTask_def Let_def split: if_splits)
  qed
qed

lemma reachable_store:
  assumes "reachable B c"
  shows "tasks_wf B (state c)" and "workflows_wf B (state c)" and "table_inv (task_table B (state c))"
    and "finite (dom (task_table B (state c)))"
  using store_invD [OF sys_invD(1) [OF reachable_inv [OF assms]]] table_invD(1) by blast+

lemma fresh_stepI: "sys_step B c l c' \<Longrightarrow> admissible B c l \<Longrightarrow> fresh_step B c c'"
  unfolding fresh_step_def any_step_def using bolt_spec_axioms
  by (intro exI [of _ l] conjI exI [of _ B]) simp_all

lemma reachable_next:
  assumes "reachable B c" and "sys_step B c OtherEvent c'"
  shows "reachable B c'"
  using assms(1) by (rule reachable.step) (rule fresh_stepI [OF assms(2)], simp add: admissible_def)

lemma reachable_submit:
  assumes "reachable B c" and "small_workflow w" and "submit_orders w ords" and "fresh_workflow B c w"
    and "SubmitWorkflow B clk ords c w = (c', res)"
  shows "reachable B c'"
  using assms(1)
  by (rule reachable.step) (rule fresh_stepI [OF sys_step.submit [OF assms(3,5)]], simp add: admissible_def assms(2,4))

lemma dispatched_dependencies_complete:
  assumes "sys_inv B c" and "GetReadyTask B now uid c k = (c', Inr (Some a))"
  obtains s r where "taskSpecCache c (ta_TaskId a) = Some s" "TaskId s = ta_TaskId a"
    "taskSpecCache c' = taskSpecCache c" "ta_Command a = Command s"
    "task_table B (state c') (ta_TaskId a) = Some r" "State r = TASK_RUNNING" "ExecutionID r = ta_ExecutionId a"
    "\<forall>d\<in>set (Dependencies s). \<exists>rd. task_table B (state c') d = Some rd \<and> State rd = TASK_COMPLETE"
proof -
  have inv': "sys_inv B c'"
    using sys_step_inv [OF assms(1) sys_step.dispatch [OF assms(2)]] by (simp add: admissible_def)
  obtain s r where g: "taskSpecCache c (ta_TaskId a) = Some s" "taskSpecCache c' = taskSpecCache c"
    "task_table B (state c') = (task_table B (state c))(ta_TaskId a \<mapsto>
       r\<lparr>State := TASK_RUNNING, ExecutionID := uid, LastUpdated := now\<rparr>)"
    "ta_ExecutionId a = uid" "ta_Command a = Command s"
    by (rule GetReadyTask_given [OF assms]) (metis TaskAssignment.select_convs(2,3))
  have l: "TaskId s = ta_TaskId a" "linked (task_table B (state c')) s"
    using sys_invD(4) [OF inv'] g(1,2) by (simp_all add: cache_inv_def)
  have "\<forall>d\<in>set (Dependencies s). \<exists>rd. task_table B (state c') d = Some rd \<and> State rd = TASK_COMPLETE"
    using linked_dependencies_complete [OF store_invD(3) [OF sys_invD(1) [OF inv']] l(2)] l(1) g(3)
    by (simp add: active_def)
  moreover have "task_table B (state c') (ta_TaskId a) =
      Some (r\<lparr>State := TASK_RUNNING, ExecutionID := uid, LastUpdated := now\<rparr>)"
    unfolding g(3) by simp
  ultimately show thesis using that [OF g(1) l(1) g(2,5)] g(4) by simp
qed

end

end
