(* ===== verification/Bolt_List.thy ===== *)
theory Bolt_List
  imports Bolt
begin

text \<open>
  An instance of \<open>bolt_spec\<close>: a bucket is an association list, visited in the order of
  its sorted keys, \<^verbatim>\<open>Update\<close> always commits, and a workflow specification is written
  with the string and integer writers of \<^verbatim>\<open>serialization.go\<close>. It shows that the
  assumptions on the libraries can hold together, and the concrete runs of the
  development evaluate on it.
\<close>

type_synonym lbucket = "(string \<times> bytes) list"

definition lb_put :: "lbucket \<Rightarrow> string \<Rightarrow> bytes \<Rightarrow> err + lbucket" where
  "lb_put b k v =
     (if k = [] then Inl (LibErr ''key required'')
      else if 32768 < length k then Inl (LibErr ''key too large'')
      else if 2147483646 < length v then Inl (LibErr ''value too large'')
      else Inr ((k, v) # filter (\<lambda>p. fst p \<noteq> k) b))"

definition lb_delete :: "lbucket \<Rightarrow> string \<Rightarrow> err + lbucket" where
  "lb_delete b k = Inr (filter (\<lambda>p. fst p \<noteq> k) b)"

definition lb_foreach :: "lbucket \<Rightarrow> (string \<times> bytes) list" where
  "lb_foreach b = map (\<lambda>k. (k, the (map_of b k))) (sort (remdups (map fst b)))"

lemma map_of_filter_key: "map_of (filter (\<lambda>p. fst p \<noteq> k) b) k' = (if k' = k then None else map_of b k')"
  by (induction b) auto

lemma lb_foreach_get: "(k, v) \<in> set (lb_foreach b) \<longleftrightarrow> map_of b k = Some v"
  by (auto simp: lb_foreach_def image_iff map_of_eq_None_iff [symmetric] dest: map_of_SomeD)
     (metis domI dom_map_of_conv_image_fst imageE option.sel prod.collapse map_of_eq_None_iff not_None_eq weak_map_of_SomeI)+

definition list_slice :: "string list \<Rightarrow> bytes" where
  "list_slice xs = write_int32 (word_of_nat (length xs)) @ concat (map writeString xs)"

definition enc_task :: "TaskSpec \<Rightarrow> bytes" where
  "enc_task t = writeString (TaskId t) @ list_slice (Dependencies t) @ writeString (Command t)
     @ list_slice (map fst (Env t)) @ list_slice (map snd (Env t))
     @ write_int32 (TimeoutSeconds t) @ write_int32 (MaxRetries t)"

fun policy_number :: "FailurePolicy \<Rightarrow> i32" where
  "policy_number FAIL_FAST = 0"
| "policy_number SKIP_DOWNSTREAM = 1"
| "policy_number CONTINUE_INDEPENDENT = 2"
| "policy_number (POLICY_UNRECOGNIZED n) = n"

definition policy_named :: "i32 \<Rightarrow> FailurePolicy" where
  "policy_named n = (if n = 0 then FAIL_FAST else if n = 1 then SKIP_DOWNSTREAM
     else if n = 2 then CONTINUE_INDEPENDENT else POLICY_UNRECOGNIZED n)"

definition enc_spec :: "WorkflowSpec \<Rightarrow> bytes" where
  "enc_spec w = writeString (WorkflowId w) @ write_int32 (policy_number (Failure_Policy w))
     @ write_int32 (word_of_nat (length (Tasks w))) @ concat (map enc_task (Tasks w))"

definition dec_task :: "bytes \<Rightarrow> err + (TaskSpec \<times> bytes)" where
  "dec_task buf =
     rbind (read_string buf) (\<lambda>i r. rbind (read_string_slice r) (\<lambda>deps r.
     rbind (read_string r) (\<lambda>cmd r. rbind (read_string_slice r) (\<lambda>ks r.
     rbind (read_string_slice r) (\<lambda>vs r.
       case read_int 4 r of (t, r) \<Rightarrow> case read_int 4 r of (m, r) \<Rightarrow>
         Inr (\<lparr>TaskId = i, Dependencies = deps, Command = cmd, Env = zip ks vs,
               TimeoutSeconds = t, MaxRetries = m\<rparr>, r))))))"

fun dec_tasks :: "nat \<Rightarrow> bytes \<Rightarrow> err + TaskSpec list" where
  "dec_tasks 0 buf = Inr []"
| "dec_tasks (Suc n) buf =
     (case dec_task buf of
        Inl e \<Rightarrow> Inl e
      | Inr (t, r) \<Rightarrow> (case dec_tasks n r of Inl e \<Rightarrow> Inl e | Inr ts \<Rightarrow> Inr (t # ts)))"

definition dec_spec :: "bytes \<Rightarrow> err + WorkflowSpec" where
  "dec_spec buf =
     rbind (read_string buf) (\<lambda>i r. case read_int 4 r of (p, r) \<Rightarrow> case read_int 4 r of (n, r) \<Rightarrow>
       (case dec_tasks (nat (sint (n :: i32))) r of
          Inl e \<Rightarrow> Inl e
        | Inr ts \<Rightarrow> Inr \<lparr>WorkflowId = i, Tasks = ts, Failure_Policy = policy_named p\<rparr>))"

definition short :: "string list \<Rightarrow> bool" where
  "short xs \<longleftrightarrow> length xs < 2147483648 \<and> list_all (\<lambda>s. length s < 2147483648) xs"

definition fits_task :: "TaskSpec \<Rightarrow> bool" where
  "fits_task t \<longleftrightarrow> short [TaskId t, Command t] \<and> short (Dependencies t)
     \<and> short (map fst (Env t)) \<and> short (map snd (Env t))"

definition fits_spec :: "WorkflowSpec \<Rightarrow> bool" where
  "fits_spec w \<longleftrightarrow> length (WorkflowId w) < 2147483648 \<and> length (Tasks w) < 2147483648
     \<and> list_all fits_task (Tasks w)
     \<and> policy_named (policy_number (Failure_Policy w)) = Failure_Policy w"

definition list_bolt :: "lbucket bolt" where
  "list_bolt =
     \<lparr>b_empty = [], b_get = map_of, b_put = lb_put, b_delete = lb_delete,
      b_foreach = lb_foreach,
      db_update = (\<lambda>db r. case r of Inl e \<Rightarrow> (db, Some e) | Inr db' \<Rightarrow> (db', None)),
      proto_marshal = (\<lambda>w. if fits_spec w then Inr (enc_spec w) else Inl (LibErr ''marshal'')),
      proto_unmarshal = (\<lambda>d. case dec_spec d of Inl e \<Rightarrow> Inl (LibErr ''unmarshal'') | Inr w \<Rightarrow> Inr w)\<rparr>"

lemma read_list_slice:
  "short xs \<Longrightarrow> r \<noteq> [] \<Longrightarrow> read_string_slice (list_slice xs @ r) = (Inr xs, r)"
  using read_string_slice_write [of xs r] by (simp add: list_slice_def short_def list_all_iff)

lemma dec_enc_task: "fits_task t \<Longrightarrow> dec_task (enc_task t @ r) = Inr (t, r)"
  by (simp add: dec_task_def enc_task_def fits_task_def read_list_slice
      read_string_writeString codec_simps zip_map_fst_snd short_def [of "[_, _]"] list_slice_def [of "[]"])

lemma dec_enc_tasks:
  "list_all fits_task ts \<Longrightarrow> dec_tasks (length ts) (concat (map enc_task ts)) = Inr ts"
  by (induction ts) (simp_all add: dec_enc_task)

lemma dec_enc_spec: "fits_spec w \<Longrightarrow> dec_spec (enc_spec w) = Inr w"
  by (simp add: dec_spec_def enc_spec_def fits_spec_def read_string_writeString codec_simps
      sint_of_nat32 dec_enc_tasks)

interpretation lb: bolt_spec list_bolt
proof
  fix b b' :: lbucket and k k' v
  show "b_put list_bolt b k v = Inr b' \<Longrightarrow>
      b_get list_bolt b' k' = (if k' = k then Some v else b_get list_bolt b k')"
    by (auto simp: list_bolt_def lb_put_def map_of_filter_key split: if_splits)
  show "b_delete list_bolt b k = Inr b' \<Longrightarrow>
      b_get list_bolt b' k' = (if k' = k then None else b_get list_bolt b k')"
    by (auto simp: list_bolt_def lb_delete_def map_of_filter_key)
  show "((k, v) \<in> set (b_foreach list_bolt b)) = (b_get list_bolt b k = Some v)"
    by (simp add: list_bolt_def lb_foreach_get)
  show "sorted (map fst (b_foreach list_bolt b))" "distinct (map fst (b_foreach list_bolt b))"
    by (simp_all add: list_bolt_def lb_foreach_def comp_def)
qed (auto simp: list_bolt_def lb_put_def lb_delete_def dec_enc_spec split: if_splits sum.splits)

end
