(* ===== verification/Sample_Run.thy ===== *)
theory Sample_Run
  imports Coord_System Bolt_List
begin

text \<open>
  A concrete run over the list database of theory \<open>Bolt_List\<close>, evaluated step by step: a
  workflow of two tasks, \<open>b\<close> after \<open>a\<close>, is submitted (\<open>run1\<close>), \<open>a\<close> is dispatched and completes
  (\<open>run2\<close>, \<open>run3\<close>), then \<open>b\<close> (\<open>run4\<close>, \<open>run5\<close>). Side branches: \<open>a\<close> fails for good
  (\<open>run_failed\<close>), \<open>b\<close> fails once and is retried (\<open>run_retried\<close>), the worker of \<open>b\<close> dies
  (\<open>run_dead\<close>), the workflow is cancelled while \<open>a\<close> runs (\<open>run_cancelled\<close>), the coordinator
  restarts while \<open>b\<close> runs (\<open>run_restarted\<close>). The general theorems are applied to these states.
\<close>

section \<open>The run\<close>

definition sample_task :: "string \<Rightarrow> string list \<Rightarrow> i32 \<Rightarrow> TaskSpec" where
  "sample_task t deps retries =
     \<lparr>TaskId = t, Dependencies = deps, Command = ''make'', Env = [], TimeoutSeconds = 0, MaxRetries = retries\<rparr>"

definition sample_workflow :: WorkflowSpec where
  "sample_workflow =
     \<lparr>WorkflowId = ''w'', Tasks = [sample_task ''a'' [] 1, sample_task ''b'' [''a''] 2],
      Failure_Policy = SKIP_DOWNSTREAM\<rparr>"

definition empty_db :: "lbucket DB" where
  "empty_db = \<lparr>bucket_workflows = [], bucket_task_state = [], bucket_workers = [], bucket_meta = [],
     bucket_workflow_state = []\<rparr>"

definition run_record :: "string \<Rightarrow> TaskState \<Rightarrow> string \<Rightarrow> string \<Rightarrow> i32 \<Rightarrow> string list \<Rightarrow> TaskStateRecord" where
  "run_record t st e out deg ds =
     \<lparr>TaskID = t, WorkflowID = ''w'', State = st, ExecutionID = e, AttemptCount = 0, LastUpdated = 7,
      Output = out, Error = [], InDegree = deg, DownstreamTaskIDs = ds\<rparr>"

definition sample_db :: "(string \<times> TaskStateRecord) list \<Rightarrow> WorkflowState \<Rightarrow> i64 \<Rightarrow> lbucket DB" where
  "sample_db recs st done_at = empty_db
     \<lparr>bucket_workflows := [(''w'', enc_spec sample_workflow)],
      bucket_task_state := map (\<lambda>(t, r). (t, marshalTaskRecord r)) recs,
      bucket_workflow_state := [(''w'', marshalWorkflowState
        \<lparr>wsr_WorkflowID = ''w'', wsr_State = st, SubmittedAtMs = 7, CompletedAtMs = done_at\<rparr>)]\<rparr>"

definition run0 :: "lbucket Coordinator" where
  "run0 = fst (startup list_bolt 1 1 7 (\<lambda>_. 7) (\<lambda>_. ''u'') empty_db)"
definition run1 :: "lbucket Coordinator" where
  "run1 = fst (SubmitWorkflow list_bolt (\<lambda>_ _. 7) (\<lambda>_. [''a'', ''b'']) run0 sample_workflow)"
definition run2 :: "lbucket Coordinator" where
  "run2 = fst (GetReadyTask list_bolt 7 ''e1'' run1 ''k'')"
definition run3 :: "lbucket Coordinator" where
  "run3 = fst (Coordinator_CompleteTask list_bolt (\<lambda>_ _. 7) run2 ''a'' ''e1'' ''ok'')"
definition run4 :: "lbucket Coordinator" where
  "run4 = fst (GetReadyTask list_bolt 7 ''e2'' run3 ''k'')"
definition run5 :: "lbucket Coordinator" where
  "run5 = fst (Coordinator_CompleteTask list_bolt (\<lambda>_ _. 7) run4 ''b'' ''e2'' ''ok'')"

definition run_failed :: "lbucket Coordinator" where
  "run_failed = fst (Coordinator_FailTask list_bolt (\<lambda>_ _. 7) ''e3'' run2 ''a'' ''e1'' ''exit 1'')"
definition run_retried :: "lbucket Coordinator" where
  "run_retried = fst (Coordinator_FailTask list_bolt (\<lambda>_ _. 7) ''e3'' run4 ''b'' ''e2'' ''exit 1'')"
definition run_dead :: "lbucket Coordinator" where
  "run_dead = fst (HandleDeadWorker list_bolt 7 (\<lambda>_. 7) (\<lambda>_. ''e3'') [''b''] run4 ''k'')"
definition run_cancelled :: "lbucket Coordinator" where
  "run_cancelled = fst (CancelWorkflow list_bolt (\<lambda>_ _. 7) run2 ''w'')"
definition run_restarted :: "lbucket Coordinator" where
  "run_restarted = fst (startup list_bolt 1 1 7 (\<lambda>_. 7) (\<lambda>_. ''e3'') (state run4))"

section \<open>Evaluation\<close>

lemmas lb_defs = list_bolt_def lb_put_def lb_delete_def lb_foreach_def
lemmas fits_defs = length_marshalTaskRecord length_marshalWorkflowState storable_task_def decodable_ids_def
  fits_spec_def fits_task_def short_def

lemma sample_task_fields [simp]:
  "TaskId (sample_task t d n) = t" "Dependencies (sample_task t d n) = d" "Command (sample_task t d n) = ''make''"
  "Env (sample_task t d n) = []" "TimeoutSeconds (sample_task t d n) = 0" "MaxRetries (sample_task t d n) = n"
  by (simp_all add: sample_task_def)

lemma sample_workflow_fields [simp]:
  "WorkflowId sample_workflow = ''w''" "Tasks sample_workflow = [sample_task ''a'' [] 1, sample_task ''b'' [''a''] 2]"
  "Failure_Policy sample_workflow = SKIP_DOWNSTREAM"
  by (simp_all add: sample_workflow_def)

lemma run_record_fields [simp]:
  "TaskID (run_record t st e out deg ds) = t" "WorkflowID (run_record t st e out deg ds) = ''w''"
  "State (run_record t st e out deg ds) = st" "ExecutionID (run_record t st e out deg ds) = e"
  "AttemptCount (run_record t st e out deg ds) = 0" "LastUpdated (run_record t st e out deg ds) = 7"
  "Output (run_record t st e out deg ds) = out" "Error (run_record t st e out deg ds) = []"
  "InDegree (run_record t st e out deg ds) = deg" "DownstreamTaskIDs (run_record t st e out deg ds) = ds"
  by (simp_all add: run_record_def)

lemma run0: "run0 = (NewCoordinator empty_db [WithHeartbeatConfig 1 1])
    \<lparr>recoveryPrepareCount := 1, lastRecoveryStartedAtMs := 7\<rparr> \<and>
  startup list_bolt 1 1 7 (\<lambda>_. 7) (\<lambda>_. ''u'') empty_db = (run0, Inr ())"
  by (simp add: run0_def startup_def LoadStateFromDB_def NewCoordinator_def WithHeartbeatConfig_def
      GetAllWorkflowStates_def lb_defs empty_db_def GetTasksInState_def enqueue_def PrepareRecovery_def Let_def)

lemma sample_valid: "ValidateAndSort [''a'',''b''] [''a'',''b''] [''a'',''b''] sample_workflow =
   Inr (built sample_workflow [''a'',''b''])"
  by (simp add: ValidateAndSort_def add_task_def empty_DAG_def check_task_deps_def slice_at_def hasCycle_def
      color_def built_def filled_def spec_map_def eval_nat_numeral Let_def link_task_def link_dep_def fun_eq_iff)

lemma sample_built: "built sample_workflow [''a'',''b''] =
  \<lparr>dag_tasks = [''a'' \<mapsto> sample_task ''a'' [] 1, ''b'' \<mapsto> sample_task ''b'' [''a''] 2],
   dag_dependencies = [''a'' \<mapsto> [], ''b'' \<mapsto> [''a'']], dag_downstream = [''a'' \<mapsto> [''b''], ''b'' \<mapsto> []],
   dag_inDegree = [''a'' \<mapsto> 0, ''b'' \<mapsto> 1]\<rparr>"
  by (simp add: add_task_def empty_DAG_def slice_at_def built_def filled_def spec_map_def link_task_def
      link_dep_def fun_eq_iff)

lemma sample_init [simp]:
  "initial_record 7 ''w'' [''a'' \<mapsto> 0, ''b'' \<mapsto> 1] [''a'' \<mapsto> [''b''], ''b'' \<mapsto> []] (sample_task t ds n) = 
   run_record t TASK_PENDING [] [] (if t = ''b'' then 1 else 0) (if t = ''a'' then [''b''] else [])"
  by (simp add: initial_record_def run_record_def)

lemma run_record_upd [simp]:
  "run_record t st e out deg ds\<lparr>State := st'\<rparr> = run_record t st' e out deg ds"
  "run_record t st e out deg ds\<lparr>ExecutionID := e'\<rparr> = run_record t st e' out deg ds"
  "run_record t st e out deg ds\<lparr>Output := out'\<rparr> = run_record t st e out' deg ds"
  "run_record t st e out deg ds\<lparr>InDegree := deg'\<rparr> = run_record t st e out deg' ds"
  "run_record t st e out deg ds\<lparr>LastUpdated := 7\<rparr> = run_record t st e out deg ds"
  by (simp_all add: run_record_def)

lemma sample_enc_length [simp]: "\<not> 2147483646 < length (enc_spec sample_workflow)"
  by (simp add: enc_spec_def enc_task_def list_slice_def)

lemmas run_defs = run0_def run1_def run2_def run3_def run4_def run5_def
lemmas store_defs = StoreWorkflow_def InitWorkflowState_def put_workflow_state_def
  InitializeTasksForWorkflow_def put_task_def UpdateTaskState_def AssignTask_def CompleteTask_def
  FailTask_def RequeueTask_def CancelWorkflowTasks_def modify_task_def GetTask_def
  UpdateWorkflowState_def finished_workflow_def Update_def IsWorkflowComplete_def GetTaskStatusesForWorkflow_def status_of_def terminal_def
lemmas dag_defs = GetInDegree_def GetAllDownstream_def GetAllTaskSpecs_def GetReadyTasks_def
lemmas run_simps = lb_defs fits_defs store_defs empty_db_def sample_db_def task_record_roundtrip workflow_state_roundtrip Let_def
  enqueue_def 

lemmas handler_defs = set_QueueDepth_def unassign_def taskWorkflowID_def checkWorkflowCompletion_def
  final_state_def CompleteTask_admit_def CompleteTask_finish_def Coordinator_CompleteTask_def
  dequeue_all_def drop_worker_def HeartbeatMonitor_RemoveWorker_def forget_worker_def

lemmas skip_unfold = while_option_unfold [of skip_guard] skip_guard_def skip_step_def skip_visit_def

lemma run1: "run1 = run0\<lparr>state := sample_db [(''a'', run_record ''a'' TASK_QUEUED [] [] 0 [''b'']),
          (''b'', run_record ''b'' TASK_PENDING [] [] 1 [])] WORKFLOW_RUNNING 0,
   readyQueue := [''a''], taskSpecCache := [''a'' \<mapsto> sample_task ''a'' [] 1, ''b'' \<mapsto> sample_task ''b'' [''a''] 2],
   taskWorkflowMap := [''a'' \<mapsto> ''w'', ''b'' \<mapsto> ''w''], workflowFailurePolicy := [''w'' \<mapsto> SKIP_DOWNSTREAM]\<rparr> \<and>
  SubmitWorkflow list_bolt (\<lambda>_ _. 7) (\<lambda>_. [''a'', ''b'']) run0 sample_workflow = (run1, Inr ())"
  by (simp add: run1_def SubmitWorkflow_def sample_valid sample_built run_simps dag_defs
     policy_named_def run0 NewCoordinator_def WithHeartbeatConfig_def cache_workflow_def fun_eq_iff)

lemma decremented_b [simp]:
  "decremented 7 (run_record ''b'' TASK_PENDING [] [] 1 []) = run_record ''b'' TASK_QUEUED [] [] 0 []"
  by (simp add: decremented_def)

lemma run1_fields [simp]:
  "state run1 = sample_db [(''a'', run_record ''a'' TASK_QUEUED [] [] 0 [''b'']),
          (''b'', run_record ''b'' TASK_PENDING [] [] 1 [])] WORKFLOW_RUNNING 0"
  "readyQueue run1 = [''a'']" "assignedTasks run1 = Map.empty" "runningTasks run1 = Map.empty"
  "taskSpecCache run1 = [''a'' \<mapsto> sample_task ''a'' [] 1, ''b'' \<mapsto> sample_task ''b'' [''a''] 2]"
  "taskWorkflowMap run1 = [''a'' \<mapsto> ''w'', ''b'' \<mapsto> ''w'']" "workflowFailurePolicy run1 = [''w'' \<mapsto> SKIP_DOWNSTREAM]"
  by (simp_all add: run1 run0 NewCoordinator_def WithHeartbeatConfig_def)

lemma run2_fields [simp]:
  "state run2 = sample_db [(''a'', run_record ''a'' TASK_RUNNING ''e1'' [] 0 [''b'']),
          (''b'', run_record ''b'' TASK_PENDING [] [] 1 [])] WORKFLOW_RUNNING 0"
  "readyQueue run2 = []" "assignedTasks run2 = [''a'' \<mapsto> ''e1'']" "runningTasks run2 = [''a'' \<mapsto> ''k'']"
  "taskSpecCache run2 = taskSpecCache run1" "taskWorkflowMap run2 = taskWorkflowMap run1"
  "workflowFailurePolicy run2 = workflowFailurePolicy run1"
  by (simp_all add: run2_def GetReadyTask_def run_simps set_QueueDepth_def)

lemma run3_fields [simp]:
  "state run3 = sample_db [(''b'', run_record ''b'' TASK_QUEUED [] [] 0 []), (''a'', run_record ''a'' TASK_COMPLETE ''e1'' ''ok'' 0 [''b''])
          ] WORKFLOW_RUNNING 0"
  "readyQueue run3 = [''b'']" "assignedTasks run3 = Map.empty" "runningTasks run3 = Map.empty"
  "taskSpecCache run3 = taskSpecCache run1" "taskWorkflowMap run3 = taskWorkflowMap run1"
  "workflowFailurePolicy run3 = workflowFailurePolicy run1"
  by (simp_all add: run3_def Coordinator_CompleteTask_def CompleteTask_admit_def CompleteTask_finish_def run_simps set_QueueDepth_def unassign_def taskWorkflowID_def checkWorkflowCompletion_def)

lemma run4_fields [simp]:
  "state run4 = sample_db [(''b'', run_record ''b'' TASK_RUNNING ''e2'' [] 0 []), (''a'', run_record ''a'' TASK_COMPLETE ''e1'' ''ok'' 0 [''b''])
          ] WORKFLOW_RUNNING 0"
  "readyQueue run4 = []" "assignedTasks run4 = [''b'' \<mapsto> ''e2'']" "runningTasks run4 = [''b'' \<mapsto> ''k'']"
  "taskSpecCache run4 = taskSpecCache run1" "taskWorkflowMap run4 = taskWorkflowMap run1"
  "workflowFailurePolicy run4 = workflowFailurePolicy run1"
  by (simp_all add: run4_def GetReadyTask_def run_simps set_QueueDepth_def)

lemma run5_fields [simp]:
  "state run5 = sample_db [(''b'', run_record ''b'' TASK_COMPLETE ''e2'' ''ok'' 0 []), (''a'', run_record ''a'' TASK_COMPLETE ''e1'' ''ok'' 0 [''b''])
          ] WORKFLOW_COMPLETE 7"
  "readyQueue run5 = []" "assignedTasks run5 = Map.empty" "runningTasks run5 = Map.empty"
  "taskSpecCache run5 = taskSpecCache run1" "taskWorkflowMap run5 = taskWorkflowMap run1"
  "workflowFailurePolicy run5 = workflowFailurePolicy run1"
  by (simp_all add: run5_def Coordinator_CompleteTask_def CompleteTask_admit_def CompleteTask_finish_def run_simps set_QueueDepth_def unassign_def taskWorkflowID_def checkWorkflowCompletion_def final_state_def)

lemma coord_results:
  "GetReadyTask list_bolt 7 ''e1'' run1 ''k'' = (run2, Inr (Some
     \<lparr>ta_TaskId = ''a'', ta_ExecutionId = ''e1'', ta_Command = ''make'', ta_Env = [], ta_TimeoutSeconds = 0\<rparr>))"
  "GetReadyTask list_bolt 7 ''e2'' run3 ''k'' = (run4, Inr (Some
     \<lparr>ta_TaskId = ''b'', ta_ExecutionId = ''e2'', ta_Command = ''make'', ta_Env = [], ta_TimeoutSeconds = 0\<rparr>))"
  "Coordinator_CompleteTask list_bolt (\<lambda>_ _. 7) run2 ''a'' ''e1'' ''ok'' = (run3, Inr ())"
  "Coordinator_CompleteTask list_bolt (\<lambda>_ _. 7) run4 ''b'' ''e2'' ''ok'' = (run5, Inr ())"
  by (simp_all add: run2_def run3_def run4_def run5_def GetReadyTask_def run_simps handler_defs)

lemma run_failed_fields [simp]:
  "Coordinator_FailTask list_bolt (\<lambda>_ _. 7) ''e3'' run2 ''a'' ''e1'' ''exit 1'' = (run_failed, Inr ())"
  "state run_failed = sample_db [(''b'', run_record ''b'' TASK_SKIPPED [] [] 1 []),
     (''a'', (run_record ''a'' TASK_FAILED ''e1'' [] 0 [''b''])\<lparr>Error := ''exit 1'', AttemptCount := 1, LastUpdated := 7\<rparr>)] WORKFLOW_FAILED 7"
  by (simp_all add: run_failed_def Coordinator_FailTask_def max_attempts_def policy_of_def count_failure_def
      applyFailurePolicy_def SkipDownstreamTasks_def skip_unfold run_simps handler_defs)

lemma run_retried_fields [simp]:
  "Coordinator_FailTask list_bolt (\<lambda>_ _. 7) ''e3'' run4 ''b'' ''e2'' ''exit 1'' = (run_retried, Inr ())"
  "state run_retried = sample_db [(''b'', run_record ''b'' TASK_QUEUED ''e3'' [] 0 []),
     (''a'', run_record ''a'' TASK_COMPLETE ''e1'' ''ok'' 0 [''b''])] WORKFLOW_RUNNING 0"
  "readyQueue run_retried = [''b'']" "assignedTasks run_retried = Map.empty"
  by (simp_all add: run_retried_def Coordinator_FailTask_def max_attempts_def retry_task_def run_simps handler_defs)

lemma run_dead_fields [simp]:
  "HandleDeadWorker list_bolt 7 (\<lambda>_. 7) (\<lambda>_. ''e3'') [''b''] run4 ''k'' = (run_dead, Inr ())"
  "state run_dead = state run_retried" "readyQueue run_dead = [''b'']" "assignedTasks run_dead = Map.empty"
  by (simp_all add: run_dead_def HandleDeadWorker_def tasks_of_worker_def count_dead_worker_def run_simps handler_defs)

lemma run_cancelled_fields [simp]:
  "CancelWorkflow list_bolt (\<lambda>_ _. 7) run2 ''w'' = (run_cancelled, Inr ())"
  "state run_cancelled = sample_db [(''b'', run_record ''b'' TASK_SKIPPED [] [] 1 []),
     (''a'', run_record ''a'' TASK_SKIPPED ''e1'' [] 0 [''b''])] WORKFLOW_CANCELLED 7"
  "readyQueue run_cancelled = []" "assignedTasks run_cancelled = [''a'' \<mapsto> ''e1'']"
  by (simp_all add: run_cancelled_def CancelWorkflow_def CancelWorkflowTasks_def run_simps handler_defs)

lemma run_restarted_fields [simp]:
  "startup list_bolt 1 1 7 (\<lambda>_. 7) (\<lambda>_. ''e3'') (state run4) = (run_restarted, Inr ())"
  "state run_restarted = state run_retried"
  "readyQueue run_restarted = [''b'']" "assignedTasks run_restarted = Map.empty"
  by (simp_all add: run_restarted_def startup_def LoadStateFromDB_def NewCoordinator_def WithHeartbeatConfig_def
      GetAllWorkflowStates_def GetTasksInState_def PrepareRecovery_def GetWorkflow_def dec_enc_spec policy_named_def cache_spec_def run_simps handler_defs)

section \<open>The states of the run are reachable\<close>

lemma sample_table [simp]:
  "\<forall>p \<in> set recs. storable_task (snd p) \<Longrightarrow> task_table list_bolt (sample_db recs st at) = map_of recs"
proof (induction recs)
  case (Cons p recs)
  then show ?case
    by (cases p) (auto simp: fun_eq_iff task_table_def GetTask_def sample_db_def list_bolt_def task_record_roundtrip split: option.splits)
qed (simp add: fun_eq_iff task_table_def GetTask_def sample_db_def list_bolt_def)

lemma sample_storable [simp]:
  "canonical_task_state st \<Longrightarrow> length t < 2 ^ 31 \<Longrightarrow> length e < 2 ^ 31 \<Longrightarrow> length out < 2 ^ 31 \<Longrightarrow>
   decodable_ids ds \<Longrightarrow> storable_task (run_record t st e out deg ds)"
  by (simp add: storable_task_def)

lemma sample_ids [simp]: "decodable_ids []" "decodable_ids [''b'']"
  by (simp_all add: decodable_ids_def)

lemma sample_spec [simp]: "spec_table list_bolt (sample_db recs st at) ''w'' = Some sample_workflow"
  by (simp add: spec_table_def GetWorkflow_def sample_db_def list_bolt_def dec_enc_spec fits_defs policy_named_def)

lemma sample_wf [simp]:
  "canonical_workflow_state st \<Longrightarrow> wf_table list_bolt (sample_db recs st at) ''w'' =
     Some \<lparr>wsr_WorkflowID = ''w'', wsr_State = st, SubmittedAtMs = 7, CompletedAtMs = at\<rparr>"
  by (simp add: wf_table_def GetWorkflowState_def sample_db_def list_bolt_def workflow_state_roundtrip)

lemma run_boot: "New list_bolt (Inr Map.empty) None = Inr empty_db"
  by (simp add: New_def create_bucket_def empty_db_def list_bolt_def)

lemma reachable_run0: "reachable list_bolt run0"
  using run_boot run0 [THEN conjunct2] by (rule reachable.boot)

lemma sample_fresh: "fresh_workflow list_bolt run0 sample_workflow"
  by (simp add: fresh_workflow_def task_ids_def run0 NewCoordinator_def WithHeartbeatConfig_def empty_db_def
      task_table_def GetTask_def spec_table_def GetWorkflow_def list_bolt_def)

lemma sample_orders: "submit_orders sample_workflow (\<lambda>_. [''a'', ''b''])"
  by (simp add: submit_orders_def id_order_def task_ids_def)

lemma run_steps:
  "fresh_step list_bolt run0 run1" "fresh_step list_bolt run1 run2" "fresh_step list_bolt run2 run3"
  "fresh_step list_bolt run3 run4" "fresh_step list_bolt run4 run5" "fresh_step list_bolt run2 run_failed"
  "fresh_step list_bolt run4 run_retried" "fresh_step list_bolt run2 run_cancelled"
  "fresh_step list_bolt run4 run_restarted"
proof -
  show "fresh_step list_bolt run0 run1"
    using sample_fresh
    by (intro bolt_spec.fresh_stepI [OF lb.bolt_spec_axioms sys_step.submit [OF sample_orders run1 [THEN conjunct2]]])
       (simp add: admissible_def small_workflow_def)
  have other: "fresh_step list_bolt c c'" if "sys_step list_bolt c OtherEvent c'" for c c'
    using bolt_spec.fresh_stepI [OF lb.bolt_spec_axioms that] by (simp add: admissible_def)
  show "fresh_step list_bolt run1 run2" "fresh_step list_bolt run2 run3"
    "fresh_step list_bolt run3 run4" "fresh_step list_bolt run4 run5" "fresh_step list_bolt run2 run_failed"
    "fresh_step list_bolt run4 run_retried" "fresh_step list_bolt run2 run_cancelled"
    "fresh_step list_bolt run4 run_restarted"
    by (rule other, rule sys_step.intros,
        rule coord_results run_failed_fields run_retried_fields run_cancelled_fields run_restarted_fields)+
qed

lemma reachable_runs:
  "reachable list_bolt run1" "reachable list_bolt run2" "reachable list_bolt run3"
  "reachable list_bolt run4" "reachable list_bolt run5"
proof -
  show r1: "reachable list_bolt run1" using reachable_run0 run_steps(1) by (rule reachable.step)
  show r2: "reachable list_bolt run2" using r1 run_steps(2) by (rule reachable.step)
  show r3: "reachable list_bolt run3" using r2 run_steps(3) by (rule reachable.step)
  show r4: "reachable list_bolt run4" using r3 run_steps(4) by (rule reachable.step)
  show "reachable list_bolt run5" using r4 run_steps(5) by (rule reachable.step)
qed

lemma reachable_branches:
  "reachable list_bolt run_failed" "reachable list_bolt run_retried" "reachable list_bolt run_cancelled"
  "reachable list_bolt run_restarted"
  using reachable_runs run_steps(6-9) by (blast intro: reachable.step)+

lemma reliable_list_bolt: "reliable list_bolt"
  by (simp add: reliable_def list_bolt_def)

end
