(* ===== verification/Coord_Props.thy ===== *)
theory Coord_Props
  imports Sample_Run
begin

text \<open>
  Properties of the coordinator's handlers in reachable states: what a completion, a
  failure, a cancellation, the death of a worker, a submission and a restart do, on every
  branch. Each is stated over the task table that the store represents and applied to the
  states of theory \<open>Sample_Run\<close>.
\<close>

section \<open>Shared facts\<close>

lemma dep_count_0_iff:
  assumes "finite (dom T)"
  shows "dep_count T v = 0 \<longleftrightarrow>
    (\<forall>u r. T u = Some r \<longrightarrow> v \<in> set (DownstreamTaskIDs r) \<longrightarrow> State r = TASK_COMPLETE)"
  using assms
  by (auto simp: dep_count_def waits_def count_list_0_iff split: option.splits if_splits)

lemma requeue_all_heartbeat:
  "requeue_all B clk uuid i ids c = (c', res) \<Longrightarrow> heartbeat c' = heartbeat c"
  by (induction ids arbitrary: i c) (auto split: prod.splits sum.splits if_splits)

lemma unassign_all_heartbeat [simp]: "heartbeat (fold unassign ids c) = heartbeat c"
  by (induction ids arbitrary: c) simp_all

lemma HandleDeadWorker_heartbeat:
  assumes "HandleDeadWorker B now clk uuid ord c w = (c', Inr ())"
  shows "heartbeat c' = forget_worker w (heartbeat c)"
proof -
  obtain d res where d: "requeue_all B clk uuid 0 (tasks_of_worker c ord w)
      (fold unassign (tasks_of_worker c ord w) (count_dead_worker now c)) = (d, res)" by fastforce
  from requeue_all_heartbeat [OF d] assms d show ?thesis
    by (cases res) (auto simp: HandleDeadWorker_def Let_def)
qed

lemma sys_inv_distinct: "sys_inv B c \<Longrightarrow> distinct (readyQueue c)"
  by (simp add: sys_inv_def queue_inv_def)

context bolt_spec
begin

text \<open>A completion report that is answered with success.\<close>

lemma accepted_completion:
  assumes "reachable B c" and "assignedTasks c t = Some e"
    and ok: "Coordinator_CompleteTask B clk c t e out = (c', Inr ())"
  obtains r ready where "task_table B (state c) t = Some r" "ExecutionID r = e"
    "task_table B (state c') t = Some (r\<lparr>State := TASK_COMPLETE, Output := out, LastUpdated := clk 0 0\<rparr>)"
    "assignedTasks c' = (assignedTasks c)(t := None)" "readyQueue c' = readyQueue c @ ready"
    "\<And>v. v \<in> set ready \<longleftrightarrow> v \<in> set (DownstreamTaskIDs r) \<and>
       (\<exists>s. task_table B (state c) v = Some s \<and> State s = TASK_PENDING) \<and>
       (\<forall>u ru. task_table B (state c') u = Some ru \<longrightarrow> v \<in> set (DownstreamTaskIDs ru) \<longrightarrow>
          State ru = TASK_COMPLETE)"
    "\<And>v s. v \<noteq> t \<Longrightarrow> task_table B (state c) v = Some s \<Longrightarrow> State s \<noteq> TASK_PENDING \<Longrightarrow>
       task_table B (state c') v = Some s"
proof -
  note inv = reachable_inv [OF assms(1)]
  from inv show thesis
  proof (cases rule: Coordinator_CompleteTask_cases [of c t e clk out])
    case (completed d r ready)
    have "ExecutionID r = e"
      using assigned_invD [OF sys_invD(3) [OF inv] completed(1)] completed(2) by (auto simp: held_def)
    moreover have "d = c'" using completed(4) ok by simp
    ultimately show thesis
      using that [of r ready] completed(2,6-8,10,11)
      unfolding dep_count_0_iff [OF finite_task_table] by simp
  qed (use ok assms(2) in simp_all)
qed

lemma completion_leaves_complete:
  assumes "reachable B c" and ok: "Coordinator_CompleteTask B clk c t e out = (c', Inr ())"
  obtains r where "assignedTasks c' t = None" "task_table B (state c') t = Some r"
    "State r = TASK_COMPLETE" "ExecutionID r = e"
proof (cases "assignedTasks c t = Some e")
  case True
  show thesis by (rule accepted_completion [OF assms(1) True ok]) (auto intro: that)
next
  case False
  show thesis
    by (cases rule: Coordinator_CompleteTask_cases [OF reachable_inv [OF assms(1)], of t e clk out])
       (use False ok that in auto)
qed

lemma accepted_roots:
  assumes "small_workflow w" and "submit_orders w ords" and "valid_workflow w"
  shows "set (GetReadyTasks (built w (ords 1)) (ords 3)) = {t \<in> task_ids w. deps_of w t = []}"
  using GetReadyTasks_built(2) [OF assms(3) submit_ordersD(2,4) [OF assms(2)] assms(1)] .

lemma GetReadyTask_refused:
  assumes "sys_inv B c" and "GetReadyTask B now uid c k = (c', Inr None)"
  shows "readyQueue c' = tl (readyQueue c) \<and> state c' = state c \<and> assignedTasks c' = assignedTasks c"
proof (cases "readyQueue c")
  case (Cons t rest)
  show ?thesis
    using store_invD(1) [OF sys_invD(1) [OF assms(1)]]
    by (cases rule: AssignTask_cases [of "state c" now t uid])
       (use assms(2) Cons in \<open>auto simp: GetReadyTask_def Let_def split: option.splits if_splits\<close>)
qed (use assms(2) in \<open>auto simp: GetReadyTask_def\<close>)

end

section \<open>Completion\<close>

text \<open>
  C9. An accepted completion report marks the task COMPLETE with its output, drops the
  assignment, and appends to the ready queue exactly the PENDING tasks listed downstream
  of it whose upstream tasks are now all COMPLETE; every other task that was not PENDING
  keeps its record.
\<close>

theorem completion_releases_exactly:
  assumes "bolt_spec B" and "reachable B c" and "assignedTasks c t = Some e"
    and "Coordinator_CompleteTask B clk c t e out = (c', Inr ())"
  shows "\<exists>r ready. task_table B (state c) t = Some r \<and>
    task_table B (state c') t = Some (r\<lparr>State := TASK_COMPLETE, Output := out, LastUpdated := clk 0 0\<rparr>) \<and>
    assignedTasks c' = (assignedTasks c)(t := None) \<and> readyQueue c' = readyQueue c @ ready \<and>
    (\<forall>v. v \<in> set ready \<longleftrightarrow> v \<in> set (DownstreamTaskIDs r) \<and>
       (\<exists>s. task_table B (state c) v = Some s \<and> State s = TASK_PENDING) \<and>
       (\<forall>u ru. task_table B (state c') u = Some ru \<longrightarrow> v \<in> set (DownstreamTaskIDs ru) \<longrightarrow>
          State ru = TASK_COMPLETE)) \<and>
    (\<forall>v s. v \<noteq> t \<longrightarrow> task_table B (state c) v = Some s \<longrightarrow> State s \<noteq> TASK_PENDING \<longrightarrow>
       task_table B (state c') v = Some s)"
  by (rule bolt_spec.accepted_completion [OF assms]) blast

theorem completion_releases_exactly_witness:
  "readyQueue run2 = [] \<and> readyQueue run3 = [''b''] \<and>
   task_table list_bolt (state run3) ''a'' = Some (run_record ''a'' TASK_COMPLETE ''e1'' ''ok'' 0 [''b''])"
  using completion_releases_exactly [OF lb.bolt_spec_axioms reachable_runs(2) _ coord_results(3)] by auto

text \<open>
  C20. A report for an execution that is not the assigned one changes nothing. A completion
  report then succeeds only as a repetition (the task is unassigned, COMPLETE, and was
  completed by that very execution), is answered \<^verbatim>\<open>ErrTaskNotFound\<close> for an unknown task and
  \<^verbatim>\<open>ErrStaleExecution\<close> otherwise; a failure report is answered \<^verbatim>\<open>ErrStaleExecution\<close>.
\<close>

theorem stale_reports_change_nothing:
  assumes "bolt_spec B" and "reachable B c" and "assignedTasks c t \<noteq> Some e"
  shows "Coordinator_CompleteTask B clk c t e out =
      (c, if assignedTasks c t \<noteq> None then Inl ErrStaleExecution
          else case task_table B (state c) t of
                 None \<Rightarrow> Inl ErrTaskNotFound
               | Some r \<Rightarrow> if State r = TASK_COMPLETE \<and> ExecutionID r = e then Inr ()
                           else Inl ErrStaleExecution) \<and>
    Coordinator_FailTask B clk' uid c t e msg = (c, Inl ErrStaleExecution)"
  using assms(3)
  by (auto simp: Coordinator_CompleteTask_def CompleteTask_admit_def Coordinator_FailTask_def
      bolt_spec.GetTask_table [OF assms(1) bolt_spec.reachable_store(1) [OF assms(1,2)]]
      split: option.split)

theorem stale_reports_change_nothing_witness:
  "Coordinator_CompleteTask list_bolt (\<lambda>_ _. 7) run_retried ''b'' ''e2'' ''late'' = (run_retried, Inl ErrStaleExecution)"
  using stale_reports_change_nothing [OF lb.bolt_spec_axioms reachable_branches(2), of "''b''" "''e2''"] by simp

text \<open>
  Completion is idempotent: once a report was accepted, the same execution may report
  again, with any output, and is told success while nothing changes.
\<close>

theorem completion_is_idempotent:
  assumes "bolt_spec B" and "reachable B c"
    and "Coordinator_CompleteTask B clk c t e out = (c', Inr ())"
  shows "Coordinator_CompleteTask B clk' c' t e out' = (c', Inr ())"
proof -
  note wf = bolt_spec.reachable_store(1) [OF assms(1) bolt_spec.reachable_next [OF assms(1,2) sys_step.complete [OF assms(3)]]]
  show ?thesis
    by (rule bolt_spec.completion_leaves_complete [OF assms])
       (simp add: Coordinator_CompleteTask_def CompleteTask_admit_def bolt_spec.GetTask_table [OF assms(1) wf])
qed

theorem completion_is_idempotent_witness:
  "Coordinator_CompleteTask list_bolt (\<lambda>_ _. 9) run3 ''a'' ''e1'' ''again'' = (run3, Inr ())"
  using completion_is_idempotent [OF lb.bolt_spec_axioms reachable_runs(2) coord_results(3)] .

section \<open>Dead workers and restarts\<close>

text \<open>
  C11. The tasks of a dead worker are not lost: when commits succeed and the new execution
  ids are no longer than the old ones, \<^verbatim>\<open>HandleDeadWorker\<close> succeeds, the worker holds no task
  afterwards, and the tasks it held are at the end of the ready queue, once each. In the store each
  is QUEUED under the UUID drawn for it, the first one under the first UUID and so on, whether it
  was RUNNING or had been SKIPPED while it ran. No other task and no other assignment changes, and
  the monitor forgets the worker.
\<close>

theorem dead_worker_tasks_are_requeued:
  assumes "bolt_spec B" and "reachable B c" and "range_order (runningTasks c) ord" and "reliable B"
    and "ids_fit (task_table B (state c)) {t. runningTasks c t = Some w} uuid"
  shows "\<exists>c' qs. HandleDeadWorker B now clk uuid ord c w = (c', Inr ()) \<and>
    readyQueue c' = readyQueue c @ qs \<and> distinct (readyQueue c @ qs) \<and>
    set qs = {t. runningTasks c t = Some w} \<and>
    (\<forall>t. assignedTasks c' t = (if t \<in> set qs then None else assignedTasks c t)) \<and>
    (\<forall>j<length qs. \<exists>r. task_table B (state c) (qs ! j) = Some r \<and>
       task_table B (state c') (qs ! j) = Some (r\<lparr>State := TASK_QUEUED, ExecutionID := uuid j, LastUpdated := clk j\<rparr>)) \<and>
    (\<forall>t. t \<notin> set qs \<longrightarrow> task_table B (state c') t = task_table B (state c) t) \<and>
    heartbeat c' = forget_worker w (heartbeat c)"
proof -
  note inv = bolt_spec.reachable_inv [OF assms(1,2)]
  let ?qs = "tasks_of_worker c ord w"
  obtain c' where H: "HandleDeadWorker B now clk uuid ord c w = (c', Inr ())" "keeps B c c'"
    "readyQueue c' = readyQueue c @ ?qs"
    "\<And>t. assignedTasks c' t = (if runningTasks c t = Some w then None else assignedTasks c t)"
    "requeues clk uuid 0 ?qs ?qs (task_table B (state c)) (task_table B (state c'))"
    by (rule bolt_spec.HandleDeadWorker_keeps [OF assms(1) inv assms(3), of now clk uuid w])
       (use assms(4,5) in blast)
  have "set ?qs = {t. runningTasks c t = Some w}"
    using range_orderD [OF assms(3)] by (auto simp: tasks_of_worker_def)
  moreover have "heartbeat c' = forget_worker w (heartbeat c)" by (rule HandleDeadWorker_heartbeat [OF H(1)])
  moreover have "distinct (readyQueue c @ ?qs)"
    using sys_invD(2) [OF keepsD [OF H(2)]] H(3) by (simp add: queue_inv_def)
  ultimately show ?thesis
    using H(1,3,4) requeues_all [OF H(5)] by (intro exI [of _ c'] exI [of _ ?qs]) simp
qed

theorem dead_worker_tasks_are_requeued_witness:
  "HandleDeadWorker list_bolt 7 (\<lambda>_. 7) (\<lambda>_. ''e3'') [''b''] run4 ''k'' = (run_dead, Inr ()) \<and>
   readyQueue run_dead = [''b''] \<and>
   (\<exists>r. task_table list_bolt (state run_dead) ''b'' = Some r \<and> State r = TASK_QUEUED \<and> ExecutionID r = ''e3'')"
proof -
  have "range_order (runningTasks run4) [''b'']" by (simp add: range_order_def)
  moreover have "ids_fit (task_table list_bolt (state run4)) {t. runningTasks run4 t = Some ''k''} (\<lambda>_. ''e3'')"
    by (simp add: ids_fit_def)
  ultimately obtain c' qs where c': "HandleDeadWorker list_bolt 7 (\<lambda>_. 7) (\<lambda>_. ''e3'') [''b''] run4 ''k'' = (c', Inr ())"
    "readyQueue c' = readyQueue run4 @ qs"
    "\<forall>j<length qs. \<exists>r. task_table list_bolt (state run4) (qs ! j) = Some r \<and> task_table list_bolt (state c') (qs ! j) =
       Some (r\<lparr>State := TASK_QUEUED, ExecutionID := ''e3'', LastUpdated := 7\<rparr>)"
    using dead_worker_tasks_are_requeued [OF lb.bolt_spec_axioms reachable_runs(4) _ reliable_list_bolt,
      of "[''b'']" "''k''" "\<lambda>_. ''e3''" 7 "\<lambda>_. 7"] by blast
  from c'(1) have "c' = run_dead" by simp
  with c'(2) have "qs = [''b'']" by simp
  with c'(3) [rule_format, of 0] \<open>c' = run_dead\<close> show ?thesis by auto
qed

text \<open>
  C10. Recovery: whatever state the coordinator was in when it stopped, a restart on its
  database succeeds and starts with no assignment. When commits succeed, the ready queue
  then holds exactly the tasks that were QUEUED and those that were RUNNING, once each, the
  latter are QUEUED in the store, each under the UUID drawn for it, so that no task is left
  RUNNING, and every other record is untouched.
\<close>

theorem restart_recovers_every_task:
  assumes "bolt_spec B" and "reachable B c" and "reliable B"
    and "ids_fit (task_table B (state c)) (tasks_in (task_table B (state c)) TASK_RUNNING) uuid"
  shows "\<exists>c' qs. startup B interval dead now clk uuid (state c) = (c', Inr ()) \<and>
    assignedTasks c' = Map.empty \<and> distinct (readyQueue c') \<and>
    set (readyQueue c') = tasks_in (task_table B (state c)) TASK_QUEUED \<union> tasks_in (task_table B (state c)) TASK_RUNNING \<and>
    tasks_in (task_table B (state c')) TASK_RUNNING = {} \<and>
    set qs = tasks_in (task_table B (state c)) TASK_RUNNING \<and> distinct qs \<and>
    (\<forall>j<length qs. \<exists>r. task_table B (state c) (qs ! j) = Some r \<and>
       task_table B (state c') (qs ! j) = Some (r\<lparr>State := TASK_QUEUED, ExecutionID := uuid j, LastUpdated := clk j\<rparr>)) \<and>
    (\<forall>t. t \<notin> set qs \<longrightarrow> task_table B (state c') t = task_table B (state c) t)"
  using bolt_spec.startup_exact [OF assms(1) bolt_spec.reachable_store(1,2) [OF assms(1,2)] assms(3,4)] .

theorem restart_recovers_every_task_witness:
  "startup list_bolt 1 1 7 (\<lambda>_. 7) (\<lambda>_. ''e3'') (state run4) = (run_restarted, Inr ()) \<and>
   tasks_in (task_table list_bolt (state run_restarted)) TASK_RUNNING = {} \<and> readyQueue run_restarted = [''b'']"
proof -
  have "ids_fit (task_table list_bolt (state run4)) (tasks_in (task_table list_bolt (state run4)) TASK_RUNNING) (\<lambda>_. ''e3'')"
    by (auto simp: ids_fit_def tasks_in_def split: if_splits)
  from restart_recovers_every_task [OF lb.bolt_spec_axioms reachable_runs(4) reliable_list_bolt this,
      of 1 1 7 "\<lambda>_. 7"]
  obtain c' where "startup list_bolt 1 1 7 (\<lambda>_. 7) (\<lambda>_. ''e3'') (state run4) = (c', Inr ())"
    "tasks_in (task_table list_bolt (state c')) TASK_RUNNING = {}" by blast
  moreover from this(1) have "c' = run_restarted" by (simp only: run_restarted_fields(1) prod.inject)
  ultimately show ?thesis by (simp only: run_restarted_fields(3))
qed

section \<open>Submission and dispatch\<close>

text \<open>
  C19. A workflow with a duplicate task id, a missing dependency or a cycle is rejected with
  an error that names the defect, and the rejection leaves the coordinator and the store as
  they were.
\<close>

theorem invalid_submission_changes_nothing:
  assumes "submit_orders w ords" and "\<not> valid_workflow w"
  shows "\<exists>e. SubmitWorkflow B clk ords c w = (c, Inl (InvalidDAG e)) \<and> dag_error w e"
  using submit_ordersD(1) [OF assms(1)] submit_ordersD(3) [OF assms(1)]
  by (cases rule: ValidateAndSort_cases [of w "ords 0" "ords 2" "ords 1"])
     (use assms(2) in \<open>auto simp: SubmitWorkflow_def dag_error_def\<close>)

definition cyclic_workflow :: WorkflowSpec where
  "cyclic_workflow = sample_workflow\<lparr>Tasks := [sample_task ''a'' [''b''] 1, sample_task ''b'' [''a''] 2]\<rparr>"

theorem invalid_submission_changes_nothing_witness:
  "\<exists>e. SubmitWorkflow list_bolt (\<lambda>_ _. 7) (\<lambda>_. [''a'', ''b'']) run0 cyclic_workflow = (run0, Inl (InvalidDAG e)) \<and>
       dag_error cyclic_workflow e"
proof (rule invalid_submission_changes_nothing)
  show "submit_orders cyclic_workflow (\<lambda>_. [''a'', ''b''])"
    by (simp add: submit_orders_def id_order_def task_ids_def cyclic_workflow_def)
  have "(''a'', ''b'') \<in> dep_rel cyclic_workflow" "(''b'', ''a'') \<in> dep_rel cyclic_workflow"
    by (force simp: dep_rel_def cyclic_workflow_def)+
  then show "\<not> valid_workflow cyclic_workflow"
    unfolding valid_workflow_def acyclic_def by (meson r_into_trancl trancl_into_trancl)
qed

text \<open>
  C18. An accepted submission was valid; afterwards every task of the workflow is cached
  and stored, QUEUED if it has no dependency and PENDING otherwise, the former are appended
  to the ready queue, once each, and no existing task or assignment is touched.
\<close>

theorem accepted_submission_is_complete:
  assumes "bolt_spec B" and "reachable B c" and "small_workflow w" and "submit_orders w ords"
    and "fresh_workflow B c w" and "SubmitWorkflow B clk ords c w = (c', Inr ())"
  shows "valid_workflow w \<and>
    (\<forall>t\<in>set (Tasks w). taskSpecCache c' (TaskId t) = Some t \<and>
       (\<exists>r. task_table B (state c') (TaskId t) = Some r \<and>
            State r = (if Dependencies t = [] then TASK_QUEUED else TASK_PENDING))) \<and>
    (\<exists>roots. readyQueue c' = readyQueue c @ roots \<and> distinct (readyQueue c @ roots) \<and>
       set roots = {t \<in> task_ids w. deps_of w t = []}) \<and>
    (\<forall>t r. task_table B (state c) t = Some r \<longrightarrow> task_table B (state c') t = Some r) \<and>
    assignedTasks c' = assignedTasks c"
  by (rule bolt_spec.SubmitWorkflow_cases
        [OF assms(1) bolt_spec.reachable_inv [OF assms(1,2)] assms(3-5), of clk])
     (use assms(6) bolt_spec.accepted_roots [OF assms(1,3,4)] sys_inv_distinct [of B c'] in
       \<open>auto simp: submitted_def task_accepted_def\<close>)

theorem accepted_submission_is_complete_witness:
  "valid_workflow sample_workflow \<and> readyQueue run1 = [''a''] \<and>
   (\<exists>r. task_table list_bolt (state run1) ''b'' = Some r \<and> State r = TASK_PENDING)"
  using accepted_submission_is_complete [OF lb.bolt_spec_axioms reachable_run0 _ sample_orders sample_fresh
      run1 [THEN conjunct2]]
  by (simp add: small_workflow_def)

text \<open>
  Dispatch takes the head of the ready queue and never fails: either the head is
  assigned, RUNNING in the store under the fresh execution id with the command,
  environment and timeout of its specification, or nothing is assigned and no stored
  record and no assignment changes. All other records and assignments are untouched.
\<close>

theorem dispatch_takes_the_head:
  assumes "bolt_spec B" and "reachable B c"
  shows "\<exists>c' given. GetReadyTask B now uid c k = (c', Inr given) \<and> readyQueue c' = tl (readyQueue c) \<and>
    (case given of
       None \<Rightarrow> state c' = state c \<and> assignedTasks c' = assignedTasks c
     | Some a \<Rightarrow> \<exists>t s r. readyQueue c = t # readyQueue c' \<and> taskSpecCache c t = Some s \<and>
         task_table B (state c) t = Some r \<and>
         a = \<lparr>ta_TaskId = t, ta_ExecutionId = uid, ta_Command = Command s, ta_Env = Env s,
              ta_TimeoutSeconds = TimeoutSeconds s\<rparr> \<and>
         task_table B (state c') = (task_table B (state c))(t \<mapsto>
           r\<lparr>State := TASK_RUNNING, ExecutionID := uid, LastUpdated := now\<rparr>) \<and>
         assignedTasks c' = (assignedTasks c)(t \<mapsto> uid) \<and> runningTasks c' = (runningTasks c)(t \<mapsto> k))"
proof -
  note inv = bolt_spec.reachable_inv [OF assms]
  obtain c' given where g: "GetReadyTask B now uid c k = (c', Inr given)"
    by (rule bolt_spec.GetReadyTask_keeps [OF assms(1) inv])
  show ?thesis
  proof (cases given)
    case None
    with g bolt_spec.GetReadyTask_refused [OF assms(1) inv, of now uid k c'] show ?thesis by simp
  next
    case (Some a)
    with g have "GetReadyTask B now uid c k = (c', Inr (Some a))" by simp
    then show ?thesis
      by (rule bolt_spec.GetReadyTask_given [OF assms(1) inv]) (use g Some in auto)
  qed
qed

theorem dispatch_takes_the_head_witness:
  "\<exists>c' given. GetReadyTask list_bolt 7 ''e1'' run1 ''k'' = (c', Inr given) \<and> readyQueue c' = []"
  using dispatch_takes_the_head [OF lb.bolt_spec_axioms reachable_runs(1), of 7 "''e1''" "''k''"] by auto

end
