(* ===== verification/Coord_Failure.thy ===== *)
theory Coord_Failure
  imports Coord_Props
begin

text \<open>
  Properties of the coordinator's failure handling: what a failure report does while
  retries are left and when they are used up, what the failure policies and a cancellation
  do to the other tasks, when a workflow is declared finished, and that no handler panics
  or loops for ever.
\<close>

section \<open>Handlers return\<close>

context bolt_spec
begin

lemma handler_results:
  assumes "reachable B c" and "dead_orders calls"
    and "small_workflow w" and "submit_orders w ords" and "fresh_workflow B c w"
  shows "\<not> panics (snd (SubmitWorkflow B clk ords c w))" "\<not> panics (snd (GetReadyTask B now uid c k))"
    "\<not> panics (snd (Coordinator_CompleteTask B clk c t e out))"
    "\<not> panics (snd (Coordinator_FailTask B clk uid c t e msg))"
    "\<not> panics (snd (CancelWorkflow B clk c wid))" "\<not> panics (snd (Run_tick B now ord calls c))"
    "\<not> panics (snd (startup B interval dead now clk0 uuids (state c)))"
proof -
  note inv = reachable_inv [OF assms(1)]
  show "\<not> panics (snd (SubmitWorkflow B clk ords c w))"
    by (rule SubmitWorkflow_cases [OF inv assms(3-5), of clk]) (simp_all add: fatal_def)
  show "\<not> panics (snd (GetReadyTask B now uid c k))" by (rule GetReadyTask_keeps [OF inv, of now uid k]) simp
  show "\<not> panics (snd (Coordinator_CompleteTask B clk c t e out))"
    by (rule Coordinator_CompleteTask_cases [OF inv, of t e clk out]) (auto simp: fatal_def)
  show "\<not> panics (snd (Coordinator_FailTask B clk uid c t e msg))"
    by (rule Coordinator_FailTask_cases [OF inv, of t e clk uid msg]) (auto simp: fatal_def)
  show "\<not> panics (snd (CancelWorkflow B clk c wid))"
    by (rule CancelWorkflow_keeps [OF inv, of clk wid]) (auto simp: panics_def split: sum.split)
  show "\<not> panics (snd (Run_tick B now ord calls c))"
    by (rule Run_tick_keeps [OF inv assms(2) [unfolded dead_orders_def], of now ord]) simp
  show "\<not> panics (snd (startup B interval dead now clk0 uuids (state c)))"
    by (rule startup_cases [OF sys_invD(1) [OF inv], of interval dead now clk0 uuids]) simp
qed

end

section \<open>Failure reports\<close>

lemma may_skip_terminal: "may_skip r r' \<Longrightarrow> terminal (State r) \<Longrightarrow> r' = r"
  by (auto simp: may_skip_def skips_def split: if_splits)

lemma may_skip_iff:
  "may_skip r r' \<longleftrightarrow> r' = r \<or> \<not> terminal (State r) \<and> (\<exists>now. r' = r\<lparr>State := TASK_SKIPPED, LastUpdated := now\<rparr>)"
proof -
  have "may_skip r r' \<longleftrightarrow> skips True r r' \<or> skips False r r'"
    unfolding may_skip_def by (metis (full_types))
  then show ?thesis by (auto simp: skips_def)
qed

text \<open>The verdict on the failed task survives the policy.\<close>

lemma failed_verdict:
  assumes "T1 = T(t \<mapsto> r')" and "State r' = TASK_FAILED" and "\<And>u. rel_option may_skip (T1 u) (T' u)"
  shows "T' t = Some r'" and "u \<noteq> t \<Longrightarrow> rel_option may_skip (T u) (T' u)"
proof -
  show "T' t = Some r'"
    using assms(3) [of t] may_skip_terminal [of r'] assms(1,2) by (auto simp: option_rel_Some1 terminal_def)
  show "rel_option may_skip (T u) (T' u)" if "u \<noteq> t" using assms(3) [of u] that assms(1) by simp
qed

text \<open>
  C21. A failure report for the running execution, answered with success, requeues the task
  under the fresh execution id while attempts are left, and changes no other record. Otherwise the
  task is FAILED, with the message and the new attempt count, in the store that the handler leaves
  behind, whatever the failure policy of its workflow did after the verdict: the policy leaves
  every other record alone or marks an unfinished task SKIPPED, and queues nothing. Either way the
  task is no longer assigned.
\<close>

theorem failure_report_outcome:
  assumes "bolt_spec B" and "reachable B c" and "assignedTasks c t = Some e"
    and "Coordinator_FailTask B clk uid c t e msg = (c', Inr ())"
  shows "\<exists>r. task_table B (state c) t = Some r \<and> assignedTasks c' = (assignedTasks c)(t := None) \<and>
    (if sint (AttemptCount r + 1) < sint (max_attempts c t) then
       task_table B (state c') = (task_table B (state c))
         (t \<mapsto> r\<lparr>State := TASK_QUEUED, ExecutionID := uid, LastUpdated := clk 0 0\<rparr>) \<and>
       readyQueue c' = readyQueue c @ [t]
     else
       task_table B (state c') t = Some (r\<lparr>State := TASK_FAILED, Error := msg,
         AttemptCount := AttemptCount r + 1, LastUpdated := clk 0 0\<rparr>) \<and>
       (\<forall>u. u \<noteq> t \<longrightarrow> rel_option
          (\<lambda>s s'. s' = s \<or> \<not> terminal (State s) \<and> (\<exists>now. s' = s\<lparr>State := TASK_SKIPPED, LastUpdated := now\<rparr>))
          (task_table B (state c) u) (task_table B (state c') u)) \<and>
       set (readyQueue c') \<subseteq> set (readyQueue c) - {t})"
proof (cases rule: bolt_spec.Coordinator_FailTask_cases [OF assms(1) bolt_spec.reachable_inv [OF assms(1,2)], of t e clk uid msg])
  case exhausted: (4 c1 d r)
  have d: "d = c'" using exhausted(4) assms(4) by simp
  note V = failed_verdict [OF exhausted(7) _ exhausted(10)]
  have "t \<notin> set (readyQueue c')"
    using queued_only [OF sys_invD(2) [OF keepsD [OF exhausted(6)]] V(1)] by (simp add: d)
  with exhausted(2,3,8,9) V show ?thesis
    unfolding may_skip_iff [abs_def] d by (intro exI [of _ r]) auto
qed (use assms(3,4) in auto)

theorem failure_report_outcome_witness:
  "readyQueue run_retried = readyQueue run4 @ [''b''] \<and> assignedTasks run_retried = (assignedTasks run4)(''b'' := None) \<and>
   (\<exists>r. task_table list_bolt (state run_failed) ''a'' = Some r \<and> State r = TASK_FAILED \<and> Error r = ''exit 1'')"
  using failure_report_outcome [OF lb.bolt_spec_axioms reachable_runs(4) _ run_retried_fields(1)]
    failure_report_outcome [OF lb.bolt_spec_axioms reachable_runs(2) _ run_failed_fields(1)]
  by (simp add: max_attempts_def)

text \<open>
  C22. A retry is not counted: \<^verbatim>\<open>RequeueTask\<close> does not store the attempt count that
  \<^verbatim>\<open>Coordinator.FailTask\<close> computed, so after a requeued failure the stored count is what it
  was, the limit is what it was, and the next failure report finds attempts left again. A
  task that may be tried more than once therefore never becomes FAILED.
\<close>

theorem retries_are_never_used_up:
  assumes "bolt_spec B" and "reachable B c" and "assignedTasks c t = Some e"
    and "Coordinator_FailTask B clk uid c t e msg = (c', Inr ())"
    and "task_table B (state c) t = Some r"
    and "sint (AttemptCount r + 1) < sint (max_attempts c t)"
  shows "\<exists>r'. task_table B (state c') t = Some r' \<and> State r' = TASK_QUEUED \<and> AttemptCount r' = AttemptCount r \<and>
    sint (AttemptCount r' + 1) < sint (max_attempts c' t)"
  by (rule bolt_spec.Coordinator_FailTask_cases [OF assms(1) bolt_spec.reachable_inv [OF assms(1,2)], of t e clk uid msg])
     (use assms(3-6) in \<open>auto simp: max_attempts_def keeps_def\<close>)

theorem retries_are_never_used_up_witness:
  "\<exists>r'. task_table list_bolt (state run_retried) ''b'' = Some r' \<and> AttemptCount r' = 0 \<and>
     sint (AttemptCount r' + 1) < sint (max_attempts run_retried ''b'')"
  using retries_are_never_used_up [OF lb.bolt_spec_axioms reachable_runs(4) _ run_retried_fields(1)]
  by (simp add: max_attempts_def)

section \<open>Failure policies and cancellation\<close>

lemma ds_rel_dom:
  assumes "table_inv T" and "(t, v) \<in> (ds_rel T)\<^sup>+"
  shows "v \<in> dom T"
  using assms(2)
proof (cases rule: tranclE)
  case base
  then show ?thesis using table_invD(2) [OF assms(1)] by (auto simp: ds_rel_def)
next
  case (step u)
  then show ?thesis using table_invD(2) [OF assms(1)] by (auto simp: ds_rel_def)
qed

lemma cancelled_queue:
  assumes "set cancelled = {t. \<exists>r. T t = Some r \<and> WorkflowID r = w \<and> \<not> terminal (State r)}"
  shows "filter (\<lambda>t. t \<notin> set cancelled) q = filter (\<lambda>t. \<not> (\<exists>r. T t = Some r \<and> cancellable w r)) q"
  by (rule filter_cong) (simp_all add: assms cancellable_def)

text \<open>
  C23. Under the policies \<^verbatim>\<open>SKIP_DOWNSTREAM\<close> and \<^verbatim>\<open>CONTINUE_INDEPENDENT\<close>, exactly the unfinished
  tasks that depend on the failed task, directly or not, become SKIPPED and leave the ready
  queue; no other task changes.
\<close>

theorem skip_policy_skips_exactly_downstream:
  assumes "bolt_spec B" and "sys_inv B c" and "reliable B" and "task_table B (state c) t = Some r"
    and "policy = SKIP_DOWNSTREAM \<or> policy = CONTINUE_INDEPENDENT"
  shows "\<exists>c' skipped. applyFailurePolicy B clk c w t policy = (c', Inr ()) \<and>
    set skipped = {v. (t, v) \<in> (ds_rel (task_table B (state c)))\<^sup>+ \<and>
       (\<exists>s. task_table B (state c) v = Some s \<and> \<not> terminal (State s))} \<and>
    (\<forall>v. rel_option (skips (v \<in> set skipped)) (task_table B (state c) v) (task_table B (state c') v)) \<and>
    readyQueue c' = filter (\<lambda>v. v \<notin> set skipped) (readyQueue c) \<and>
    assignedTasks c' = assignedTasks c"
proof -
  let ?T = "task_table B (state c)"
  note S = store_invD [OF sys_invD(1) [OF assms(2)]]
  obtain db' skipped where D: "SkipDownstreamTasks B (clk 0) (state c) t = (db', Inr skipped)"
    "tasks_wf B db'" "only_tasks_changed (state c) db'" "set skipped \<subseteq> (ds_rel ?T)\<^sup>+ `` {t}"
    "\<And>v. rel_option (skips (v \<in> set skipped)) (?T v) (task_table B db' v)"
    "\<And>v r. (t, v) \<in> (ds_rel ?T)\<^sup>+ \<Longrightarrow> ?T v = Some r \<Longrightarrow> \<not> terminal (State r) \<Longrightarrow> v \<in> set skipped"
    by (rule bolt_spec.SkipDownstreamTasks_ok [OF assms(1) S(1) assms(4), of "clk 0"]) (use assms(3) in blast)
  have "\<exists>s. ?T v = Some s \<and> \<not> terminal (State s)" if v: "v \<in> set skipped" for v
  proof -
    obtain s where "?T v = Some s" using ds_rel_dom [OF S(3), of t v] D(4) v by blast
    with D(5) [of v] v show ?thesis by (auto simp: option_rel_Some1 skips_def)
  qed
  with D(4,6) have set: "set skipped = {v. (t, v) \<in> (ds_rel ?T)\<^sup>+ \<and> (\<exists>s. ?T v = Some s \<and> \<not> terminal (State s))}"
    by blast
  let ?c1 = "dequeue_all skipped (c\<lparr>state := db'\<rparr>)"
  have k: "keeps B c ?c1" by (rule skipping_keeps [OF assms(2) D(5,2,3)])
  obtain c' where c': "checkWorkflowCompletion B (clk 1) ?c1 w = (c', Inr ())"
    "task_table B (state c') = task_table B (state ?c1)" "readyQueue c' = readyQueue ?c1"
    "assignedTasks c' = assignedTasks ?c1"
    by (rule bolt_spec.checkWorkflowCompletion_keeps [OF assms(1) keepsD [OF k]])
  have "applyFailurePolicy B clk c w t policy = checkWorkflowCompletion B (clk 1) ?c1 w"
    using assms(5) D(1) by (cases "skipped = []") (auto simp: applyFailurePolicy_def)
  then show ?thesis
    using c' D(5) set by (intro exI [of _ c'] exI [of _ skipped]) simp
qed

theorem skip_policy_skips_exactly_downstream_witness:
  "\<exists>c'. applyFailurePolicy list_bolt (\<lambda>_ _. 7) run2 ''w'' ''a'' SKIP_DOWNSTREAM = (c', Inr ()) \<and>
     (\<exists>r. task_table list_bolt (state c') ''b'' = Some r \<and> State r = TASK_SKIPPED)"
proof -
  let ?T = "task_table list_bolt (state run2)"
  obtain c' skipped where c': "applyFailurePolicy list_bolt (\<lambda>_ _. 7) run2 ''w'' ''a'' SKIP_DOWNSTREAM = (c', Inr ())"
    "set skipped = {v. (''a'', v) \<in> (ds_rel ?T)\<^sup>+ \<and> (\<exists>s. ?T v = Some s \<and> \<not> terminal (State s))}"
    "\<forall>v. rel_option (skips (v \<in> set skipped)) (?T v) (task_table list_bolt (state c') v)"
    using skip_policy_skips_exactly_downstream [OF lb.bolt_spec_axioms bolt_spec.reachable_inv [OF lb.bolt_spec_axioms reachable_runs(2)]
        reliable_list_bolt, of "''a''" _ SKIP_DOWNSTREAM "\<lambda>_ _. 7" "''w''"] by auto
  have "(''a'', ''b'') \<in> ds_rel ?T" by (simp add: ds_rel_def)
  then have "''b'' \<in> set skipped" unfolding c'(2) by (auto simp: terminal_def)
  with c'(3) [rule_format, of "''b''"] c'(1) show ?thesis
    by (auto simp: option_rel_Some1 skips_def)
qed

text \<open>
  C24. Cancelling a workflow that the store knows succeeds when commits succeed: every
  unfinished task of the workflow becomes SKIPPED and leaves the ready queue, the workflow
  becomes CANCELLED with a completion time, and no other task and no other workflow changes.
\<close>

theorem cancel_ends_the_workflow:
  assumes "bolt_spec B" and "reachable B c" and "reliable B" and "wf_table B (state c) w = Some rec"
  shows "\<exists>c'. CancelWorkflow B clk c w = (c', Inr ()) \<and>
    (\<forall>t. rel_option (cancels w) (task_table B (state c) t) (task_table B (state c') t)) \<and>
    readyQueue c' = filter (\<lambda>t. \<not> (\<exists>r. task_table B (state c) t = Some r \<and> cancellable w r)) (readyQueue c) \<and>
    wf_table B (state c') = (wf_table B (state c))
      (w \<mapsto> rec\<lparr>wsr_State := WORKFLOW_CANCELLED, CompletedAtMs := clk 1 1\<rparr>) \<and>
    assignedTasks c' = assignedTasks c"
proof (rule bolt_spec.CancelWorkflowTasks_keeps [OF assms(1) bolt_spec.reachable_inv [OF assms(1,2)], of "clk 0" w])
  fix db1 cancelled
  let ?c1 = "dequeue_all cancelled (c\<lparr>state := db1\<rparr>)"
  assume ok: "CancelWorkflowTasks B (clk 0) (state c) w = (db1, Inr cancelled)" "keeps B c ?c1"
    "set cancelled = {t. \<exists>r. task_table B (state c) t = Some r \<and> WorkflowID r = w \<and> \<not> terminal (State r)}"
    "\<And>t. rel_option (cancels w) (task_table B (state c) t) (task_table B db1 t)"
    "only_tasks_changed (state c) db1"
  have wf1: "wf_table B db1 = wf_table B (state c)" "workflows_wf B db1"
    using wf_table_cong [OF only_tasks_changedD(4) [OF ok(5)]] bolt_spec.reachable_store(2) [OF assms(1,2)] by simp_all
  show ?thesis
  proof (rule bolt_spec.UpdateWorkflowState_cases [OF assms(1) wf1(2) canonical_workflow_state_named(4), of "clk 1" w])
    fix db2
    assume u: "UpdateWorkflowState B (clk 1) db1 w WORKFLOW_CANCELLED = (db2, Inr ())"
      "wf_table B db2 = (wf_table B db1)(w \<mapsto> set_workflow_state (clk 1) w WORKFLOW_CANCELLED (wf_table B db1 w))"
      "only_workflow_state_changed db1 db2"
    have "CancelWorkflow B clk c w = (?c1\<lparr>state := db2\<rparr>, Inr ())"
      using ok(1) u(1) by (simp add: CancelWorkflow_def Let_def)
    then show ?thesis
      using u(2) ok(4) wf1(1) assms(4) cancelled_queue [OF ok(3)]
        task_table_cong(1) [OF only_workflow_state_changedD(1) [OF u(3)]]
      by (intro exI [of _ "?c1\<lparr>state := db2\<rparr>"]) (simp add: set_workflow_state_def finished_workflow_def)
  qed (use assms(3,4) wf1(1) in auto)
qed (use assms(3) in simp)

theorem cancel_ends_the_workflow_witness:
  "\<exists>c'. CancelWorkflow list_bolt (\<lambda>_ _. 7) run2 ''w'' = (c', Inr ()) \<and>
     (\<exists>r. wf_table list_bolt (state c') ''w'' = Some r \<and> wsr_State r = WORKFLOW_CANCELLED)"
  using cancel_ends_the_workflow [OF lb.bolt_spec_axioms reachable_runs(2) reliable_list_bolt, of "''w''" _ "\<lambda>_ _. 7"]
  by auto

text \<open>
  The policy \<^verbatim>\<open>FAIL_FAST\<close> ends the whole workflow in the same way, as FAILED; a policy
  number that the protocol does not name does nothing at all.
\<close>

theorem fail_fast_ends_the_workflow:
  assumes "bolt_spec B" and "sys_inv B c" and "reliable B" and "wf_table B (state c) w = Some rec"
  shows "(\<exists>c'. applyFailurePolicy B clk c w t FAIL_FAST = (c', Inr ()) \<and>
    (\<forall>u. rel_option (cancels w) (task_table B (state c) u) (task_table B (state c') u)) \<and>
    readyQueue c' = filter (\<lambda>u. \<not> (\<exists>r. task_table B (state c) u = Some r \<and> cancellable w r)) (readyQueue c) \<and>
    wf_table B (state c') = (wf_table B (state c))
      (w \<mapsto> rec\<lparr>wsr_State := WORKFLOW_FAILED, CompletedAtMs := clk 1 1\<rparr>)) \<and>
    applyFailurePolicy B clk c w t (POLICY_UNRECOGNIZED n) = (c, Inr ())"
proof (rule bolt_spec.CancelWorkflowTasks_keeps [OF assms(1,2), of "clk 0" w])
  fix db1 cancelled
  let ?c1 = "dequeue_all cancelled (c\<lparr>state := db1\<rparr>)"
  assume ok: "CancelWorkflowTasks B (clk 0) (state c) w = (db1, Inr cancelled)"
    "set cancelled = {t. \<exists>r. task_table B (state c) t = Some r \<and> WorkflowID r = w \<and> \<not> terminal (State r)}"
    "\<And>t. rel_option (cancels w) (task_table B (state c) t) (task_table B db1 t)"
    "only_tasks_changed (state c) db1"
  have wf1: "wf_table B db1 = wf_table B (state c)" "workflows_wf B db1"
    using wf_table_cong [OF only_tasks_changedD(4) [OF ok(4)]] store_invD(2) [OF sys_invD(1) [OF assms(2)]] by simp_all
  show ?thesis
  proof (rule bolt_spec.UpdateWorkflowState_cases [OF assms(1) wf1(2) canonical_workflow_state_named(3), of "clk 1" w])
    fix db2
    assume u: "UpdateWorkflowState B (clk 1) db1 w WORKFLOW_FAILED = (db2, Inr ())"
      "wf_table B db2 = (wf_table B db1)(w \<mapsto> set_workflow_state (clk 1) w WORKFLOW_FAILED (wf_table B db1 w))"
      "only_workflow_state_changed db1 db2"
    have "applyFailurePolicy B clk c w t FAIL_FAST = (?c1\<lparr>state := db2\<rparr>, Inr ())"
      using ok(1) u(1) by (simp add: applyFailurePolicy_def Let_def)
    then show ?thesis
      using u(2) ok(3) wf1(1) assms(4) cancelled_queue [OF ok(2)]
        task_table_cong(1) [OF only_workflow_state_changedD(1) [OF u(3)]]
      by (intro conjI exI [of _ "?c1\<lparr>state := db2\<rparr>"])
         (simp_all add: set_workflow_state_def finished_workflow_def applyFailurePolicy_def)
  qed (use assms(3,4) wf1(1) in auto)
qed (use assms(3) in simp)

theorem fail_fast_ends_the_workflow_witness:
  "(\<exists>c'. applyFailurePolicy list_bolt (\<lambda>_ _. 7) run2 ''w'' ''a'' FAIL_FAST = (c', Inr ()) \<and>
     (\<exists>r. wf_table list_bolt (state c') ''w'' = Some r \<and> wsr_State r = WORKFLOW_FAILED)) \<and>
   applyFailurePolicy list_bolt (\<lambda>_ _. 7) run2 ''w'' ''a'' (POLICY_UNRECOGNIZED 9) = (run2, Inr ())"
  using fail_fast_ends_the_workflow [OF lb.bolt_spec_axioms bolt_spec.reachable_inv [OF lb.bolt_spec_axioms reachable_runs(2)]
      reliable_list_bolt, of "''w''" _ "\<lambda>_ _. 7" "''a''" 9]
  by auto

text \<open>
  C25. A workflow is declared finished exactly when it is: \<^verbatim>\<open>checkWorkflowCompletion\<close> leaves a
  workflow with an unfinished task alone, and otherwise, when commits succeed, marks it
  FAILED if one of its tasks failed and COMPLETE if none did, with the completion time.
\<close>

theorem workflow_finished_iff_all_tasks_finished:
  assumes "bolt_spec B" and "reachable B c" and "reliable B" and "wf_table B (state c) w = Some rec"
  defines "tasks \<equiv> {r. \<exists>t. task_table B (state c) t = Some r \<and> WorkflowID r = w}"
  shows "\<exists>c'. checkWorkflowCompletion B clk c w = (c', Inr ()) \<and>
    (if \<forall>r\<in>tasks. terminal (State r) then
       wf_table B (state c') = (wf_table B (state c))(w \<mapsto> rec
         \<lparr>wsr_State := (if \<exists>r\<in>tasks. State r = TASK_FAILED then WORKFLOW_FAILED else WORKFLOW_COMPLETE),
          CompletedAtMs := clk 1\<rparr>)
     else c' = c)"
  by (rule bolt_spec.checkWorkflowCompletion_cases [OF assms(1) bolt_spec.reachable_store(1,2) [OF assms(1,2)], of w clk])
     (use assms(3,4) in \<open>auto simp: tasks_def set_workflow_state_def finished_workflow_def\<close>)

theorem workflow_finished_iff_all_tasks_finished_witness:
  "\<exists>c'. checkWorkflowCompletion list_bolt (\<lambda>_. 9) run5 ''w'' = (c', Inr ()) \<and>
     (\<exists>r. wf_table list_bolt (state c') ''w'' = Some r \<and> wsr_State r = WORKFLOW_COMPLETE \<and> CompletedAtMs r = 9)"
proof -
  have done_tasks: "terminal (State r) \<and> State r \<noteq> TASK_FAILED" if "task_table list_bolt (state run5) t = Some r" for t r
    using that by (simp add: terminal_def split: if_splits) (hypsubst, simp)+
  obtain rec where rec: "wf_table list_bolt (state run5) ''w'' = Some rec" by simp
  from workflow_finished_iff_all_tasks_finished [OF lb.bolt_spec_axioms reachable_runs(5) reliable_list_bolt rec, of "\<lambda>_. 9"]
  obtain c' where c': "checkWorkflowCompletion list_bolt (\<lambda>_. 9) run5 ''w'' = (c', Inr ())"
    "if \<forall>r\<in>{r. \<exists>t. task_table list_bolt (state run5) t = Some r \<and> WorkflowID r = ''w''}. terminal (State r) then
       wf_table list_bolt (state c') = (wf_table list_bolt (state run5))(''w'' \<mapsto> rec
         \<lparr>wsr_State := (if \<exists>r\<in>{r. \<exists>t. task_table list_bolt (state run5) t = Some r \<and> WorkflowID r = ''w''}.
            State r = TASK_FAILED then WORKFLOW_FAILED else WORKFLOW_COMPLETE), CompletedAtMs := 9\<rparr>)
     else c' = run5" by blast
  have all: "\<forall>r\<in>{r. \<exists>t. task_table list_bolt (state run5) t = Some r \<and> WorkflowID r = ''w''}. terminal (State r)"
    "\<not> (\<exists>r\<in>{r. \<exists>t. task_table list_bolt (state run5) t = Some r \<and> WorkflowID r = ''w''}. State r = TASK_FAILED)"
    using done_tasks by blast+
  from c'(2) show ?thesis unfolding if_P [OF all(1)] if_not_P [OF all(2)] using c'(1) by simp
qed

section \<open>No handler panics or loops for ever\<close>

text \<open>
  C12. In a reachable state every handler returns: none of them panics and none loops for
  ever, in particular not the breadth-first walk of \<^verbatim>\<open>SkipDownstreamTasks\<close> and not the
  depth-first search for cycles, whatever the store does with their commits.
\<close>

theorem handlers_return:
  assumes "bolt_spec B" and "reachable B c" and "dead_orders calls"
    and "small_workflow w" and "submit_orders w ords" and "fresh_workflow B c w"
  shows "\<not> panics (snd (SubmitWorkflow B clk ords c w)) \<and>
    \<not> panics (snd (GetReadyTask B now uid c k)) \<and>
    \<not> panics (snd (Coordinator_CompleteTask B clk c t e out)) \<and>
    \<not> panics (snd (Coordinator_FailTask B clk uid c t e msg)) \<and>
    \<not> panics (snd (CancelWorkflow B clk c wid)) \<and>
    \<not> panics (snd (Run_tick B now ord calls c)) \<and>
    \<not> panics (snd (startup B interval dead now (clk 0) uuids (state c)))"
  by (intro conjI bolt_spec.handler_results [OF assms])

theorem handlers_return_witness:
  "\<not> panics (snd (SubmitWorkflow list_bolt (\<lambda>_ _. 7) (\<lambda>_. [''a'', ''b'']) run0 sample_workflow)) \<and>
   \<not> panics (snd (Coordinator_FailTask list_bolt (\<lambda>_ _. 7) ''e3'' run0 ''a'' ''e1'' ''exit 1''))"
proof -
  have "dead_orders (\<lambda>_. (7, \<lambda>_. 7, \<lambda>_. ''e3'', \<lambda>m. sorted_list_of_set (dom m)))"
    by (simp add: dead_orders_def range_order_def)
  from handlers_return [OF lb.bolt_spec_axioms reachable_run0 this _ sample_orders sample_fresh, of "\<lambda>_ _. 7"]
  show ?thesis by (simp add: small_workflow_def)
qed

end
