(* ===== verification/Divergences.thy ===== *)
theory Divergences
  imports Coord_Failure
begin

text \<open>
  Concrete runs in which the code does something other than its documentation or comments
  say: a cancelled workflow that becomes COMPLETE or whose skipped task is queued again, a second
  submission that overwrites finished tasks and breaks the order of execution, a workflow whose roots stay PENDING for ever because the submission
  was interrupted, a dead worker that is not noticed, two odd workflows, and a race that
  reopens a finished task.
\<close>

text \<open>
  \<^verbatim>\<open>CancelWorkflow\<close> skips the running task \<open>a\<close> but keeps its assignment, so the report of the
  worker is still accepted: the task goes from SKIPPED to COMPLETE and the workflow from
  CANCELLED to COMPLETE.
\<close>

lemma run_cancelled_maps [simp]:
  "runningTasks run_cancelled = runningTasks run2" "taskWorkflowMap run_cancelled = taskWorkflowMap run1"
  by (simp_all add: run_cancelled_def CancelWorkflow_def CancelWorkflowTasks_def run_simps handler_defs)

theorem cancelled_workflow_becomes_complete:
  "wf_table list_bolt (state run_cancelled) ''w'' =
     Some \<lparr>wsr_WorkflowID = ''w'', wsr_State = WORKFLOW_CANCELLED, SubmittedAtMs = 7, CompletedAtMs = 7\<rparr> \<and>
   (\<exists>c'. Coordinator_CompleteTask list_bolt (\<lambda>_ _. 7) run_cancelled ''a'' ''e1'' ''ok'' = (c', Inr ()) \<and>
      state c' = sample_db [(''a'', run_record ''a'' TASK_COMPLETE ''e1'' ''ok'' 0 [''b'']),
        (''b'', run_record ''b'' TASK_SKIPPED [] [] 1 [])] WORKFLOW_COMPLETE 7)"
  by (rule conjI, simp) (simp add: run_simps handler_defs)

text \<open>
  When the worker of that skipped task dies, \<^verbatim>\<open>HandleDeadWorker\<close> finds the assignment and requeues the
  task: it goes from SKIPPED to QUEUED, in a workflow that is CANCELLED, and will run again.
\<close>

theorem dead_worker_revives_a_skipped_task:
  "task_table list_bolt (state run_cancelled) ''a'' = Some (run_record ''a'' TASK_SKIPPED ''e1'' [] 0 [''b'']) \<and>
   (\<exists>c'. HandleDeadWorker list_bolt 7 (\<lambda>_. 7) (\<lambda>_. ''e9'') [''a''] run_cancelled ''k'' = (c', Inr ()) \<and>
      readyQueue c' = [''a''] \<and>
      state c' = sample_db [(''a'', run_record ''a'' TASK_QUEUED ''e9'' [] 0 [''b'']),
        (''b'', run_record ''b'' TASK_SKIPPED [] [] 1 [])] WORKFLOW_CANCELLED 7)"
  by (rule conjI, simp) (simp add: HandleDeadWorker_def tasks_of_worker_def count_dead_worker_def run_simps handler_defs)

text \<open>
  The task bucket is keyed by the task id alone: submitting the finished workflow again is
  accepted and resets its COMPLETE tasks.
\<close>

theorem resubmission_overwrites_complete_tasks:
  "\<exists>c'. SubmitWorkflow list_bolt (\<lambda>_ _. 7) (\<lambda>_. [''a'', ''b'']) run5 sample_workflow = (c', Inr ()) \<and>
      state c' = sample_db [(''a'', run_record ''a'' TASK_QUEUED [] [] 0 [''b'']),
        (''b'', run_record ''b'' TASK_PENDING [] [] 1 [])] WORKFLOW_RUNNING 0"
  by (simp add: SubmitWorkflow_def sample_valid sample_built run_simps dag_defs policy_named_def
      cache_workflow_def)

text \<open>
  The same while the workflow runs breaks the order of execution: \<open>a\<close> is COMPLETE and \<open>b\<close> waits in the
  ready queue when the workflow is submitted again. \<open>a\<close> is QUEUED again, but \<open>b\<close> is still in the queue, in
  front of it, and is handed out. Hence the condition on task ids in \<open>reachable\<close>.
\<close>

theorem resubmission_breaks_dependency_order:
  "\<exists>c' c'' a. SubmitWorkflow list_bolt (\<lambda>_ _. 7) (\<lambda>_. [''a'', ''b'']) run3 sample_workflow = (c', Inr ()) \<and>
     readyQueue c' = [''b'', ''a''] \<and>
     GetReadyTask list_bolt 7 ''e5'' c' ''k'' = (c'', Inr (Some a)) \<and> ta_TaskId a = ''b'' \<and>
     Dependencies (sample_task ''b'' [''a''] 2) = [''a''] \<and>
     task_table list_bolt (state c'') ''a'' = Some (run_record ''a'' TASK_QUEUED [] [] 0 [''b''])"
proof -
  let ?db = "sample_db [(''a'', run_record ''a'' TASK_QUEUED [] [] 0 [''b'']), (''b'', run_record ''b'' TASK_PENDING [] [] 1 [])]
    WORKFLOW_RUNNING 0"
  obtain c' where c': "SubmitWorkflow list_bolt (\<lambda>_ _. 7) (\<lambda>_. [''a'', ''b'']) run3 sample_workflow = (c', Inr ())"
    "readyQueue c' = [''b'', ''a'']" "state c' = ?db" "taskSpecCache c' ''b'' = Some (sample_task ''b'' [''a''] 2)"
    by (simp add: SubmitWorkflow_def sample_valid sample_built run_simps dag_defs policy_named_def cache_workflow_def)
  moreover obtain c'' a where "GetReadyTask list_bolt 7 ''e5'' c' ''k'' = (c'', Inr (Some a))" "ta_TaskId a = ''b''"
    "state c'' = sample_db [(''b'', run_record ''b'' TASK_RUNNING ''e5'' [] 1 []), (''a'', run_record ''a'' TASK_QUEUED [] [] 0 [''b''])]
       WORKFLOW_RUNNING 0"
    using c' by (simp add: GetReadyTask_def run_simps set_QueueDepth_def)
  ultimately show ?thesis by auto
qed

text \<open>
  A submission is several transactions. A database whose third transaction fails stands for
  a crash after the tasks were written: the caller gets an error, the workflow is RUNNING in
  the store, and after a restart its root is PENDING with no open dependency and in no queue.
\<close>

definition crashing_bolt :: "lbucket bolt" where
  "crashing_bolt = list_bolt\<lparr>db_update := (\<lambda>db r. case r of
     Inl e \<Rightarrow> (db, Some e)
   | Inr db' \<Rightarrow> if bucket_task_state db = [] then (db', None) else (db, Some (LibErr ''crash'')))\<rparr>"

definition run_interrupted :: "lbucket Coordinator" where
  "run_interrupted = fst (SubmitWorkflow crashing_bolt (\<lambda>_ _. 7) (\<lambda>_. [''a'', ''b'']) run0 sample_workflow)"

theorem interrupted_submission_is_never_scheduled:
  "SubmitWorkflow crashing_bolt (\<lambda>_ _. 7) (\<lambda>_. [''a'', ''b'']) run0 sample_workflow =
     (run_interrupted, Inl (LibErr ''crash'')) \<and>
   (\<exists>c'. startup list_bolt 1 1 7 (\<lambda>_. 7) (\<lambda>_. ''e3'') (state run_interrupted) = (c', Inr ()) \<and>
      readyQueue c' = [] \<and>
      state c' = sample_db [(''b'', run_record ''b'' TASK_PENDING [] [] 1 []),
        (''a'', run_record ''a'' TASK_PENDING [] [] 0 [''b''])] WORKFLOW_RUNNING 0)"
  by (simp add: run_interrupted_def crashing_bolt_def SubmitWorkflow_def sample_valid sample_built run_simps dag_defs policy_named_def
      cache_workflow_def run0 NewCoordinator_def WithHeartbeatConfig_def startup_def LoadStateFromDB_def 
      GetAllWorkflowStates_def GetTasksInState_def PrepareRecovery_def GetWorkflow_def dec_enc_spec cache_spec_def handler_defs)

text \<open>
  The monitor knows only workers that have sent a heartbeat. A worker that takes a task and
  dies before its first heartbeat is never declared dead, and its task stays RUNNING until
  the coordinator restarts.
\<close>

theorem silent_worker_is_never_dead:
  "runningTasks run2 ''a'' = Some ''k'' \<and> lastHeartbeat (heartbeat run2) = Map.empty \<and>
   GetDeadWorkers (heartbeat run2) [] now = []"
  by (simp add: GetDeadWorkers_def)
     (simp add: run2_def GetReadyTask_def run_simps set_QueueDepth_def run1 run0 NewCoordinator_def
       WithHeartbeatConfig_def NewHeartbeatMonitor_def)

text \<open>Cancelling a workflow that does not exist succeeds, and creates it as CANCELLED.\<close>

theorem cancelling_an_unknown_workflow_creates_it:
  "GetWorkflowState list_bolt (state run0) ''w'' = Inl ErrWorkflowNotFound \<and>
   (\<exists>c'. CancelWorkflow list_bolt (\<lambda>_ _. 7) run0 ''w'' = (c', Inr ()) \<and>
      wf_table list_bolt (state c') ''w'' =
        Some \<lparr>wsr_WorkflowID = ''w'', wsr_State = WORKFLOW_CANCELLED, SubmittedAtMs = 7, CompletedAtMs = 7\<rparr>)"
  by (simp add: CancelWorkflow_def run_simps handler_defs run0 NewCoordinator_def WithHeartbeatConfig_def
      GetWorkflowState_def wf_table_def)

text \<open>
  A workflow without tasks is accepted, is RUNNING, and has no task whose completion could
  end it.
\<close>

theorem empty_workflow_stays_running:
  "\<exists>c'. SubmitWorkflow list_bolt (\<lambda>_ _. 7) (\<lambda>_. []) run0 \<lparr>WorkflowId = ''w'', Tasks = [], Failure_Policy = FAIL_FAST\<rparr> = (c', Inr ()) \<and>
     readyQueue c' = [] \<and> task_table list_bolt (state c') = Map.empty \<and>
     wf_table list_bolt (state c') ''w'' =
       Some \<lparr>wsr_WorkflowID = ''w'', wsr_State = WORKFLOW_RUNNING, SubmittedAtMs = 7, CompletedAtMs = 0\<rparr>"
  by (simp add: SubmitWorkflow_def ValidateAndSort_def empty_DAG_def hasCycle_def run_simps dag_defs policy_named_def
      cache_workflow_def run0 NewCoordinator_def WithHeartbeatConfig_def GetWorkflowState_def wf_table_def
      enc_spec_def list_slice_def task_table_def fun_eq_iff)

text \<open>
  \<^verbatim>\<open>CompleteTask\<close> and \<^verbatim>\<open>HandleDeadWorker\<close> release the mutex around their transactions, and \<^verbatim>\<open>RequeueTask\<close>
  does not look at the state it replaces. When the worker is declared dead between the
  transaction of its last report and the end of that call, the COMPLETE task is queued
  again: it runs a second time although its dependents have been released.
\<close>

theorem dead_worker_race_reopens_a_complete_task:
  "CompleteTask_admit list_bolt run2 ''a'' ''e1'' = Proceed \<and>
   (\<exists>db c'. CompleteTask list_bolt (\<lambda>_. 7) (state run2) ''a'' ''e1'' ''ok'' = (db, Inr [''b'']) \<and>
      task_table list_bolt db ''a'' = Some (run_record ''a'' TASK_COMPLETE ''e1'' ''ok'' 0 [''b'']) \<and>
      HandleDeadWorker list_bolt 7 (\<lambda>_. 7) (\<lambda>_. ''e9'') [''a''] (run2\<lparr>state := db\<rparr>) ''k'' = (c', Inr ()) \<and>
      readyQueue c' = [''a''] \<and>
      task_table list_bolt (state c') ''a'' = Some (run_record ''a'' TASK_QUEUED ''e9'' ''ok'' 0 [''b'']))"
proof -
  let ?db = "sample_db [(''b'', run_record ''b'' TASK_QUEUED [] [] 0 []),
    (''a'', run_record ''a'' TASK_COMPLETE ''e1'' ''ok'' 0 [''b''])] WORKFLOW_RUNNING 0"
  have "CompleteTask_admit list_bolt run2 ''a'' ''e1'' = Proceed" by (simp add: CompleteTask_admit_def)
  moreover have "CompleteTask list_bolt (\<lambda>_. 7) (state run2) ''a'' ''e1'' ''ok'' = (?db, Inr [''b''])"
    by (simp add: run_simps)
  moreover have "\<exists>c'. HandleDeadWorker list_bolt 7 (\<lambda>_. 7) (\<lambda>_. ''e9'') [''a''] (run2\<lparr>state := ?db\<rparr>) ''k'' = (c', Inr ()) \<and>
      readyQueue c' = [''a''] \<and>
      state c' = sample_db [(''a'', run_record ''a'' TASK_QUEUED ''e9'' ''ok'' 0 [''b'']),
        (''b'', run_record ''b'' TASK_QUEUED [] [] 0 [])] WORKFLOW_RUNNING 0"
    by (simp add: HandleDeadWorker_def tasks_of_worker_def count_dead_worker_def run_simps handler_defs)
  ultimately show ?thesis by fastforce
qed

text \<open>
  The same between the two halves of \<^verbatim>\<open>FailTask\<close>: the report of a failure is admitted, the worker is
  declared dead and its task queued again, and then the report queues the task once more. It is
  in the queue twice, \<^verbatim>\<open>AssignTask\<close> does not look at the state either, and two workers get it.
\<close>

theorem dead_worker_race_dispatches_a_task_twice:
  "assignedTasks run4 ''b'' = Some ''e2'' \<and> max_attempts run4 ''b'' = 2 \<and>
   HandleDeadWorker list_bolt 7 (\<lambda>_. 7) (\<lambda>_. ''e3'') [''b''] run4 ''k'' = (run_dead, Inr ()) \<and>
   (\<exists>db c1 a1 c2 a2. RequeueTask list_bolt 7 (state run_dead) ''b'' ''e5'' = (db, Inr ()) \<and>
      readyQueue (retry_task ''b'' (run_dead\<lparr>state := db\<rparr>)) = [''b'', ''b''] \<and>
      GetReadyTask list_bolt 7 ''e6'' (retry_task ''b'' (run_dead\<lparr>state := db\<rparr>)) ''k1'' = (c1, Inr (Some a1)) \<and>
      GetReadyTask list_bolt 7 ''e7'' c1 ''k2'' = (c2, Inr (Some a2)) \<and>
      ta_TaskId a1 = ''b'' \<and> ta_TaskId a2 = ''b'' \<and> ta_ExecutionId a1 = ''e6'' \<and> ta_ExecutionId a2 = ''e7'')"
proof -
  have cache: "taskSpecCache run_dead = taskSpecCache run4"
    by (simp add: run_dead_def HandleDeadWorker_def tasks_of_worker_def count_dead_worker_def run_simps handler_defs)
  have "max_attempts run4 ''b'' = 2" by (simp add: max_attempts_def)
  moreover have "\<exists>db c1 a1 c2 a2. RequeueTask list_bolt 7 (state run_dead) ''b'' ''e5'' = (db, Inr ()) \<and>
      readyQueue (retry_task ''b'' (run_dead\<lparr>state := db\<rparr>)) = [''b'', ''b''] \<and>
      GetReadyTask list_bolt 7 ''e6'' (retry_task ''b'' (run_dead\<lparr>state := db\<rparr>)) ''k1'' = (c1, Inr (Some a1)) \<and>
      GetReadyTask list_bolt 7 ''e7'' c1 ''k2'' = (c2, Inr (Some a2)) \<and>
      ta_TaskId a1 = ''b'' \<and> ta_TaskId a2 = ''b'' \<and> ta_ExecutionId a1 = ''e6'' \<and> ta_ExecutionId a2 = ''e7''"
    by (simp add: run_simps handler_defs retry_task_def GetReadyTask_def cache)
  ultimately show ?thesis by simp
qed

end
