(* ===== verification/Coord_Interleave.thy ===== *)
theory Coord_Interleave
  imports Coord_Failure "HOL-Library.Multiset"
begin

text \<open>
  \<^verbatim>\<open>Coordinator.CompleteTask\<close> is not one critical section: it checks the assignment under the
  mutex, releases it for the store transaction, takes it again to update its maps and queue,
  and then closes the workflow with three more store calls. This theory interleaves these
  sections, for any number of streams that report and ask for tasks at the same time
  (\<^verbatim>\<open>GetReadyTask\<close> holds the mutex throughout), and shows that dispatch stays safe. What a call
  has committed but not yet entered into the memory is applied by \<open>settle\<close>; the settled state
  satisfies the system invariant after every step.
\<close>

section \<open>Sections of concurrent calls\<close>

text \<open>Where a call of \<^verbatim>\<open>CompleteTask\<close> stands between two of its sections.\<close>

datatype call =
    Admitted string string string
  | Committed string "string list"
  | Finished string
  | AllDone string
  | Closing string WorkflowState

inductive conc_step :: "'b bolt \<Rightarrow> 'b Coordinator \<times> call list \<Rightarrow> 'b Coordinator \<times> call list \<Rightarrow> bool" for B where
  dispatch: "GetReadyTask B now uid c k = (c', given) \<Longrightarrow> conc_step B (c, P) (c', P)"
| beat: "conc_step B (c, P) (UpdateWorkerHeartbeat c k ts ids, P)"
| admit: "CompleteTask_admit B c t e = Proceed \<Longrightarrow> conc_step B (c, P) (c, Admitted t e out # P)"
| refuse: "Admitted t e out \<in> set P \<Longrightarrow> CompleteTask B clk (state c) t e out = (db, Inl er) \<Longrightarrow>
    conc_step B (c, P) (c\<lparr>state := db\<rparr>, remove1 (Admitted t e out) P)"
| commit: "Admitted t e out \<in> set P \<Longrightarrow> CompleteTask B clk (state c) t e out = (db, Inr ready) \<Longrightarrow>
    conc_step B (c, P) (c\<lparr>state := db\<rparr>, Committed t ready # remove1 (Admitted t e out) P)"
| finish: "Committed t ready \<in> set P \<Longrightarrow>
    conc_step B (c, P) (CompleteTask_finish t ready c, Finished t # remove1 (Committed t ready) P)"
| leave: "Finished t \<in> set P \<Longrightarrow> conc_step B (c, P) (c, remove1 (Finished t) P)"
| check: "Finished t \<in> set P \<Longrightarrow> taskWorkflowID c t = w \<Longrightarrow> w \<noteq> [] \<Longrightarrow>
    IsWorkflowComplete B (state c) w = (True, None) \<Longrightarrow>
    conc_step B (c, P) (c, AllDone w # remove1 (Finished t) P)"
| count: "AllDone w \<in> set P \<Longrightarrow> GetTaskStatusesForWorkflow B (state c) w = (sts, None) \<Longrightarrow>
    conc_step B (c, P) (c, Closing w (final_state sts) # remove1 (AllDone w) P)"
| close: "Closing w st \<in> set P \<Longrightarrow> UpdateWorkflowState B clk (state c) w st = (db, r) \<Longrightarrow>
    conc_step B (c, P) (c\<lparr>state := db\<rparr>, remove1 (Closing w st) P)"

section \<open>Settling\<close>

fun committed :: "call list \<Rightarrow> (string \<times> string list) list" where
  "committed [] = []"
| "committed (Committed t ready # P) = (t, ready) # committed P"
| "committed (_ # P) = committed P"

definition settle :: "'b Coordinator \<Rightarrow> (string \<times> string list) list \<Rightarrow> 'b Coordinator" where
  "settle c Q =
     c\<lparr>readyQueue := readyQueue c @ concat (map snd Q),
       runningTasks := runningTasks c |` (- fst ` set Q),
       assignedTasks := assignedTasks c |` (- fst ` set Q)\<rparr>"

lemma settle_fields [simp]:
  "state (settle c Q) = state c" "taskSpecCache (settle c Q) = taskSpecCache c"
  "readyQueue (settle c Q) = readyQueue c @ concat (map snd Q)"
  "runningTasks (settle c Q) = runningTasks c |` (- fst ` set Q)"
  "assignedTasks (settle c Q) = assignedTasks c |` (- fst ` set Q)"
  by (simp_all add: settle_def)

lemma settle_none [simp]: "settle c [] = c"
proof -
  have "m |` UNIV = m" for m :: "string \<rightharpoonup> string" by (simp add: restrict_map_def)
  then show ?thesis by (simp add: settle_def)
qed

lemma committed_remove:
  "committed (remove1 x P) = (case x of Committed t ready \<Rightarrow> remove1 (t, ready) (committed P) | _ \<Rightarrow> committed P)"
  by (induction P rule: committed.induct) (auto split: call.splits)

lemma committed_mem: "(t, ready) \<in> set (committed P) \<longleftrightarrow> Committed t ready \<in> set P"
  by (induction P rule: committed.induct) auto

definition done_by :: "table \<Rightarrow> string \<Rightarrow> string \<Rightarrow> bool" where
  "done_by T t e \<longleftrightarrow> (\<exists>r. T t = Some r \<and> State r = TASK_COMPLETE \<and> ExecutionID r = e)"

text \<open>
  The invariant: the settled state is right; an assignment in memory, and an execution that was
  admitted, is held in the store or already completed there; what was committed is
  COMPLETE; and a workflow is only closed with a named state.
\<close>

definition conc_inv :: "'b bolt \<Rightarrow> 'b Coordinator \<times> call list \<Rightarrow> bool" where
  "conc_inv B s \<longleftrightarrow> (case s of (c, P) \<Rightarrow>
     let T = task_table B (state c) in
     sys_inv B (settle c (committed P)) \<and>
     (\<forall>t e. assignedTasks c t = Some e \<longrightarrow> held T t e \<or> done_by T t e) \<and>
     (\<forall>t e out. Admitted t e out \<in> set P \<longrightarrow> held T t e \<or> done_by T t e) \<and>
     (\<forall>t ready. Committed t ready \<in> set P \<longrightarrow> (\<exists>r. T t = Some r \<and> State r = TASK_COMPLETE)) \<and>
     (\<forall>w st. Closing w st \<in> set P \<longrightarrow> canonical_workflow_state st))"

lemma conc_invD:
  assumes "conc_inv B (c, P)"
  shows "sys_inv B (settle c (committed P))"
    and "assignedTasks c t = Some e \<Longrightarrow> held (task_table B (state c)) t e \<or> done_by (task_table B (state c)) t e"
    and "Admitted t e out \<in> set P \<Longrightarrow> held (task_table B (state c)) t e \<or> done_by (task_table B (state c)) t e"
    and "Committed t ready \<in> set P \<Longrightarrow> \<exists>r. task_table B (state c) t = Some r \<and> State r = TASK_COMPLETE"
    and "Closing w st \<in> set P \<Longrightarrow> canonical_workflow_state st"
  using assms unfolding conc_inv_def Let_def prod.case by blast+

lemma conc_invI:
  assumes "sys_inv B (settle c (committed P))"
    and "\<And>t e. assignedTasks c t = Some e \<Longrightarrow> held (task_table B (state c)) t e \<or> done_by (task_table B (state c)) t e"
    and "\<And>t e out. Admitted t e out \<in> set P \<Longrightarrow> held (task_table B (state c)) t e \<or> done_by (task_table B (state c)) t e"
    and "\<And>t ready. Committed t ready \<in> set P \<Longrightarrow> \<exists>r. task_table B (state c) t = Some r \<and> State r = TASK_COMPLETE"
    and "\<And>w st. Closing w st \<in> set P \<Longrightarrow> canonical_workflow_state st"
  shows "conc_inv B (c, P)"
  unfolding conc_inv_def Let_def prod.case using assms by blast

text \<open>Dropping or adding a call that says nothing about the memory.\<close>

definition quiet_call :: "call \<Rightarrow> bool" where
  "quiet_call x = (case x of Finished _ \<Rightarrow> True | AllDone _ \<Rightarrow> True | Closing _ st \<Rightarrow> canonical_workflow_state st | _ \<Rightarrow> False)"

lemma conc_inv_calls:
  assumes "conc_inv B (c, P)" and "committed P' = committed P"
    and "\<And>x. x \<in> set P' \<Longrightarrow> x \<in> set P \<or> quiet_call x"
  shows "conc_inv B (c, P')"
proof (rule conc_invI)
  note D = conc_invD [OF assms(1)]
  show "sys_inv B (settle c (committed P'))" using D(1) assms(2) by simp
  show "held (task_table B (state c)) t e \<or> done_by (task_table B (state c)) t e"
    if "assignedTasks c t = Some e" for t e using D(2) that .
  show "held (task_table B (state c)) t e \<or> done_by (task_table B (state c)) t e"
    if "Admitted t e out \<in> set P'" for t e out using D(3) assms(3) [OF that] by (auto simp: quiet_call_def)
  show "\<exists>r. task_table B (state c) t = Some r \<and> State r = TASK_COMPLETE"
    if "Committed t ready \<in> set P'" for t ready using D(4) assms(3) [OF that] by (auto simp: quiet_call_def)
  show "canonical_workflow_state st" if "Closing w st \<in> set P'" for w st
    using D(5) assms(3) [OF that] by (auto simp: quiet_call_def)
qed

text \<open>A step that evolves the table and leaves the records of tasks in execution alone.\<close>

lemma evolves_dep_count:
  assumes "finite (dom T)" and "evolves T T'"
  shows "dep_count T' v \<le> dep_count T v"
proof -
  have rel: "rel_option evolves_rec (T u) (T' u)" for u using assms(2) by (simp add: evolves_def)
  have "dom T' = dom T"
  proof (rule set_eqI)
    fix u show "u \<in> dom T' \<longleftrightarrow> u \<in> dom T" using rel [of u] by (cases "T u"; cases "T' u") auto
  qed
  moreover have "waits T' v u \<le> waits T v u" for u
    using rel [of u] by (cases "T u"; cases "T' u") (auto simp: waits_def evolves_rec_def)
  ultimately show ?thesis by (simp add: dep_count_def sum_mono)
qed

lemma hold_kept:
  assumes "finite (dom T)" and "evolves T T'" and "held T t e \<or> done_by T t e"
    and "\<And>r. T t = Some r \<Longrightarrow> State r = TASK_RUNNING \<or> State r = TASK_SKIPPED \<Longrightarrow> T' t = Some r"
  shows "held T' t e \<or> done_by T' t e"
  using assms(3)
proof
  assume h: "held T t e"
  then have "held T' t e"
    using assms(4) evolves_dep_count [OF assms(1,2), of t] by (auto simp: held_def)
  then show ?thesis ..
next
  assume "done_by T t e"
  then show ?thesis using assms(2) by (auto simp: done_by_def evolves_rec_def elim!: evolvesD)
qed

section \<open>The invariant is kept\<close>

lemma GetReadyTask_settle:
  assumes "GetReadyTask B now uid c k = (c', g)" and "readyQueue c = t # rest" and "t \<notin> fst ` set Q"
  shows "\<exists>d. GetReadyTask B now uid (settle c Q) k = (d, g) \<and> state d = state c' \<and>
    readyQueue d = readyQueue (settle c' Q) \<and> runningTasks d = runningTasks (settle c' Q) \<and>
    assignedTasks d = assignedTasks (settle c' Q) \<and> taskSpecCache d = taskSpecCache c' \<and>
    (\<forall>u. u \<noteq> t \<longrightarrow> assignedTasks c' u = assignedTasks c u)"
  using assms
  by (auto simp: GetReadyTask_def Let_def set_QueueDepth_def restrict_map_def fun_eq_iff
      split: option.splits prod.splits sum.splits)

context bolt_spec
begin

text \<open>
  A step that changes the store: what is left to show, once the settled state is right, is that
  executions stay held or done, and that new calls are of completed tasks.
\<close>

lemma conc_inv_step:
  assumes inv: "conc_inv B (c, P)" and new: "sys_inv B (settle c' (committed P'))"
    and ev: "evolves (task_table B (state c)) (task_table B (state c'))"
    and kept: "\<And>u x. held (task_table B (state c)) u x \<or> done_by (task_table B (state c)) u x \<Longrightarrow>
      held (task_table B (state c')) u x \<or> done_by (task_table B (state c')) u x"
    and asg: "\<And>u x. assignedTasks c' u = Some x \<Longrightarrow> u \<in> fst ` set (committed P') \<Longrightarrow> assignedTasks c u = Some x"
    and calls: "\<And>x. x \<in> set P' \<Longrightarrow> x \<in> set P \<or>
      (\<exists>t ready r. x = Committed t ready \<and> task_table B (state c') t = Some r \<and> State r = TASK_COMPLETE)"
  shows "conc_inv B (c', P')"
proof (rule conc_invI [OF new])
  note D = conc_invD [OF inv]
  let ?T' = "task_table B (state c')"
  show "held ?T' u e \<or> done_by ?T' u e" if "assignedTasks c' u = Some e" for u e
  proof (cases "u \<in> fst ` set (committed P')")
    case True
    with that show ?thesis using kept D(2) asg by blast
  next
    case False
    then have "assignedTasks (settle c' (committed P')) u = Some e" using that by (simp add: restrict_map_def)
    from assigned_invD [OF sys_invD(3) [OF new] this] show ?thesis by simp
  qed
  show "held ?T' u e \<or> done_by ?T' u e" if "Admitted u e out \<in> set P'" for u e out
    using kept D(3) calls [OF that] by blast
  show "\<exists>r. ?T' u = Some r \<and> State r = TASK_COMPLETE" if "Committed u ready \<in> set P'" for u ready
  proof (cases "Committed u ready \<in> set P")
    case True
    from D(4) [OF this] ev show ?thesis by (auto simp: evolves_rec_def elim!: evolvesD)
  qed (use calls [OF that] in auto)
  show "canonical_workflow_state st" if "Closing w st \<in> set P'" for w st using D(5) calls [OF that] by blast
qed

lemma GetReadyTask_others:
  assumes "sys_inv B c" and "GetReadyTask B now uid c k = (d, Inr given)" and "readyQueue c = t # rest" and "u \<noteq> t"
  shows "task_table B (state d) u = task_table B (state c) u"
proof (cases given)
  case None
  with GetReadyTask_refused [OF assms(1)] assms(2) show ?thesis by metis
next
  case (Some a)
  then have "GetReadyTask B now uid c k = (d, Inr (Some a))" using assms(2) by simp
  then show ?thesis
    by (rule GetReadyTask_given [OF assms(1)]) (use assms(3,4) in auto)
qed

lemma conc_dispatch:
  assumes "conc_inv B (c, P)" and "GetReadyTask B now uid c k = (c', g)"
  shows "conc_inv B (c', P) \<and> evolves (task_table B (state c)) (task_table B (state c'))"
proof (cases "readyQueue c")
  case Nil
  with assms(2) have "c' = c" by (simp add: GetReadyTask_def)
  with assms(1) show ?thesis by simp
next
  case (Cons t rest)
  let ?Q = "committed P" and ?T = "task_table B (state c)" and ?T' = "task_table B (state c')"
  note D = conc_invD [OF assms(1)]
  obtain r where r: "?T t = Some r" "State r = TASK_QUEUED"
    using queue_invD [OF sys_invD(2) [OF D(1)], of t] Cons by auto
  have new: "t \<notin> fst ` set ?Q"
    using D(4) r by (fastforce simp: committed_mem)
  obtain d where d: "GetReadyTask B now uid (settle c ?Q) k = (d, g)" "state d = state c'"
    "readyQueue d = readyQueue (settle c' ?Q)" "runningTasks d = runningTasks (settle c' ?Q)"
    "assignedTasks d = assignedTasks (settle c' ?Q)" "taskSpecCache d = taskSpecCache c'"
    "\<And>u. u \<noteq> t \<Longrightarrow> assignedTasks c' u = assignedTasks c u"
    using GetReadyTask_settle [OF assms(2) Cons new] by blast
  have k: "keeps B (settle c ?Q) d" and "\<exists>given. g = Inr given"
    by (rule GetReadyTask_keeps [OF D(1), of now uid k], use d(1) in simp)+
  then obtain given where g: "g = Inr given" by blast
  have ev: "evolves ?T ?T'" using k d(2) by (simp add: keeps_def)
  have inv': "sys_inv B (settle c' ?Q)"
    by (rule sys_inv_same [OF keepsD [OF k]]) (simp_all add: d)
  have other: "?T' u = ?T u" if "u \<noteq> t" for u
    using GetReadyTask_others [OF D(1), of now uid k d given t "rest @ concat (map snd ?Q)" u] d(1,2) g Cons that by simp
  have fin: "finite (dom ?T)" using table_invD(1) [OF store_invD(3) [OF sys_invD(1) [OF D(1)]]] by simp
  have kept: "held ?T' u e \<or> done_by ?T' u e" if "held ?T u e \<or> done_by ?T u e" for u e
  proof -
    have "u \<noteq> t" using that r by (auto simp: held_def done_by_def)
    then show ?thesis using other by (intro hold_kept [OF fin ev that]) simp
  qed
  have "conc_inv B (c', P)"
  proof (rule conc_inv_step [OF assms(1) inv' ev kept])
    show "assignedTasks c u = Some x" if "assignedTasks c' u = Some x" "u \<in> fst ` set ?Q" for u x
    proof -
      have "u \<noteq> t" using new that(2) by blast
      with d(7) that(1) show ?thesis by simp
    qed
  qed simp_all
  with ev show ?thesis by simp
qed

lemma conc_refuse:
  assumes "conc_inv B (c, P)" and "CompleteTask B clk (state c) t e out = (db, Inl er)"
  shows "conc_inv B (c\<lparr>state := db\<rparr>, remove1 (Admitted t e out) P) \<and> db = state c"
proof -
  have wf: "tasks_wf B (state c)" using store_invD(1) [OF sys_invD(1) [OF conc_invD(1) [OF assms(1)]]] by simp
  have "db = state c"
    by (rule CompleteTask_cases [OF wf, of t clk e out]) (use assms(2) in auto)
  moreover have "conc_inv B (c, remove1 (Admitted t e out) P)"
    by (rule conc_inv_calls [OF assms(1)]) (auto simp: committed_remove dest: notin_set_remove1 set_remove1_subset [THEN subsetD])
  ultimately show ?thesis by simp
qed

lemma sys_inv_perm:
  assumes "sys_inv B c" and "state c' = state c" and "mset (readyQueue c') = mset (readyQueue c)"
    and "runningTasks c' = runningTasks c" and "assignedTasks c' = assignedTasks c" and "taskSpecCache c' = taskSpecCache c"
  shows "sys_inv B c'"
proof -
  have "distinct (readyQueue c') = distinct (readyQueue c)" "set (readyQueue c') = set (readyQueue c)"
    using assms(3) by (metis mset_eq_imp_distinct_iff, metis mset_eq_setD)
  with assms show ?thesis by (simp add: sys_inv_def queue_inv_def)
qed

lemma restrict_insert: "m |` (- insert t A) = (m |` (- A))(t := None)"
  by (auto simp: fun_eq_iff restrict_map_def)

lemma conc_completed:
  assumes inv: "conc_inv B (c, P)" and h: "held (task_table B (state c)) t e"
    and r: "task_table B (state c) t = Some r" "State r \<noteq> TASK_COMPLETE"
    and dec: "abs_decrement clk 1 (DownstreamTaskIDs r)
         ((task_table B (state c))(t \<mapsto> r\<lparr>State := TASK_COMPLETE, Output := out, LastUpdated := clk 0\<rparr>)) []
       = (task_table B db, ready)"
    and db: "tasks_wf B db" "only_tasks_changed (state c) db"
    and P': "committed P' = (t, ready) # committed P" "\<And>x. x \<in> set P' \<Longrightarrow> x = Committed t ready \<or> x \<in> set P"
  shows "conc_inv B (c\<lparr>state := db\<rparr>, P') \<and> evolves (task_table B (state c)) (task_table B db)"
proof -
  let ?s = "settle c (committed P)" and ?T = "task_table B (state c)" and ?T' = "task_table B db"
  note D = conc_invD [OF inv]
  note S = store_invD [OF sys_invD(1) [OF D(1)], simplified]
  have k: "keeps B ?s (CompleteTask_finish t ready (?s\<lparr>state := db\<rparr>))"
    by (rule completed_keeps [OF D(1)]) (use h r dec db in simp_all)
  have settled: "sys_inv B (settle (c\<lparr>state := db\<rparr>) (committed P'))"
    by (rule sys_inv_perm [OF keepsD [OF k]]) (simp_all add: P' restrict_insert)
  have ev: "evolves ?T ?T'" using complete_step(2) [OF S(3) r _ _ _ _ dec] h by (simp add: held_def)
  note step = completed_table [OF S(3) h r dec]
  have kept: "held ?T' u x \<or> done_by ?T' u x" if "held ?T u x \<or> done_by ?T u x" for u x
  proof (cases "u = t")
    case True
    with that r step(1) show ?thesis by (auto simp: held_def done_by_def)
  next
    case False
    then show ?thesis using step(4)
      by (intro hold_kept [OF table_invD(1) [OF S(3)] ev that]) auto
  qed
  have "conc_inv B (c\<lparr>state := db\<rparr>, P')"
  proof (rule conc_inv_step [OF inv settled])
    show "x \<in> set P \<or> (\<exists>t ready r. x = Committed t ready \<and>
        task_table B (state (c\<lparr>state := db\<rparr>)) t = Some r \<and> State r = TASK_COMPLETE)" if "x \<in> set P'" for x
      using P'(2) [OF that] step(1) by auto
  qed (use ev kept in simp_all)
  then show ?thesis using ev by simp
qed

lemma conc_commit:
  assumes "conc_inv B (c, P)" and "Admitted t e out \<in> set P"
    and "CompleteTask B clk (state c) t e out = (db, Inr ready)"
  shows "conc_inv B (c\<lparr>state := db\<rparr>, Committed t ready # remove1 (Admitted t e out) P) \<and>
    evolves (task_table B (state c)) (task_table B db)"
proof -
  let ?Q = "committed P" and ?T = "task_table B (state c)" and ?P' = "Committed t ready # remove1 (Admitted t e out) P"
  note D = conc_invD [OF assms(1)]
  note S = store_invD [OF sys_invD(1) [OF D(1)], simplified]
  have Q': "committed ?P' = (t, ready) # ?Q" by (simp add: committed_remove)
  have rest: "x \<in> set P" if "x \<in> set ?P'" "x \<noteq> Committed t ready" for x
    using that by (auto dest: set_remove1_subset [THEN subsetD])
  show ?thesis
  proof (rule CompleteTask_cases [OF S(1), of t clk e out])
    fix r assume r: "?T t = Some r" "State r = TASK_COMPLETE"
      and c: "CompleteTask B clk (state c) t e out = (state c, Inr [])"
    have eq: "db = state c" "ready = []" using c assms(3) by simp_all
    have "sys_inv B (settle c ((t, ready) # ?Q))"
      by (rule sys_inv_same [OF keepsD [OF unassign_keeps [OF D(1), of t]]]) (use eq in \<open>simp_all add: restrict_insert\<close>)
    then have "conc_inv B (c, ?P')"
      unfolding Q' [symmetric] by (rule conc_invI) (use D(2-5) rest r in blast)+
    then show ?thesis using eq by simp
  next
    fix db' r ready'
    assume r: "?T t = Some r" "ExecutionID r = e" "State r \<noteq> TASK_COMPLETE"
      and c: "CompleteTask B clk (state c) t e out = (db', Inr ready')"
      and dec: "abs_decrement clk 1 (DownstreamTaskIDs r)
         (?T(t \<mapsto> r\<lparr>State := TASK_COMPLETE, Output := out, LastUpdated := clk 0\<rparr>)) [] = (task_table B db', ready')"
      and db: "tasks_wf B db'" "only_tasks_changed (state c) db'"
    have eq: "db' = db" "ready' = ready" using c assms(3) by simp_all
    have "held ?T t e" using D(3) [OF assms(2)] r by (auto simp: done_by_def)
    then show ?thesis
      by (rule conc_completed [OF assms(1) _ r(1,3) dec [unfolded eq] db [unfolded eq] Q']) (use rest in blast)
  qed (use assms(3) in simp_all)
qed

lemma remove1_concat:
  assumes "x \<in> set Q"
  shows "mset (concat (map snd Q)) = mset (snd x) + mset (concat (map snd (remove1 x Q)))"
    and "fst ` set Q = insert (fst x) (fst ` set (remove1 x Q))"
  using assms by (induction Q) auto

lemma conc_finish:
  assumes "conc_inv B (c, P)" and "Committed t ready \<in> set P"
  shows "conc_inv B (CompleteTask_finish t ready c, Finished t # remove1 (Committed t ready) P)"
proof (rule conc_invI)
  note D = conc_invD [OF assms(1)]
  let ?Q = "committed P" and ?Q' = "remove1 (t, ready) (committed P)"
  have mem: "(t, ready) \<in> set ?Q" using assms(2) by (simp add: committed_mem)
  have "mset (concat (map snd ?Q)) = mset ready + mset (concat (map snd ?Q'))"
    "fst ` set ?Q = insert t (fst ` set ?Q')"
    using remove1_concat [OF mem] by simp_all
  then show "sys_inv B (settle (CompleteTask_finish t ready c) (committed (Finished t # remove1 (Committed t ready) P)))"
    by (intro sys_inv_perm [OF D(1)]) (auto simp: committed_remove restrict_map_def fun_eq_iff)
qed (use conc_invD [OF assms(1)] in \<open>auto split: if_splits dest: set_remove1_subset [THEN subsetD]\<close>)

lemma conc_close:
  assumes "conc_inv B (c, P)" and "Closing w st \<in> set P" and "UpdateWorkflowState B clk (state c) w st = (db, r)"
  shows "conc_inv B (c\<lparr>state := db\<rparr>, remove1 (Closing w st) P) \<and> task_table B db = task_table B (state c)"
proof -
  note D = conc_invD [OF assms(1)]
  note S = store_invD [OF sys_invD(1) [OF D(1)], simplified]
  have less: "conc_inv B (c, remove1 (Closing w st) P)"
    by (rule conc_inv_calls [OF assms(1)]) (auto simp: committed_remove dest: set_remove1_subset [THEN subsetD])
  show ?thesis
  proof (rule UpdateWorkflowState_cases [OF S(2) D(5) [OF assms(2)], of clk w])
    fix db' assume *: "UpdateWorkflowState B clk (state c) w st = (db', Inr ())" "workflows_wf B db'"
      "only_workflow_state_changed (state c) db'"
    then have db: "db' = db" using assms(3) by simp
    note W = sys_inv_workflow_state [OF conc_invD(1) [OF less], of "settle (c\<lparr>state := db\<rparr>) (committed (remove1 (Closing w st) P))"]
    have "sys_inv B (settle (c\<lparr>state := db\<rparr>) (committed (remove1 (Closing w st) P)))"
      and T: "task_table B db = task_table B (state c)"
      using W * db by simp_all
    then have "conc_inv B (c\<lparr>state := db\<rparr>, remove1 (Closing w st) P)"
      using conc_invD [OF less] by (intro conc_invI) auto
    with T show ?thesis by simp
  qed (use assms(3) less in simp_all)
qed

lemma conc_beat:
  assumes "conc_inv B (c, P)"
  shows "conc_inv B (UpdateWorkerHeartbeat c k ts ids, P) \<and> state (UpdateWorkerHeartbeat c k ts ids) = state c"
proof -
  let ?c = "UpdateWorkerHeartbeat c k ts ids"
  have f: "state ?c = state c" "readyQueue ?c = readyQueue c" "runningTasks ?c = runningTasks c"
    "assignedTasks ?c = assignedTasks c" "taskSpecCache ?c = taskSpecCache c"
    by (simp_all add: UpdateWorkerHeartbeat_def split: prod.splits)
  note D = conc_invD [OF assms]
  have "sys_inv B (settle ?c (committed P))" by (rule sys_inv_same [OF D(1)]) (simp_all add: f)
  then have "conc_inv B (?c, P)" using D by (intro conc_invI) (simp_all add: f)
  with f(1) show ?thesis by simp
qed

lemma conc_admit:
  assumes "conc_inv B (c, P)" and "CompleteTask_admit B c t e = Proceed"
  shows "conc_inv B (c, Admitted t e out # P)"
proof -
  have a: "assignedTasks c t = Some e"
    using assms(2) by (auto simp: CompleteTask_admit_def split: option.splits sum.splits if_splits)
  note D = conc_invD [OF assms(1)]
  show ?thesis
  proof (rule conc_invI)
    show "held (task_table B (state c)) u x \<or> done_by (task_table B (state c)) u x"
      if "Admitted u x o' \<in> set (Admitted t e out # P)" for u x o'
      using that D(2) [OF a] D(3) by auto
  qed (use D in auto)
qed

lemma conc_quiet:
  assumes "conc_inv B (c, P)" and "quiet_call x" and "quiet_call y"
  shows "conc_inv B (c, remove1 x P)" and "conc_inv B (c, y # remove1 x P)"
  by (rule conc_inv_calls [OF assms(1)];
      use assms(2,3) in \<open>auto simp: committed_remove quiet_call_def split: call.splits dest: set_remove1_subset [THEN subsetD]\<close>)+

lemma conc_step_keeps:
  assumes "conc_step B (c, P) (c', P')" and "conc_inv B (c, P)"
  shows "conc_inv B (c', P') \<and> evolves (task_table B (state c)) (task_table B (state c'))"
  using assms(1)
proof (cases rule: conc_step.cases)
  case dispatch then show ?thesis using conc_dispatch [OF assms(2)] by blast
next
  case beat then show ?thesis using conc_beat [OF assms(2)] by simp
next
  case admit then show ?thesis using conc_admit [OF assms(2)] by simp
next
  case refuse then show ?thesis using conc_refuse [OF assms(2) refuse(4)] by auto
next
  case commit then show ?thesis using conc_commit [OF assms(2)] by simp
next
  case finish then show ?thesis using conc_finish [OF assms(2)] by simp
next
  case (leave t)
  then show ?thesis using conc_quiet(1) [OF assms(2), of "Finished t" "Finished t"] by (simp add: quiet_call_def)
next
  case (check t w)
  then show ?thesis using conc_quiet(2) [OF assms(2), of "Finished t" "AllDone w"] by (simp add: quiet_call_def)
next
  case (count w sts)
  moreover have "canonical_workflow_state (final_state sts)" by (simp add: final_state_def)
  ultimately show ?thesis using conc_quiet(2) [OF assms(2), of "AllDone w" "Closing w (final_state sts)"]
    by (simp add: quiet_call_def)
next
  case close then show ?thesis using conc_close [OF assms(2)] by simp
qed

lemma conc_steps_keep:
  assumes "(conc_step B)\<^sup>*\<^sup>* s s'" and "conc_inv B s"
  shows "conc_inv B s' \<and> evolves (task_table B (state (fst s))) (task_table B (state (fst s')))"
  using assms
proof (induction rule: rtranclp_induct)
  case (step y z)
  from step.hyps(2) step.IH [OF step.prems] show ?case
    using conc_step_keeps [of "fst y" "snd y" "fst z" "snd z"] evolves_trans by fastforce
qed simp

lemma reachable_conc_inv:
  assumes "reachable B c"
  shows "conc_inv B (c, [])"
proof -
  have inv: "sys_inv B c" by (rule reachable_inv [OF assms])
  then show ?thesis
    using assigned_invD [OF sys_invD(3) [OF inv]] by (intro conc_invI) auto
qed

lemma conc_reached:
  assumes "reachable B c" and "(conc_step B)\<^sup>*\<^sup>* (c, []) (c', P)"
  shows "conc_inv B (c', P)" and "evolves (task_table B (state c)) (task_table B (state c'))"
  using conc_steps_keep [OF assms(2) reachable_conc_inv [OF assms(1)]] by simp_all

lemma conc_dispatched:
  assumes "conc_inv B (c, P)" and "GetReadyTask B now uid c k = (c', Inr (Some a))"
  obtains s r where "taskSpecCache c (ta_TaskId a) = Some s" "TaskId s = ta_TaskId a"
    "task_table B (state c') (ta_TaskId a) = Some r" "State r = TASK_RUNNING" "ExecutionID r = ta_ExecutionId a"
    "\<forall>d\<in>set (Dependencies s). \<exists>rd. task_table B (state c') d = Some rd \<and> State rd = TASK_COMPLETE"
proof -
  note D = conc_invD [OF assms(1)]
  obtain t rest where q: "readyQueue c = t # rest"
    using assms(2) by (cases "readyQueue c") (simp_all add: GetReadyTask_def)
  obtain r where "task_table B (state c) t = Some r" "State r = TASK_QUEUED"
    using queue_invD [OF sys_invD(2) [OF D(1)], of t] q by auto
  then have "t \<notin> fst ` set (committed P)" using D(4) by (fastforce simp: committed_mem)
  from GetReadyTask_settle [OF assms(2) q this] obtain d
    where d: "GetReadyTask B now uid (settle c (committed P)) k = (d, Inr (Some a))" "state d = state c'" by blast
  show thesis by (rule dispatched_dependencies_complete [OF D(1) d(1)]) (use d(2) that in auto)
qed

end

section \<open>Concurrent reports are safe\<close>

text \<open>
  A sample interleaving: the result of task \<^verbatim>\<open>a\<close> is reported twice at the same time; both reports
  are admitted before the first one commits, and then a dispatch comes between its last section
  and the commit of the second.
\<close>

definition sample_report :: call where
  "sample_report = Admitted ''a'' ''e1'' ''ok''"

definition mid_run :: "lbucket Coordinator" where
  "mid_run = run2\<lparr>state := state run3\<rparr>"

lemma mid_run_steps:
  "CompleteTask_admit list_bolt run2 ''a'' ''e1'' = Proceed"
  "CompleteTask list_bolt (\<lambda>_. 7) (state run2) ''a'' ''e1'' ''ok'' = (state run3, Inr [''b''])"
  "CompleteTask_finish ''a'' [''b''] mid_run = run3"
  by (simp_all add: CompleteTask_admit_def run_simps mid_run_def run3_def handler_defs)

lemma sample_interleaving:
  "(conc_step list_bolt)\<^sup>*\<^sup>* (run2, []) (mid_run, [Committed ''a'' [''b''], sample_report])"
  "(conc_step list_bolt)\<^sup>*\<^sup>* (run2, []) (run3, [Finished ''a'', sample_report])"
proof -
  have "conc_step list_bolt (run2, []) (run2, [sample_report])"
    "conc_step list_bolt (run2, [sample_report]) (run2, [sample_report, sample_report])"
    unfolding sample_report_def by (rule conc_step.admit [OF mid_run_steps(1)])+
  moreover have "conc_step list_bolt (run2, [sample_report, sample_report]) (mid_run, [Committed ''a'' [''b''], sample_report])"
    using conc_step.commit [OF _ mid_run_steps(2), of "[sample_report, sample_report]"]
    by (simp add: sample_report_def mid_run_def)
  ultimately show mid: "(conc_step list_bolt)\<^sup>*\<^sup>* (run2, []) (mid_run, [Committed ''a'' [''b''], sample_report])"
    by (meson converse_rtranclp_into_rtranclp r_into_rtranclp)
  have "conc_step list_bolt (mid_run, [Committed ''a'' [''b''], sample_report]) (run3, [Finished ''a'', sample_report])"
    using conc_step.finish [of "''a''" "[''b'']" "[Committed ''a'' [''b''], sample_report]" list_bolt mid_run] mid_run_steps(3)
    by simp
  with mid show "(conc_step list_bolt)\<^sup>*\<^sup>* (run2, []) (run3, [Finished ''a'', sample_report])"
    by (rule rtranclp.rtrancl_into_rtrancl)
qed

text \<open>
  C6. Concurrency: while any number of completion reports are between their sections, in any
  interleaving with dispatches and heartbeats, a task that \<^verbatim>\<open>GetReadyTask\<close> hands out still has
  every dependency COMPLETE in the store, and no COMPLETE record has changed since the
  reports began.
\<close>

theorem concurrent_completions_are_safe:
  assumes "bolt_spec B" and "reachable B c" and "(conc_step B)\<^sup>*\<^sup>* (c, []) (c', P)"
    and "GetReadyTask B now uid c' k = (c'', Inr (Some a))"
  shows "(\<exists>s r. taskSpecCache c' (ta_TaskId a) = Some s \<and> TaskId s = ta_TaskId a \<and>
      task_table B (state c'') (ta_TaskId a) = Some r \<and> State r = TASK_RUNNING \<and> ExecutionID r = ta_ExecutionId a \<and>
      (\<forall>d\<in>set (Dependencies s). \<exists>rd. task_table B (state c'') d = Some rd \<and> State rd = TASK_COMPLETE)) \<and>
    (\<forall>t r. task_table B (state c) t = Some r \<and> State r = TASK_COMPLETE \<longrightarrow> task_table B (state c'') t = Some r)"
    (is "?given \<and> ?kept")
proof
  note I = bolt_spec.conc_reached [OF assms(1-3)]
  show ?given
    by (rule bolt_spec.conc_dispatched [OF assms(1) I(1) assms(4)]) blast
  have "evolves (task_table B (state c')) (task_table B (state c''))"
    using bolt_spec.conc_dispatch [OF assms(1) I(1) assms(4)] by simp
  with I(2) have "evolves (task_table B (state c)) (task_table B (state c''))" by (rule evolves_trans)
  then show ?kept by (auto simp: evolves_rec_def elim!: evolvesD)
qed

theorem concurrent_completions_are_safe_witness:
  "taskSpecCache run3 ''b'' = Some (sample_task ''b'' [''a''] 2) \<and>
   (\<exists>rd. task_table list_bolt (state run4) ''a'' = Some rd \<and> State rd = TASK_COMPLETE)"
  using concurrent_completions_are_safe
    [OF lb.bolt_spec_axioms reachable_runs(2) sample_interleaving(2) coord_results(2)]
  by simp

text \<open>
  C7. Concurrency and memory: at every point of such an interleaving the ready queue together
  with the tasks that committed reports are about to enqueue has no duplicates and holds
  only tasks QUEUED in the store, so no task is released twice; an assignment in memory names
  the execution recorded in the store, and unless that task is still RUNNING or SKIPPED
  a report has committed it and is about to remove the assignment.
\<close>

theorem concurrent_memory_matches_store:
  assumes "bolt_spec B" and "reachable B c" and "(conc_step B)\<^sup>*\<^sup>* (c, []) (c', P)"
  shows "distinct (readyQueue c' @ concat (map snd (committed P))) \<and>
    (\<forall>t\<in>set (readyQueue c' @ concat (map snd (committed P))).
       \<exists>r. task_table B (state c') t = Some r \<and> State r = TASK_QUEUED) \<and>
    (\<forall>t e. assignedTasks c' t = Some e \<longrightarrow>
       (\<exists>r. task_table B (state c') t = Some r \<and> ExecutionID r = e \<and>
          (if t \<in> fst ` set (committed P) then State r = TASK_COMPLETE
           else State r = TASK_RUNNING \<or> State r = TASK_SKIPPED)))"
proof -
  note D = conc_invD [OF bolt_spec.conc_reached(1) [OF assms]]
  note I = sys_invD [OF D(1)]
  have "\<exists>r. task_table B (state c') t = Some r \<and> ExecutionID r = e \<and>
          (if t \<in> fst ` set (committed P) then State r = TASK_COMPLETE
           else State r = TASK_RUNNING \<or> State r = TASK_SKIPPED)"
    if a: "assignedTasks c' t = Some e" for t e
  proof (cases "t \<in> fst ` set (committed P)")
    case True
    then obtain r where "task_table B (state c') t = Some r" "State r = TASK_COMPLETE"
      using D(4) by (fastforce simp: committed_mem)
    with D(2) [OF a] True show ?thesis by (auto simp: held_def done_by_def)
  next
    case False
    with a assigned_invD [OF I(3), of t e] show ?thesis by (auto simp: held_def)
  qed
  with I(2) show ?thesis unfolding queue_inv_def settle_fields by blast
qed

theorem concurrent_memory_matches_store_witness:
  "assignedTasks mid_run ''a'' = Some ''e1'' \<and>
   (\<exists>r. task_table list_bolt (state mid_run) ''a'' = Some r \<and> ExecutionID r = ''e1'' \<and> State r = TASK_COMPLETE) \<and>
   (\<exists>r. task_table list_bolt (state mid_run) ''b'' = Some r \<and> State r = TASK_QUEUED)"
proof -
  have "assignedTasks mid_run ''a'' = Some ''e1''" by (simp add: mid_run_def)
  moreover have "\<exists>r. task_table list_bolt (state mid_run) ''a'' = Some r \<and> ExecutionID r = ''e1'' \<and> State r = TASK_COMPLETE"
    using concurrent_memory_matches_store [OF lb.bolt_spec_axioms reachable_runs(2) sample_interleaving(1),
        THEN conjunct2, THEN conjunct2, rule_format, OF calculation] by simp
  moreover have "\<exists>r. task_table list_bolt (state mid_run) ''b'' = Some r \<and> State r = TASK_QUEUED"
    using concurrent_memory_matches_store [OF lb.bolt_spec_axioms reachable_runs(2) sample_interleaving(1)]
    by simp
  ultimately show ?thesis by blast
qed

end
