(* ===== verification/Background.thy ===== *)
theory Background
  imports Coord_Failure
begin

text \<open>
  The two goroutines that \<^verbatim>\<open>Coordinator.Start\<close> launches: the loop of \<^verbatim>\<open>HeartbeatMonitor.Run\<close> and
  \<^verbatim>\<open>runWatchdog\<close>. Each is a list of the events its \<^verbatim>\<open>select\<close> sees; \<open>env i\<close> is what the handlers do
  to the coordinator before the \<open>i\<close>-th event.
\<close>

section \<open>The loops\<close>

datatype monitor_event =
    ScanTick i64 "string list" "string \<Rightarrow> dead_call"
  | ScanDone err

fun monitor_loop ::
    "'b bolt \<Rightarrow> (nat \<Rightarrow> 'b Coordinator \<Rightarrow> 'b Coordinator) \<Rightarrow> nat \<Rightarrow> monitor_event list
     \<Rightarrow> 'b Coordinator \<Rightarrow> 'b Coordinator \<times> (err + unit) option" where
  "monitor_loop B env i [] c = (c, None)"
| "monitor_loop B env i (ScanDone e # evs) c = (env i c, Some (Inl e))"
| "monitor_loop B env i (ScanTick nowMs ord calls # evs) c =
     (case Run_tick B nowMs ord calls (env i c) of
        (c, r) \<Rightarrow> if panics r then (c, Some r) else monitor_loop B env (Suc i) evs c)"

datatype watchdog_event = WatchTick i64 | WatchDone

text \<open>The warnings of each tick, and whether the loop has returned or panicked.\<close>

fun runWatchdog ::
    "'b bolt \<Rightarrow> (nat \<Rightarrow> 'b Coordinator \<Rightarrow> 'b Coordinator) \<Rightarrow> nat \<Rightarrow> watchdog_event list
     \<Rightarrow> 'b Coordinator \<Rightarrow> (string \<times> i64) list list \<times> (err + unit) option" where
  "runWatchdog B env i [] c = ([], None)"
| "runWatchdog B env i (WatchDone # evs) c = ([], Some (Inr ()))"
| "runWatchdog B env i (WatchTick nowMs # evs) c =
     (let c = env i c in
      case checkHungWorkflows B nowMs c of
        Inl e \<Rightarrow> ([], Some (Inl e))
      | Inr warnings \<Rightarrow>
          (case runWatchdog B env (Suc i) evs c of (later, r) \<Rightarrow> (warnings # later, r)))"

section \<open>What they do\<close>

text \<open>A workflow that a scan at \<open>now\<close> must report, with the reported age.\<close>

definition hung :: "(string \<rightharpoonup> WorkflowStateRecord) \<Rightarrow> i64 \<Rightarrow> string \<times> i64 \<Rightarrow> bool" where
  "hung W now p \<longleftrightarrow>
     (\<exists>rec. W (fst p) = Some rec \<and> wsr_State rec = WORKFLOW_RUNNING \<and>
        sint (now - SubmittedAtMs rec) > 600000 \<and> snd p = word_of_int (sint (now - SubmittedAtMs rec) div 1000))"

context bolt_spec
begin

lemma monitor_loop_reachable:
  assumes env: "\<And>i d. reachable B d \<Longrightarrow> reachable B (env i d)" and "reachable B c"
    and orders: "\<And>now ord calls. ScanTick now ord calls \<in> set evs \<Longrightarrow> dead_orders calls"
    and "monitor_loop B env i evs c = (c', r)"
  shows "reachable B c'"
  using assms(2-4)
proof (induction evs arbitrary: i c)
  case (Cons ev evs)
  show ?case
  proof (cases ev)
    case (ScanTick now ord calls)
    obtain d s where d: "Run_tick B now ord calls (env i c) = (d, s)" by fastforce
    have "dead_orders calls" using Cons.prems(2) ScanTick by auto
    then have "reachable B d"
      using d by (intro reachable_next [OF env [OF Cons.prems(1)] sys_step.scan_workers])
    moreover have "\<And>now ord calls. ScanTick now ord calls \<in> set evs \<Longrightarrow> dead_orders calls"
      using Cons.prems(2) by auto
    ultimately show ?thesis
      using Cons.IH [of d "Suc i"] Cons.prems(3) ScanTick d by (cases "panics s") simp_all
  qed (use Cons.prems env in auto)
qed simp

lemma checkHungWorkflows_exact:
  assumes "reachable B c"
  shows "\<exists>ws. checkHungWorkflows B now c = Inr ws \<and> (\<forall>p. p \<in> set ws \<longleftrightarrow> hung (wf_table B (state c)) now p)"
proof -
  note wf = reachable_store(2) [OF assms]
  obtain rs where rs: "GetAllWorkflowStates B (state c) = (rs, None)" "set rs = ran (wf_table B (state c))"
    by (rule GetAllWorkflowStates_table [OF wf])
  have mem: "rec \<in> set rs \<longleftrightarrow> wf_table B (state c) (wsr_WorkflowID rec) = Some rec" for rec
    using rs(2) wf_table_key [OF wf] by (auto simp: ran_def)
  have "sint watchdogHungThresholdMs = 600000" by (simp add: watchdogHungThresholdMs_def)
  then show ?thesis
    unfolding checkHungWorkflows_def rs(1) hung_def
    by (auto simp: set_map_filter_conv mem Let_def intro: wf_table_key [OF wf] split: if_splits)
       (metis mem wf_table_key [OF wf])+
qed

lemma runWatchdog_reports:
  assumes env: "\<And>i d. reachable B d \<Longrightarrow> reachable B (env i d)" and "reachable B c"
  shows "\<exists>out. runWatchdog B env i (map WatchTick nows) c = (out, None) \<and> length out = length nows \<and>
    (\<forall>n<length nows. \<forall>p. p \<in> set (out ! n) \<longleftrightarrow>
       hung (wf_table B (state (fold env [i..<Suc (i + n)] c))) (nows ! n) p)"
  using assms(2)
proof (induction nows arbitrary: i c)
  case (Cons now nows)
  have r: "reachable B (env i c)" using env Cons.prems by blast
  obtain ws where ws: "checkHungWorkflows B now (env i c) = Inr ws"
    "\<forall>p. p \<in> set ws \<longleftrightarrow> hung (wf_table B (state (env i c))) now p"
    using checkHungWorkflows_exact [OF r] by blast
  obtain out where out: "runWatchdog B env (Suc i) (map WatchTick nows) (env i c) = (out, None)"
    "length out = length nows"
    "\<forall>n<length nows. \<forall>p. p \<in> set (out ! n) \<longleftrightarrow>
       hung (wf_table B (state (fold env [Suc i..<Suc (Suc i + n)] (env i c)))) (nows ! n) p"
    using Cons.IH [OF r, of "Suc i"] by blast
  have "\<forall>p. p \<in> set ((ws # out) ! n) \<longleftrightarrow>
      hung (wf_table B (state (fold env [i..<Suc (i + n)] c))) ((now # nows) ! n) p"
    if "n < length (now # nows)" for n
    using that ws(2) out(3) by (cases n) (simp_all add: upt_conv_Cons del: upt_Suc)
  with ws(1) out(1,2) show ?case by (intro exI [of _ "ws # out"]) (simp add: Let_def)
qed simp

end

text \<open>
  C40. No workflow hangs unnoticed: at every tick the watchdog, which never fails while the
  coordinator runs, warns about exactly the workflows that are RUNNING in the store at that
  moment and were submitted more than ten minutes before, with their age in seconds.
\<close>

theorem watchdog_reports_exactly_the_hung:
  assumes "bolt_spec B" and "reachable B c" and "\<And>i d. reachable B d \<Longrightarrow> reachable B (env i d)"
  shows "\<exists>out. runWatchdog B env 0 (map WatchTick nows) c = (out, None) \<and> length out = length nows \<and>
    (\<forall>n<length nows. \<forall>p. p \<in> set (out ! n) \<longleftrightarrow>
       hung (wf_table B (state (fold env [0..<Suc n] c))) (nows ! n) p)"
  using bolt_spec.runWatchdog_reports [OF assms(1,3,2), where i = 0] by (simp del: upt_Suc)

theorem watchdog_reports_exactly_the_hung_witness:
  "\<exists>out. runWatchdog list_bolt (\<lambda>_ d. d) 0 (map WatchTick [8, 700007]) run1 = (out, None) \<and>
     set (out ! 0) = {} \<and> (''w'', 700) \<in> set (out ! 1)"
proof -
  have fold: "fold (\<lambda>_ d. d) xs run1 = run1" for xs :: "nat list" by (induction xs) simp_all
  from watchdog_reports_exactly_the_hung [OF lb.bolt_spec_axioms reachable_runs(1), of "\<lambda>_ d. d" "[8, 700007]"]
  obtain out where out: "runWatchdog list_bolt (\<lambda>_ d. d) 0 (map WatchTick [8, 700007]) run1 = (out, None)"
    "\<forall>n<2. \<forall>p. p \<in> set (out ! n) \<longleftrightarrow> hung (wf_table list_bolt (state run1)) ([8, 700007] ! n) p"
    by (auto simp: fold)
  have "wf_table list_bolt (state run1) x = None" if "x \<noteq> ''w''" for x
    using that by (simp add: wf_table_def GetWorkflowState_def sample_db_def list_bolt_def)
  then have "\<not> hung (wf_table list_bolt (state run1)) 8 p" for p
    by (cases "fst p = ''w''") (auto simp: hung_def)
  moreover have "hung (wf_table list_bolt (state run1)) 700007 (''w'', 700)" by (simp add: hung_def)
  ultimately have no: "p \<notin> set (out ! 0)" and yes: "(''w'', 700) \<in> set (out ! 1)" for p
    using out(2) [rule_format, of 0 p] out(2) [rule_format, of 1 "(''w'', 700)"] by simp_all
  have empty: "set (out ! 0) = {}" by (rule equals0I) (rule notE [OF no])
  show ?thesis by (rule exI [of _ out]) (rule conjI [OF out(1) conjI [OF empty yes]])
qed

end
