(* ===== verification/Proto_Messages.thy ===== *)
theory Proto_Messages
  imports Proto_Types
begin

text \<open>
  The messages of the worker stream and of the unary calls, from
  \<^verbatim>\<open>internal/proto/scheduler/scheduler.pb.go\<close>; the texts of enum values and of errors, as
  \<^verbatim>\<open>String()\<close> and \<^verbatim>\<open>Error()\<close> give them; and decimal numerals. A \<^verbatim>\<open>oneof\<close> field is a datatype
  whose last constructor stands for an unset field.
\<close>

section \<open>Messages\<close>

record TaskResult =
  tr_TaskId :: string
  tr_ExecutionId :: string
  tr_Success :: bool
  tr_Output :: string
  tr_Error :: string
  tr_DurationMs :: i64

record HeartbeatMsg =
  TimestampUnixMs :: i64
  RunningTaskIds :: "string list"

datatype WorkerPayload =
    WM_TaskRequest i32
  | WM_Heartbeat HeartbeatMsg
  | WM_TaskResult TaskResult
  | WM_None

record WorkerMessage =
  wm_WorkerId :: string
  wm_Payload :: WorkerPayload

datatype CoordinatorMessage =
    CM_TaskAssignment TaskAssignment
  | CM_NoTask i32
  | CM_Ping
  | CM_None

record SubmitWorkflowResponse =
  swr_WorkflowId :: string
  swr_Success :: bool
  swr_Error :: string

record CancelWorkflowResponse =
  cwr_Success :: bool
  cwr_Error :: string

section \<open>Texts\<close>

fun decimal_nat :: "nat \<Rightarrow> string" where
  "decimal_nat n =
     (if n < 10 then [char_of (48 + n)] else decimal_nat (n div 10) @ [char_of (48 + n mod 10)])"

declare decimal_nat.simps [simp del]

definition decimal :: "int \<Rightarrow> string" where
  "decimal n = (if n < 0 then ''-'' @ decimal_nat (nat (- n)) else decimal_nat (nat n))"

text \<open>A number without a name prints as the number.\<close>

fun FailurePolicy_String :: "FailurePolicy \<Rightarrow> string" where
  "FailurePolicy_String FAIL_FAST = ''FAIL_FAST''"
| "FailurePolicy_String SKIP_DOWNSTREAM = ''SKIP_DOWNSTREAM''"
| "FailurePolicy_String CONTINUE_INDEPENDENT = ''CONTINUE_INDEPENDENT''"
| "FailurePolicy_String (POLICY_UNRECOGNIZED n) = decimal (sint n)"

fun WorkflowState_String :: "WorkflowState \<Rightarrow> string" where
  "WorkflowState_String WORKFLOW_RUNNING = ''WORKFLOW_RUNNING''"
| "WorkflowState_String WORKFLOW_COMPLETE = ''WORKFLOW_COMPLETE''"
| "WorkflowState_String WORKFLOW_FAILED = ''WORKFLOW_FAILED''"
| "WorkflowState_String WORKFLOW_CANCELLED = ''WORKFLOW_CANCELLED''"
| "WorkflowState_String (WORKFLOW_UNRECOGNIZED n) = decimal (sint n)"

fun TaskState_String :: "TaskState \<Rightarrow> string" where
  "TaskState_String TASK_PENDING = ''TASK_PENDING''"
| "TaskState_String TASK_QUEUED = ''TASK_QUEUED''"
| "TaskState_String TASK_RUNNING = ''TASK_RUNNING''"
| "TaskState_String TASK_COMPLETE = ''TASK_COMPLETE''"
| "TaskState_String TASK_FAILED = ''TASK_FAILED''"
| "TaskState_String TASK_SKIPPED = ''TASK_SKIPPED''"
| "TaskState_String TASK_UNKNOWN = ''TASK_UNKNOWN''"
| "TaskState_String (TASK_UNRECOGNIZED n) = decimal (sint n)"

text \<open>
  The text of an error value. A panic or a loop that does not end never reaches a caller of
  \<^verbatim>\<open>Error()\<close>; the text given for them is immaterial.
\<close>

fun Error_String :: "err \<Rightarrow> string" where
  "Error_String ErrNotFound = ''not found''"
| "Error_String ErrStaleExecution = ''stale execution_id''"
| "Error_String ErrInvalidDAG = ''invalid DAG''"
| "Error_String ErrTaskNotFound = ''task not found''"
| "Error_String ErrWorkflowNotFound = ''workflow not found''"
| "Error_String (ErrCyclicDAG t) = ''DAG contains a cycle: found cycle involving task '' @ t"
| "Error_String (ErrMissingDependency t d) =
     ''dependency references non-existent task: task '' @ t @ '' depends on non-existent task '' @ d"
| "Error_String ErrDuplicateTaskID = ''duplicate task ID in workflow''"
| "Error_String (InvalidDAG e) = ''invalid DAG: '' @ Error_String e"
| "Error_String EOF = ''EOF''"
| "Error_String ErrUnexpectedEOF = ''unexpected EOF''"
| "Error_String (LibErr m) = m"
| "Error_String GoPanic = []"
| "Error_String Diverges = []"

end
