(* ===== verification/Dashboard.thy ===== *)
theory Dashboard
  imports Task_Store Meta_Store Proto_Messages "HOL-Library.Multiset"
begin

text \<open>
  The REST side of the dashboard, \<^verbatim>\<open>cmd/coordinator/dashboard.go\<close>: the three handlers that turn
  the store into the records they encode as JSON, and their helpers. \<^verbatim>\<open>sort.Slice\<close>, which is
  not stable, is a parameter: any function that returns a sorted permutation
  (\<open>sorts_by\<close>). The text \<open>\<dots>\<close> of a truncated output is its UTF-8 bytes.
\<close>

section \<open>Responses\<close>

text \<open>A handler answers with JSON or an error status; a panic ends its goroutine without an answer.\<close>

datatype 'a response = JsonOK 'a | HttpError string nat | Panicked

record workflowSummary =
  sum_ID :: string
  sum_State :: string
  sum_SubmittedAtMs :: i64
  sum_CompletedAtMs :: i64
  sum_DurationMs :: i64
  sum_TaskCount :: nat
  sum_DoneCount :: nat
  sum_FailedCount :: nat
  sum_FailurePolicy :: string

record taskDetail =
  td_ID :: string
  td_State :: string
  td_Command :: string
  td_Dependencies :: "string list"
  td_AttemptCount :: i32
  td_MaxRetries :: i32
  td_Error :: string
  td_Output :: string

record workflowDetail =
  det_Summary :: workflowSummary
  det_Tasks :: "taskDetail list"

record workerSummary =
  wks_ID :: string
  wks_LastHeartbeatMs :: i64
  wks_SecondsSince :: i64
  wks_RunningTaskIDs :: "string list"
  wks_Status :: string

definition sorts_by :: "('a \<Rightarrow> 'a \<Rightarrow> bool) \<Rightarrow> ('a list \<Rightarrow> 'a list) \<Rightarrow> bool" where
  "sorts_by before srt \<longleftrightarrow> (\<forall>xs. mset (srt xs) = mset xs \<and> sorted_wrt (\<lambda>x y. \<not> before y x) (srt xs))"

section \<open>Helpers\<close>

fun countTaskDoneAndFailed :: "TaskStatus list \<Rightarrow> nat \<times> nat" where
  "countTaskDoneAndFailed [] = (0, 0)"
| "countTaskDoneAndFailed (t # ts) =
     (case countTaskDoneAndFailed ts of (done_n, failed_n) \<Rightarrow>
        (case ts_State t of
           TASK_COMPLETE \<Rightarrow> (Suc done_n, failed_n)
         | TASK_SKIPPED \<Rightarrow> (Suc done_n, failed_n)
         | TASK_FAILED \<Rightarrow> (done_n, Suc failed_n)
         | _ \<Rightarrow> (done_n, failed_n)))"

definition computeDuration :: "WorkflowStateRecord \<Rightarrow> i64 \<Rightarrow> i64" where
  "computeDuration rec nowMs =
     (if sint (CompletedAtMs rec) > 0 then CompletedAtMs rec - SubmittedAtMs rec
      else if sint (SubmittedAtMs rec) > 0 then nowMs - SubmittedAtMs rec
      else 0)"

definition trimOutput :: "string \<Rightarrow> nat \<Rightarrow> string" where
  "trimOutput s n = (if length s \<le> n then s else take n s @ [CHR 0xE2, CHR 0x80, CHR 0xA6])"

section \<open>Workflows\<close>

definition summarize :: "i64 \<Rightarrow> string \<Rightarrow> WorkflowStateRecord \<Rightarrow> TaskStatus list \<Rightarrow> workflowSummary" where
  "summarize now policy rec tasks =
     (case countTaskDoneAndFailed tasks of (done_n, failed_n) \<Rightarrow>
        \<lparr>sum_ID = wsr_WorkflowID rec, sum_State = WorkflowState_String (wsr_State rec),
         sum_SubmittedAtMs = SubmittedAtMs rec, sum_CompletedAtMs = CompletedAtMs rec,
         sum_DurationMs = computeDuration rec now, sum_TaskCount = length tasks,
         sum_DoneCount = done_n, sum_FailedCount = failed_n, sum_FailurePolicy = policy\<rparr>)"

text \<open>An error of the task scan is dropped, with the statuses read so far kept.\<close>

fun summaries ::
    "'b bolt \<Rightarrow> 'b DB \<Rightarrow> i64 \<Rightarrow> WorkflowStateRecord list \<Rightarrow> workflowSummary list option" where
  "summaries B db now [] = Some []"
| "summaries B db now (rec # recs) =
     (case GetTaskStatusesForWorkflow B db (wsr_WorkflowID rec) of (tasks, e) \<Rightarrow>
        if (case e of None \<Rightarrow> False | Some e \<Rightarrow> fatal e) then None
        else map_option ((#) (summarize now [] rec tasks)) (summaries B db now recs))"

definition newer_workflow :: "workflowSummary \<Rightarrow> workflowSummary \<Rightarrow> bool" where
  "newer_workflow x y \<longleftrightarrow> sint (sum_SubmittedAtMs x) > sint (sum_SubmittedAtMs y)"

definition handleAPIWorkflowList ::
    "'b bolt \<Rightarrow> (workflowSummary list \<Rightarrow> workflowSummary list) \<Rightarrow> i64 \<Rightarrow> 'b DB
     \<Rightarrow> workflowSummary list response" where
  "handleAPIWorkflowList B srt now db =
     (case GetAllWorkflowStates B db of
        (_, Some e) \<Rightarrow> if fatal e then Panicked else HttpError (Error_String e) 500
      | (states, None) \<Rightarrow>
          (case summaries B db now states of
             None \<Rightarrow> Panicked
           | Some result \<Rightarrow> JsonOK (srt result)))"

definition statusByID :: "TaskStatus list \<Rightarrow> string \<rightharpoonup> TaskStatus" where
  "statusByID tasks = fold (\<lambda>ts m. m(ts_TaskId ts \<mapsto> ts)) tasks Map.empty"

definition spec_detail :: "(string \<rightharpoonup> TaskStatus) \<Rightarrow> TaskSpec \<Rightarrow> taskDetail" where
  "spec_detail byID t =
     (let td = \<lparr>td_ID = TaskId t, td_State = [], td_Command = Command t, td_Dependencies = Dependencies t,
                td_AttemptCount = 0, td_MaxRetries = MaxRetries t, td_Error = [], td_Output = []\<rparr> in
      case byID (TaskId t) of
        None \<Rightarrow> td
      | Some st \<Rightarrow>
          td\<lparr>td_State := TaskState_String (ts_State st), td_AttemptCount := ts_AttemptCount st,
             td_Error := ts_Error st, td_Output := trimOutput (ts_Output st) 512\<rparr>)"

definition status_detail :: "TaskStatus \<Rightarrow> taskDetail" where
  "status_detail ts =
     \<lparr>td_ID = ts_TaskId ts, td_State = TaskState_String (ts_State ts), td_Command = [], td_Dependencies = [],
      td_AttemptCount = ts_AttemptCount ts, td_MaxRetries = 0, td_Error = ts_Error ts,
      td_Output = trimOutput (ts_Output ts) 512\<rparr>"

definition TrimPrefix :: "string \<Rightarrow> string \<Rightarrow> string" where
  "TrimPrefix s p = (if take (length p) s = p then drop (length p) s else s)"

definition handleAPIWorkflowDetail ::
    "'b bolt \<Rightarrow> i64 \<Rightarrow> 'b DB \<Rightarrow> string \<Rightarrow> workflowDetail response" where
  "handleAPIWorkflowDetail B now db path =
     (let wid = TrimPrefix path ''/api/workflows/'' in
      if wid = [] then HttpError ''missing workflow id'' 400
      else case GetWorkflowState B db wid of
        Inl e \<Rightarrow> if fatal e then Panicked else HttpError (Error_String e) 404
      | Inr wfState \<Rightarrow>
          (case GetTaskStatusesForWorkflow B db wid of
             (_, Some e) \<Rightarrow> if fatal e then Panicked else HttpError (Error_String e) 500
           | (taskStatuses, None) \<Rightarrow>
               (case GetWorkflow B db wid of
                  Inr spec \<Rightarrow>
                    JsonOK \<lparr>det_Summary = summarize now (FailurePolicy_String (Failure_Policy spec)) wfState taskStatuses,
                            det_Tasks = map (spec_detail (statusByID taskStatuses)) (Tasks spec)\<rparr>
                | Inl e \<Rightarrow>
                    if fatal e then Panicked
                    else JsonOK \<lparr>det_Summary = summarize now [] wfState taskStatuses,
                                 det_Tasks = map status_detail taskStatuses\<rparr>)))"

section \<open>Workers\<close>

definition deadThresholdMs :: int where "deadThresholdMs = 15000"

text \<open>Go's integer division truncates towards zero.\<close>

definition go_div :: "i64 \<Rightarrow> int \<Rightarrow> i64" where
  "go_div x n = word_of_int (if sint x < 0 then - ((- sint x) div n) else sint x div n)"

definition worker_summary :: "i64 \<Rightarrow> WorkerRecord \<Rightarrow> workerSummary" where
  "worker_summary now wk =
     \<lparr>wks_ID = WorkerID wk, wks_LastHeartbeatMs = LastHeartbeat wk,
      wks_SecondsSince = go_div (now - LastHeartbeat wk) 1000,
      wks_RunningTaskIDs = RunningTaskIDs wk,
      wks_Status = (if sint (now - LastHeartbeat wk) > deadThresholdMs then ''dead'' else ''alive'')\<rparr>"

definition newer_worker :: "workerSummary \<Rightarrow> workerSummary \<Rightarrow> bool" where
  "newer_worker x y \<longleftrightarrow> sint (wks_LastHeartbeatMs x) > sint (wks_LastHeartbeatMs y)"

definition handleAPIWorkers ::
    "'b bolt \<Rightarrow> (workerSummary list \<Rightarrow> workerSummary list) \<Rightarrow> i64 \<Rightarrow> 'b DB \<Rightarrow> workerSummary list response" where
  "handleAPIWorkers B srt now db =
     (case GetAllWorkers B db of
        (_, Some e) \<Rightarrow> if fatal e then Panicked else HttpError (Error_String e) 500
      | (workers, None) \<Rightarrow> JsonOK (srt (map (worker_summary now) workers)))"

end
