(* ===== verification/Coord_Process.thy ===== *)
theory Coord_Process
  imports Background Dashboard
begin

text \<open>
  The coordinator as a process, from \<^verbatim>\<open>main\<close> of \<^verbatim>\<open>cmd/coordinator/main.go\<close>: what happens between
  its start and its end, on a database file that outlives it, and which handler its HTTP server
  gives a path to. Opening the file, creating the buckets and listening may fail; what these
  calls return is an argument. A process that dies leaves the file as its last transaction left it.
  Nothing is assumed of the requests: a submission may use task ids that the store holds. So the
  states here need not be \<open>reachable\<close>; what holds of every file is that its records decode.
\<close>

section \<open>Starting and stopping\<close>

text \<open>
  \<open>pr_background\<close> tells whether the goroutines of \<^verbatim>\<open>Start\<close> run, \<open>pr_streams\<close> counts the open worker
  streams, and \<open>pr_draining\<close> is set while \<^verbatim>\<open>GracefulStop\<close> waits.
\<close>

record 'b Process =
  pr_coord :: "'b Coordinator"
  pr_background :: bool
  pr_streams :: nat
  pr_draining :: bool

definition Start :: "'b Process \<Rightarrow> 'b Process" where
  "Start p = p\<lparr>pr_background := True\<rparr>"

definition Stop :: "'b Process \<Rightarrow> 'b Process" where
  "Stop p = p\<lparr>pr_background := False\<rparr>"

text \<open>The file with all buckets, and the file after the process has ended early.\<close>

definition file_of :: "'b DB \<Rightarrow> string \<rightharpoonup> 'b" where
  "file_of db =
     [''workflows'' \<mapsto> bucket_workflows db, ''task_state'' \<mapsto> bucket_task_state db, ''workers'' \<mapsto> bucket_workers db,
      ''meta'' \<mapsto> bucket_meta db, ''workflow_state'' \<mapsto> bucket_workflow_state db]"

datatype 'b main_outcome =
    Fatal string "'b DB option"
  | Crashed err "'b DB"
  | Serving "'b Process"

text \<open>
  \<^verbatim>\<open>main\<close> up to the point where it waits for a signal. \<open>listen\<close> is the error of \<^verbatim>\<open>net.Listen\<close>, if any.
  Errors of loading and recovery are only logged.
\<close>

definition coordinator_main ::
    "'b bolt \<Rightarrow> i64 \<Rightarrow> i64 \<Rightarrow> i64 \<Rightarrow> clock \<Rightarrow> (nat \<Rightarrow> string) \<Rightarrow> err + (string \<rightharpoonup> 'b) \<Rightarrow> err option \<Rightarrow> err option
     \<Rightarrow> 'b main_outcome" where
  "coordinator_main B interval dead now clk uuid opened created listen =
     (case New B opened created of
        Inl e \<Rightarrow> Fatal ''failed to initialize state store'' None
      | Inr db \<Rightarrow>
          (case startup B interval dead now clk uuid db of
             (c, r) \<Rightarrow>
               (case r of
                  Inl e \<Rightarrow> Crashed e (state c)
                | Inr _ \<Rightarrow>
                    let p = Start \<lparr>pr_coord = c, pr_background = False, pr_streams = 0, pr_draining = False\<rparr> in
                    (case listen of
                       Some e \<Rightarrow> Fatal ''failed to listen'' (Some (state (pr_coord p)))
                     | None \<Rightarrow> Serving p))))"

text \<open>After the signal: \<^verbatim>\<open>coord.Stop()\<close>, then \<^verbatim>\<open>GracefulStop\<close> refuses new calls and waits for the open ones.\<close>

definition shutdown_begin :: "'b Process \<Rightarrow> 'b Process" where
  "shutdown_begin p = (Stop p)\<lparr>pr_draining := True\<rparr>"

section \<open>The life of a database file\<close>

datatype 'b machine = Down "string \<rightharpoonup> 'b" | Up "'b Process"

text \<open>
  Boots, whether they succeed or not, requests, and ends of the process. Calls of the service
  are handled until the shutdown begins, messages on a stream as long as it is open, and scans
  for dead workers while the background goroutines run. Commits may fail (\<open>B'\<close>), so that a kill in
  the middle of a handler is the handler with its later commits failing, and then the kill.
\<close>

inductive machine_step :: "'b bolt \<Rightarrow> 'b machine \<Rightarrow> 'b machine \<Rightarrow> bool" for B where
  serve: "bolt_spec B' \<Longrightarrow> same_data B B' \<Longrightarrow>
    coordinator_main B' interval dead now clk uuids (Inr file) None None = Serving p \<Longrightarrow>
    machine_step B (Down file) (Up p)"
| no_store: "bolt_spec B' \<Longrightarrow> same_data B B' \<Longrightarrow>
    coordinator_main B' interval dead now clk uuids opened created listen = Fatal m None \<Longrightarrow>
    machine_step B (Down file) (Down file)"
| no_port: "bolt_spec B' \<Longrightarrow> same_data B B' \<Longrightarrow>
    coordinator_main B' interval dead now clk uuids (Inr file) None listen = Fatal m (Some db) \<Longrightarrow>
    machine_step B (Down file) (Down (file_of db))"
| died: "bolt_spec B' \<Longrightarrow> same_data B B' \<Longrightarrow>
    coordinator_main B' interval dead now clk uuids (Inr file) None listen = Crashed e db \<Longrightarrow>
    machine_step B (Down file) (Down (file_of db))"
| submit: "bolt_spec B' \<Longrightarrow> same_data B B' \<Longrightarrow> \<not> pr_draining p \<Longrightarrow> submit_orders w ords \<Longrightarrow>
    SubmitWorkflow B' clk3 ords (pr_coord p) w = (c', res) \<Longrightarrow>
    machine_step B (Up p) (Up (p\<lparr>pr_coord := c'\<rparr>))"
| cancel: "bolt_spec B' \<Longrightarrow> same_data B B' \<Longrightarrow> \<not> pr_draining p \<Longrightarrow> CancelWorkflow B' clk3 (pr_coord p) wid = (c', res) \<Longrightarrow>
    machine_step B (Up p) (Up (p\<lparr>pr_coord := c'\<rparr>))"
| connect: "\<not> pr_draining p \<Longrightarrow> machine_step B (Up p) (Up (p\<lparr>pr_streams := Suc (pr_streams p)\<rparr>))"
| disconnect: "pr_streams p > 0 \<Longrightarrow> machine_step B (Up p) (Up (p\<lparr>pr_streams := pr_streams p - 1\<rparr>))"
| request: "bolt_spec B' \<Longrightarrow> same_data B B' \<Longrightarrow> pr_streams p > 0 \<Longrightarrow> GetReadyTask B' now uid (pr_coord p) k = (c', given) \<Longrightarrow>
    machine_step B (Up p) (Up (p\<lparr>pr_coord := c'\<rparr>))"
| success: "bolt_spec B' \<Longrightarrow> same_data B B' \<Longrightarrow> pr_streams p > 0 \<Longrightarrow>
    Coordinator_CompleteTask B' clk3 (pr_coord p) t e out = (c', res) \<Longrightarrow>
    machine_step B (Up p) (Up (p\<lparr>pr_coord := c'\<rparr>))"
| failure: "bolt_spec B' \<Longrightarrow> same_data B B' \<Longrightarrow> pr_streams p > 0 \<Longrightarrow>
    Coordinator_FailTask B' clk3 uid (pr_coord p) t e msg = (c', res) \<Longrightarrow>
    machine_step B (Up p) (Up (p\<lparr>pr_coord := c'\<rparr>))"
| heartbeat: "pr_streams p > 0 \<Longrightarrow>
    machine_step B (Up p) (Up (p\<lparr>pr_coord := UpdateWorkerHeartbeat (pr_coord p) k ts ids\<rparr>))"
| scan_workers: "bolt_spec B' \<Longrightarrow> same_data B B' \<Longrightarrow> pr_background p \<Longrightarrow> dead_orders calls \<Longrightarrow>
    Run_tick B' now ord calls (pr_coord p) = (c', res) \<Longrightarrow>
    machine_step B (Up p) (Up (p\<lparr>pr_coord := c'\<rparr>))"
| signal: "machine_step B (Up p) (Up (shutdown_begin p))"
| stopped: "pr_draining p \<Longrightarrow> pr_streams p = 0 \<Longrightarrow> machine_step B (Up p) (Down (file_of (state (pr_coord p))))"
| killed: "machine_step B (Up p) (Down (file_of (state (pr_coord p))))"

section \<open>Every file can be served again\<close>

lemma New_file_of [simp]: "New B (Inr (file_of db)) None = Inr db"
  by (simp add: New_def create_bucket_def file_of_def)

text \<open>The file that is left when the process is killed now.\<close>

definition file_left :: "'b machine \<Rightarrow> string \<rightharpoonup> 'b" where
  "file_left m = (case m of Down f \<Rightarrow> f | Up p \<Rightarrow> file_of (state (pr_coord p)))"

text \<open>What is read from it when the store is opened.\<close>

definition opened_db :: "'b bolt \<Rightarrow> (string \<rightharpoonup> 'b) \<Rightarrow> 'b DB" where
  "opened_db B f = projr (New B (Inr f) None)"

lemma New_opened: "New B (Inr f) None = Inr (opened_db B f)"
  by (simp add: opened_db_def New_def)

lemma opened_file_of [simp]: "opened_db B (file_of db) = db"
  by (simp add: opened_db_def)

definition machine_inv :: "'b bolt \<Rightarrow> 'b machine \<Rightarrow> bool" where
  "machine_inv B m \<longleftrightarrow> records_wf B (opened_db B (file_left m))"

lemma machine_inv_Up [simp]: "machine_inv B (Up p) \<longleftrightarrow> records_wf B (state (pr_coord p))"
  by (simp add: machine_inv_def file_left_def)

lemma machine_inv_file_of [simp]: "machine_inv B (Down (file_of db)) \<longleftrightarrow> records_wf B db"
  by (simp add: machine_inv_def file_left_def)

lemma same_data_opened: "same_data B B' \<Longrightarrow> opened_db B' f = opened_db B f"
  using same_data_fields(5) [of B B'] by (simp add: opened_db_def New_def create_bucket_def split: option.split)

context bolt_spec
begin

lemma empty_records: "machine_inv B (Down Map.empty)"
  using empty_store_inv [OF New_opened] by (simp add: machine_inv_def file_left_def records_wf_def store_inv_def)

text \<open>What a start leaves behind, whether it serves or not.\<close>

lemma coordinator_main_records:
  assumes "records_wf B (opened_db B f)"
  shows "coordinator_main B interval dead now clk uuids (Inr f) None listen = Serving p \<Longrightarrow> records_wf B (state (pr_coord p))"
    and "coordinator_main B interval dead now clk uuids (Inr f) None listen = Fatal m (Some db) \<Longrightarrow> records_wf B db"
    and "coordinator_main B interval dead now clk uuids (Inr f) None listen = Crashed e db \<Longrightarrow> records_wf B db"
proof -
  obtain c r where c: "startup B interval dead now clk uuids (opened_db B f) = (c, r)" by fastforce
  have "records_wf B (state c)" by (rule startup_records [OF assms c])
  with c
  show "coordinator_main B interval dead now clk uuids (Inr f) None listen = Serving p \<Longrightarrow> records_wf B (state (pr_coord p))"
    "coordinator_main B interval dead now clk uuids (Inr f) None listen = Fatal m (Some db) \<Longrightarrow> records_wf B db"
    "coordinator_main B interval dead now clk uuids (Inr f) None listen = Crashed e db \<Longrightarrow> records_wf B db"
    by (auto simp: coordinator_main_def New_opened Start_def Let_def split: sum.splits option.splits)
qed

end

text \<open>A handler of the running process, with whatever commits fail.\<close>

lemma handled_records:
  assumes "sys_step B' c l c'" and "bolt_spec B'" and "same_data B B'" and "records_wf B (state c)"
  shows "records_wf B (state c')"
  using bolt_spec.sys_step_records [OF assms(2) _ assms(1)] assms(4) by (simp add: same_data_tables [OF assms(3)])

lemma machine_step_inv:
  assumes "bolt_spec B" and "machine_step B m m'" and "machine_inv B m"
  shows "machine_inv B m'"
  using assms(2)
proof cases
  case (serve B' interval dead now clk uuids f p)
  with bolt_spec.coordinator_main_records(1) [OF serve(3) _ serve(5)] assms(3) show ?thesis
    by (simp add: machine_inv_def file_left_def same_data_opened same_data_tables)
next
  case (no_port B' interval dead now clk uuids f listen m db)
  with bolt_spec.coordinator_main_records(2) [OF no_port(3) _ no_port(5)] assms(3) show ?thesis
    by (simp add: machine_inv_def file_left_def same_data_opened same_data_tables)
next
  case (died B' interval dead now clk uuids f listen e db)
  with bolt_spec.coordinator_main_records(3) [OF died(3) _ died(5)] assms(3) show ?thesis
    by (simp add: machine_inv_def file_left_def same_data_opened same_data_tables)
next
  case submit
  then show ?thesis using assms(3) by (auto intro: handled_records [OF sys_step.submit])
next
  case cancel
  then show ?thesis using assms(3) by (auto intro: handled_records [OF sys_step.cancel])
next
  case request
  then show ?thesis using assms(3) by (auto intro: handled_records [OF sys_step.dispatch])
next
  case success
  then show ?thesis using assms(3) by (auto intro: handled_records [OF sys_step.complete])
next
  case failure
  then show ?thesis using assms(3) by (auto intro: handled_records [OF sys_step.fail])
next
  case heartbeat
  then show ?thesis using assms(3) by (simp add: UpdateWorkerHeartbeat_state)
next
  case scan_workers
  then show ?thesis using assms(3) by (auto intro: handled_records [OF sys_step.scan_workers])
qed (use assms(3) in \<open>auto simp: shutdown_begin_def Stop_def\<close>)

lemma machine_steps_inv:
  assumes "(machine_step B)\<^sup>*\<^sup>* m m'" and "bolt_spec B" and "machine_inv B m"
  shows "machine_inv B m'"
  using assms by (induction rule: rtranclp_induct) (auto intro: machine_step_inv)

text \<open>
  C8. A database file can always be served again. Whatever starts, failed starts, requests
  (submissions that reuse task ids among them), worker deaths, failing commits, shutdowns and kills
  the file has seen, let the process be killed now, if one runs, and \<^verbatim>\<open>main\<close> be started on what is left. If the store
  opens, \<^verbatim>\<open>main\<close> does not crash: it serves when it can listen, and gives up for that reason alone when
  it cannot. When commits succeed, the coordinator it serves has no assignment, its ready queue
  holds exactly the tasks that the file had as QUEUED or RUNNING, once each, and no task is RUNNING; every record but those of the
  RUNNING tasks is as it was.
\<close>

theorem every_file_is_served_again:
  assumes "bolt_spec B" and "(machine_step B)\<^sup>*\<^sup>* (Down Map.empty) m" and "reliable B"
    and "T = task_table B (opened_db B (file_left m))" and "ids_fit T (tasks_in T TASK_RUNNING) uuids"
  shows "\<exists>p. coordinator_main B interval dead now clk uuids (Inr (file_left m)) None listen =
      (case listen of None \<Rightarrow> Serving p | Some e \<Rightarrow> Fatal ''failed to listen'' (Some (state (pr_coord p)))) \<and>
    pr_background p \<and> pr_streams p = 0 \<and> \<not> pr_draining p \<and> assignedTasks (pr_coord p) = Map.empty \<and>
    distinct (readyQueue (pr_coord p)) \<and>
    set (readyQueue (pr_coord p)) = tasks_in T TASK_QUEUED \<union> tasks_in T TASK_RUNNING \<and>
    tasks_in (task_table B (state (pr_coord p))) TASK_RUNNING = {} \<and>
    (\<forall>t. t \<notin> tasks_in T TASK_RUNNING \<longrightarrow> task_table B (state (pr_coord p)) t = T t)"
proof -
  have "machine_inv B m" by (rule machine_steps_inv [OF assms(2,1) bolt_spec.empty_records [OF assms(1)]])
  then have wf: "tasks_wf B (opened_db B (file_left m))" "workflows_wf B (opened_db B (file_left m))"
    by (simp_all add: machine_inv_def records_wf_def)
  from bolt_spec.startup_exact [OF assms(1) wf assms(3) assms(5) [unfolded assms(4)], of interval dead now clk]
  obtain c where c: "startup B interval dead now clk uuids (opened_db B (file_left m)) = (c, Inr ())"
    "assignedTasks c = Map.empty" "distinct (readyQueue c)"
    "set (readyQueue c) = tasks_in T TASK_QUEUED \<union> tasks_in T TASK_RUNNING"
    "tasks_in (task_table B (state c)) TASK_RUNNING = {}"
    "\<forall>t. t \<notin> tasks_in T TASK_RUNNING \<longrightarrow> task_table B (state c) t = T t"
    unfolding assms(4) by blast
  let ?p = "\<lparr>pr_coord = c, pr_background = True, pr_streams = 0, pr_draining = False\<rparr>"
  have "coordinator_main B interval dead now clk uuids (Inr (file_left m)) None listen =
      (case listen of None \<Rightarrow> Serving ?p | Some e \<Rightarrow> Fatal ''failed to listen'' (Some (state (pr_coord ?p))))"
    using c(1) by (simp add: coordinator_main_def New_opened Start_def split: option.split)
  with c(2-6) show ?thesis by (intro exI [of _ ?p]) simp
qed

text \<open>A first start, an end by \<^verbatim>\<open>kill\<close>, and a restart.\<close>

definition first_process :: "lbucket Process" where
  "first_process = \<lparr>pr_coord = run0, pr_background = True, pr_streams = 0, pr_draining = False\<rparr>"

lemma first_process_starts:
  "coordinator_main list_bolt 1 1 7 (\<lambda>_. 7) (\<lambda>_. ''u'') (Inr Map.empty) None None = Serving first_process"
proof -
  have new: "New list_bolt (Inr Map.empty) None = Inr empty_db"
    by (simp add: New_def create_bucket_def empty_db_def list_bolt_def)
  obtain c where "startup list_bolt 1 1 7 (\<lambda>_. 7) (\<lambda>_. ''u'') empty_db = (c, Inr ())"
    by (rule bolt_spec.startup_cases [OF lb.bolt_spec_axioms
          bolt_spec.empty_store_inv [OF lb.bolt_spec_axioms new], of 1 1 7 "\<lambda>_. 7" "\<lambda>_. ''u''"]) blast
  then have "startup list_bolt 1 1 7 (\<lambda>_. 7) (\<lambda>_. ''u'') empty_db = (run0, Inr ())" by (simp add: run0_def)
  with new show ?thesis by (simp add: coordinator_main_def Start_def first_process_def)
qed

text \<open>
  The process that is killed here has accepted the same workflow twice and dispatched a task between
  the two submissions.
\<close>

definition run_again :: "lbucket Coordinator" where
  "run_again = fst (SubmitWorkflow list_bolt (\<lambda>_ _. 7) (\<lambda>_. [''a'', ''b'']) run2 sample_workflow)"

lemma run_again_state:
  "SubmitWorkflow list_bolt (\<lambda>_ _. 7) (\<lambda>_. [''a'', ''b'']) run2 sample_workflow = (run_again, Inr ())"
  "state run_again = state run1"
  by (simp_all add: run_again_def SubmitWorkflow_def sample_valid sample_built run_simps dag_defs policy_named_def
      cache_workflow_def)

definition process_with :: "lbucket Coordinator \<Rightarrow> lbucket Process" where
  "process_with c = \<lparr>pr_coord = c, pr_background = True, pr_streams = 1, pr_draining = False\<rparr>"

lemma resubmitting_process: "(machine_step list_bolt)\<^sup>*\<^sup>* (Down Map.empty) (Up (process_with run_again))"
proof -
  have serve: "machine_step list_bolt (Down Map.empty) (Up first_process)"
    by (rule machine_step.serve [OF lb.bolt_spec_axioms same_data_refl first_process_starts])
  have connect: "machine_step list_bolt (Up first_process) (Up (process_with run0))"
    using machine_step.connect [of first_process list_bolt] by (simp add: first_process_def process_with_def)
  have submit: "machine_step list_bolt (Up (process_with c)) (Up (process_with c'))"
    if "SubmitWorkflow list_bolt (\<lambda>_ _. 7) (\<lambda>_. [''a'', ''b'']) c sample_workflow = (c', Inr ())" for c c'
    using machine_step.submit [OF lb.bolt_spec_axioms same_data_refl _ sample_orders, of "process_with c" "\<lambda>_ _. 7"] that
    by (simp add: process_with_def)
  have request: "machine_step list_bolt (Up (process_with run1)) (Up (process_with run2))"
    using machine_step.request [OF lb.bolt_spec_axioms same_data_refl, of "process_with run1"] coord_results(1)
    by (simp add: process_with_def)
  show ?thesis
    using serve connect submit [OF run1 [THEN conjunct2]] request submit [OF run_again_state(1)]
    by (meson converse_rtranclp_into_rtranclp r_into_rtranclp)
qed

theorem every_file_is_served_again_witness:
  "\<exists>p. coordinator_main list_bolt 1 1 7 (\<lambda>_. 7) (\<lambda>_. ''u'') (Inr (file_of (state run1))) None None = Serving p \<and>
     set (readyQueue (pr_coord p)) = {''a''}"
proof -
  let ?T = "task_table list_bolt (state run1)"
  have left: "file_left (Up (process_with run_again)) = file_of (state run1)"
    by (simp add: file_left_def process_with_def run_again_state(2) del: run1_fields)
  have T: "tasks_in ?T TASK_RUNNING = {}" "tasks_in ?T TASK_QUEUED = {''a''}"
    by (auto simp: tasks_in_def split: if_splits)
  then have "ids_fit ?T (tasks_in ?T TASK_RUNNING) (\<lambda>_. ''u'')" by (simp add: ids_fit_def)
  with every_file_is_served_again [OF lb.bolt_spec_axioms resubmitting_process reliable_list_bolt, of ?T "\<lambda>_. ''u''" 1 1 7 "\<lambda>_. 7" None]
  obtain p where "coordinator_main list_bolt 1 1 7 (\<lambda>_. 7) (\<lambda>_. ''u'') (Inr (file_of (state run1))) None None = Serving p"
    "set (readyQueue (pr_coord p)) = tasks_in ?T TASK_QUEUED \<union> tasks_in ?T TASK_RUNNING"
    unfolding left opened_file_of by (auto simp del: run1_fields)
  with T show ?thesis by (intro exI [of _ p]) (simp del: run1_fields)
qed

section \<open>Shutdown waits for the workers\<close>

text \<open>
  A shutdown ends only when every stream has ended, and streams go on working meanwhile: with one
  worker connected, the process still hands out a task after the signal, while the scan for
  dead workers has stopped.
\<close>

theorem shutdown_still_dispatches:
  fixes p :: "lbucket Process"
  defines "p \<equiv> \<lparr>pr_coord = run1, pr_background = True, pr_streams = 1, pr_draining = False\<rparr>"
  shows "(machine_step list_bolt)\<^sup>*\<^sup>* (Up p) (Up ((shutdown_begin p)\<lparr>pr_coord := run2\<rparr>)) \<and>
    pr_draining (shutdown_begin p) \<and> \<not> pr_background (shutdown_begin p) \<and> assignedTasks run2 ''a'' = Some ''e1''"
proof -
  have "machine_step list_bolt (Up p) (Up (shutdown_begin p))" by (rule machine_step.signal)
  moreover have "machine_step list_bolt (Up (shutdown_begin p)) (Up ((shutdown_begin p)\<lparr>pr_coord := run2\<rparr>))"
    by (rule machine_step.request [OF lb.bolt_spec_axioms same_data_refl, of _ 7 "''e1''" "''k''"])
       (simp_all add: p_def shutdown_begin_def Stop_def coord_results(1))
  ultimately have "(machine_step list_bolt)\<^sup>*\<^sup>* (Up p) (Up ((shutdown_begin p)\<lparr>pr_coord := run2\<rparr>))"
    by (meson converse_rtranclp_into_rtranclp r_into_rtranclp)
  then show ?thesis by (simp add: shutdown_begin_def Stop_def)
qed

end
