(* ===== verification/Store_Props.thy ===== *)
theory Store_Props
  imports Sample_Run
begin

text \<open>
  Properties of the store. \<^verbatim>\<open>CompleteTask\<close> and the operations that rewrite one record refine
  specifications on the task table (\<open>abs_CompleteTask\<close>, \<open>abs_update\<close>); every operation
  keeps the stored records decodable; the walk of \<^verbatim>\<open>SkipDownstreamTasks\<close> ends and skips
  exactly what is downstream; scans are exact; what is stored is read back.
\<close>

section \<open>Shared facts\<close>

context bolt_spec
begin

lemma reachable_tasks_wf: "reachable B c \<Longrightarrow> tasks_wf B (state c)"
  using store_invD(1) [OF sys_invD(1) [OF reachable_inv]] .

lemma writes_keep_tasks_wf:
  assumes "tasks_wf B db" and "canonical_task_state st" and "distinct (map TaskId tasks)"
    and "\<forall>s\<in>set tasks. \<forall>ds. down (TaskId s) = Some ds \<longrightarrow> set ds \<subseteq> TaskId ` set tasks"
  shows "tasks_wf B (fst (UpdateTaskState B now db t st))" "tasks_wf B (fst (AssignTask B now db t e))"
    "tasks_wf B (fst (RequeueTask B now db t e))" "tasks_wf B (fst (FailTask B now db t msg n))"
    "tasks_wf B (fst (CompleteTask B clk db t e out))" "tasks_wf B (fst (CancelWorkflowTasks B clk db w))"
    "tasks_wf B (fst (InitializeTasksForWorkflow B clk db w tasks ideg down))"
    "tasks_wf B (fst (SkipDownstreamTasks B clk db t))"
proof -
  show "tasks_wf B (fst (UpdateTaskState B now db t st))"
    by (rule UpdateTaskState_cases [OF assms(1,2), of now t]) (use assms(1) in simp_all)
  show "tasks_wf B (fst (AssignTask B now db t e))"
    by (rule AssignTask_cases [OF assms(1), of now t e]) (use assms(1) in simp_all)
  show "tasks_wf B (fst (RequeueTask B now db t e))"
    by (rule RequeueTask_cases [OF assms(1), of now t e]) (use assms(1) in simp_all)
  show "tasks_wf B (fst (FailTask B now db t msg n))"
    by (rule FailTask_cases [OF assms(1), of now t msg n]) (use assms(1) in simp_all)
  show "tasks_wf B (fst (CompleteTask B clk db t e out))"
    by (rule CompleteTask_cases [OF assms(1), of t clk e out]) (use assms(1) in simp_all)
  show "tasks_wf B (fst (CancelWorkflowTasks B clk db w))"
    by (rule CancelWorkflowTasks_cases [OF assms(1), of clk w]) (use assms(1) in simp_all)
  show "tasks_wf B (fst (InitializeTasksForWorkflow B clk db w tasks ideg down))"
    by (rule InitializeTasksForWorkflow_cases [OF assms(1,3,4), of clk w ideg]) (use assms(1) in simp_all)
  show "tasks_wf B (fst (SkipDownstreamTasks B clk db t))"
  proof (cases "task_table B db t")
    case None
    then show ?thesis using assms(1) by (simp add: SkipDownstreamTasks_def GetTask_table)
  next
    case (Some r)
    show ?thesis by (rule SkipDownstreamTasks_ok [OF assms(1) Some, of clk]) simp
  qed
qed

text \<open>The only failures on a known task are those of the database.\<close>

lemma modify_task_error:
  assumes "tasks_wf B db" and "task_table B db t = Some r" and "modify_task B db t change = (db', Inl e)"
  shows "\<exists>m. e = LibErr m"
proof -
  let ?p = "put_task B db t (change r)"
  have "modify_task B db t change = Update B db (case ?p of Inl e \<Rightarrow> Inl e | Inr d \<Rightarrow> Inr (d, ()))"
    using assms(1,2) by (simp add: modify_task_def GetTask_table)
  with assms(3) have "(case ?p of Inl e \<Rightarrow> Inl e | Inr d \<Rightarrow> Inr (d, ())) = Inl e \<or> (\<exists>m. e = LibErr m)"
    using Update_error_cases by metis
  then show ?thesis using put_task_error by (auto split: sum.splits)
qed

lemma filtered_keys:
  assumes "tasks_wf B db"
  defines "ids P \<equiv> filter (\<lambda>k. P (the (task_table B db k))) (task_keys B db)"
  shows "sorted (ids P)" and "distinct (ids P)" and "set (ids P) = {t. \<exists>r. task_table B db t = Some r \<and> P r}"
  unfolding ids_def
  using task_keys [OF assms(1)] sorted_filter [of id "task_keys B db" "\<lambda>k. P (the (task_table B db k))"]
  by auto

lemma stored_workflow:
  assumes "StoreWorkflow B db w = (db', Inr ())"
  shows "GetWorkflow B db' (WorkflowId w) = Inr w \<and> getWorkflowInTx B db' (WorkflowId w) = Inr w \<and>
    (\<forall>i. i \<noteq> WorkflowId w \<longrightarrow> GetWorkflow B db' i = GetWorkflow B db i) \<and>
    db' = db\<lparr>bucket_workflows := bucket_workflows db'\<rparr>"
proof -
  from Update_ok [OF assms [unfolded StoreWorkflow_def]] obtain d b where
    "proto_marshal B w = Inr d" "b_put B (bucket_workflows db) (WorkflowId w) d = Inr b" "db' = db\<lparr>bucket_workflows := b\<rparr>"
    by (auto split: sum.splits)
  then show ?thesis by (simp add: GetWorkflow_def getWorkflowInTx_def get_put proto_roundtrip)
qed

lemma stored_worker:
  assumes "storable_worker k" and "StoreWorker B db k = (db', Inr ())"
  shows "GetWorker B db' (WorkerID k) = Inr k \<and>
    (\<forall>i. i \<noteq> WorkerID k \<longrightarrow> GetWorker B db' i = GetWorker B db i) \<and>
    db' = db\<lparr>bucket_workers := bucket_workers db'\<rparr>"
proof -
  from Update_ok [OF assms(2) [unfolded StoreWorker_def]] obtain b where
    "b_put B (bucket_workers db) (WorkerID k) (marshalWorkerRecord k) = Inr b" "db' = db\<lparr>bucket_workers := b\<rparr>"
    by (auto split: sum.splits)
  then show ?thesis using assms(1) by (simp add: GetWorker_def get_put worker_record_roundtrip)
qed

lemma removed_worker:
  assumes "RemoveWorker B db j = (db', Inr ())"
  shows "GetWorker B db' j = Inl ErrNotFound \<and> (\<forall>i. i \<noteq> j \<longrightarrow> GetWorker B db' i = GetWorker B db i) \<and>
    db' = db\<lparr>bucket_workers := bucket_workers db'\<rparr>"
proof -
  from Update_ok [OF assms [unfolded RemoveWorker_def]] obtain b where
    "b_delete B (bucket_workers db) j = Inr b" "db' = db\<lparr>bucket_workers := b\<rparr>"
    by (auto split: sum.splits)
  then show ?thesis by (simp add: GetWorker_def get_delete)
qed

end

section \<open>Refinement\<close>

text \<open>
  The contract of \<^verbatim>\<open>CompleteTask\<close> on the table of tasks: reject an unknown task and a stale
  execution, accept a repetition without effect, and otherwise mark the task and count it
  off from the tasks downstream.
\<close>

definition abs_CompleteTask ::
    "clock \<Rightarrow> string \<Rightarrow> string \<Rightarrow> string \<Rightarrow> table \<Rightarrow> err + table \<times> string list" where
  "abs_CompleteTask clk t e out T =
     (case T t of
        None \<Rightarrow> Inl ErrTaskNotFound
      | Some r \<Rightarrow>
          if ExecutionID r \<noteq> e then Inl ErrStaleExecution
          else if State r = TASK_COMPLETE then Inr (T, [])
          else Inr (abs_decrement clk 1 (DownstreamTaskIDs r)
                 (T(t \<mapsto> r\<lparr>State := TASK_COMPLETE, Output := out, LastUpdated := clk 0\<rparr>)) []))"

text \<open>
  C16. \<^verbatim>\<open>CompleteTask\<close> on the bytes of the database refines its contract on the table: unless
  the database itself fails, in which case nothing changes, it returns what the contract
  returns and leaves a database that represents the contract's table; well-formedness of
  the stored records and all other buckets are preserved.
\<close>

theorem CompleteTask_refines_table:
  assumes "bolt_spec B" and "tasks_wf B db" and "CompleteTask B clk db t e out = (db', res)"
  shows "tasks_wf B db' \<and> only_tasks_changed db db' \<and>
    ((\<exists>m. res = Inl (LibErr m)) \<and> db' = db \<or>
     (case abs_CompleteTask clk t e out (task_table B db) of
        Inl er \<Rightarrow> res = Inl er \<and> db' = db
      | Inr (T', ready) \<Rightarrow> res = Inr ready \<and> task_table B db' = T'))"
  by (rule bolt_spec.CompleteTask_cases [OF assms(1,2), of t clk e out])
     (use assms(2,3) in \<open>auto simp: abs_CompleteTask_def\<close>)

theorem CompleteTask_refines_table_witness:
  "\<exists>db' ready. CompleteTask list_bolt (\<lambda>_. 7) (state run2) ''a'' ''e1'' ''ok'' = (db', Inr ready) \<and>
     abs_CompleteTask (\<lambda>_. 7) ''a'' ''e1'' ''ok'' (task_table list_bolt (state run2)) = Inr (task_table list_bolt db', ready)"
proof -
  let ?T = "task_table list_bolt (state run2)"
  obtain db' res where r: "CompleteTask list_bolt (\<lambda>_. 7) (state run2) ''a'' ''e1'' ''ok'' = (db', res)" by fastforce
  have "\<not> (\<exists>m. res = Inl (LibErr m))" using r by (auto simp: run_simps)
  moreover obtain T' ready where "abs_CompleteTask (\<lambda>_. 7) ''a'' ''e1'' ''ok'' ?T = Inr (T', ready)"
    by (auto simp: abs_CompleteTask_def)
  ultimately show ?thesis
    using CompleteTask_refines_table [OF lb.bolt_spec_axioms bolt_spec.reachable_tasks_wf [OF lb.bolt_spec_axioms reachable_runs(2)] r] r
    by simp
qed

text \<open>
  The contract of an operation that rewrites the record of one task: an unknown task is
  reported, the record of a known one is replaced, and no other record changes.
\<close>

definition abs_update :: "(TaskStateRecord \<Rightarrow> TaskStateRecord) \<Rightarrow> string \<Rightarrow> table \<Rightarrow> err + table" where
  "abs_update change t T = (case T t of None \<Rightarrow> Inl ErrTaskNotFound | Some r \<Rightarrow> Inr (T(t \<mapsto> change r)))"

definition refines_update ::
    "'b bolt \<Rightarrow> 'b DB \<Rightarrow> string \<Rightarrow> (TaskStateRecord \<Rightarrow> TaskStateRecord) \<Rightarrow> 'b DB \<times> (err + unit) \<Rightarrow> bool" where
  "refines_update B db t change out =
     (case out of (db', res) \<Rightarrow>
        tasks_wf B db' \<and> only_tasks_changed db db' \<and>
        ((\<exists>m. res = Inl (LibErr m)) \<and> t \<in> dom (task_table B db) \<and> db' = db \<or>
         (case abs_update change t (task_table B db) of
            Inl er \<Rightarrow> res = Inl er \<and> db' = db
          | Inr T' \<Rightarrow> res = Inr () \<and> task_table B db' = T')))"

lemma modify_task_refines:
  assumes "bolt_spec B" and "tasks_wf B db" and "\<And>r. record_wf t r \<Longrightarrow> record_wf t (change r)"
  shows "refines_update B db t change (modify_task B db t change)"
proof (cases rule: bolt_spec.modify_task_cases [OF assms(1,2), of t change, case_names wf ok error])
  case wf
  then show ?case by (rule assms(3))
next
  case ok
  then show ?thesis by (simp add: refines_update_def abs_update_def)
next
  case (error e)
  show ?thesis
  proof (cases "task_table B db t")
    case None
    with error assms(2) show ?thesis by (simp add: refines_update_def abs_update_def only_tasks_changed_def)
  next
    case (Some r)
    with bolt_spec.modify_task_error [OF assms(1,2) Some error(1)] error(1) assms(2) show ?thesis
      by (auto simp: refines_update_def only_tasks_changed_def)
  qed
qed

text \<open>
  C34. The operations that move one task refine updates of the table: on the bytes of the
  database, \<^verbatim>\<open>UpdateTaskState\<close>, \<^verbatim>\<open>AssignTask\<close>, \<^verbatim>\<open>RequeueTask\<close> and \<^verbatim>\<open>FailTask\<close> report an unknown task and change
  nothing, and write for a known one the state, the execution id, the error and the attempt
  count that they are given and the time, keeping all else in its record, or else the
  database failed and nothing changed. No other record and no other bucket changes, and
  the records stay well-formed.
\<close>

theorem task_updates_refine_table:
  assumes "bolt_spec B" and "tasks_wf B db" and "canonical_task_state st"
  shows "refines_update B db t (\<lambda>r. r\<lparr>State := st, LastUpdated := now\<rparr>) (UpdateTaskState B now db t st) \<and>
    refines_update B db t (\<lambda>r. r\<lparr>State := TASK_RUNNING, ExecutionID := e, LastUpdated := now\<rparr>)
      (AssignTask B now db t e) \<and>
    refines_update B db t (\<lambda>r. r\<lparr>State := TASK_QUEUED, ExecutionID := e, LastUpdated := now\<rparr>)
      (RequeueTask B now db t e) \<and>
    refines_update B db t (\<lambda>r. r\<lparr>State := TASK_FAILED, Error := msg, AttemptCount := n, LastUpdated := now\<rparr>)
      (FailTask B now db t msg n)"
  unfolding UpdateTaskState_def AssignTask_def RequeueTask_def FailTask_def
  by (intro conjI modify_task_refines [OF assms(1,2)]) (use assms(3) in \<open>simp_all add: record_wf_def\<close>)

theorem task_updates_refine_table_witness:
  "AssignTask list_bolt 7 (state run2) ''zz'' ''e9'' = (state run2, Inl ErrTaskNotFound) \<and>
   (\<exists>db' r. RequeueTask list_bolt 7 (state run2) ''a'' ''e9'' = (db', Inr ()) \<and>
      task_table list_bolt db' ''a'' = Some r \<and> State r = TASK_QUEUED \<and> ExecutionID r = ''e9'' \<and>
      task_table list_bolt db' ''b'' = task_table list_bolt (state run2) ''b'')"
proof -
  note wf = bolt_spec.reachable_tasks_wf [OF lb.bolt_spec_axioms reachable_runs(2)]
  note ref = task_updates_refine_table [OF lb.bolt_spec_axioms wf canonical_task_state_named(1)]
  obtain d0 r0 where q0: "AssignTask list_bolt 7 (state run2) ''zz'' ''e9'' = (d0, r0)" by fastforce
  have "AssignTask list_bolt 7 (state run2) ''zz'' ''e9'' = (state run2, Inl ErrTaskNotFound)"
    using ref [of "''zz''" 7 "''e9''", THEN conjunct2, THEN conjunct1] q0
    by (auto simp: refines_update_def abs_update_def)
  moreover obtain db' res where q: "RequeueTask list_bolt 7 (state run2) ''a'' ''e9'' = (db', res)" by fastforce
  moreover have "\<not> (\<exists>m. res = Inl (LibErr m))" using q by (auto simp: run_simps)
  ultimately show ?thesis
    using ref [of "''a''" 7 "''e9''", THEN conjunct2, THEN conjunct2, THEN conjunct1]
    by (auto simp: refines_update_def abs_update_def)
qed

section \<open>Well-formedness\<close>

text \<open>
  C35. The stored task records stay well-formed: each decodes, carries its own key as task
  id, holds a state that the protocol names, and lists no empty downstream id, after any
  of the operations that write task records.
\<close>

theorem task_records_stay_wellformed:
  assumes "bolt_spec B" and "tasks_wf B db" and "canonical_task_state st"
    and "distinct (map TaskId tasks)"
    and "\<forall>s\<in>set tasks. \<forall>ds. down (TaskId s) = Some ds \<longrightarrow> set ds \<subseteq> TaskId ` set tasks"
  shows "tasks_wf B (fst (UpdateTaskState B now db t st)) \<and> tasks_wf B (fst (AssignTask B now db t e)) \<and>
    tasks_wf B (fst (RequeueTask B now db t e)) \<and> tasks_wf B (fst (FailTask B now db t msg n)) \<and>
    tasks_wf B (fst (CompleteTask B clk db t e out)) \<and> tasks_wf B (fst (CancelWorkflowTasks B clk db w)) \<and>
    tasks_wf B (fst (InitializeTasksForWorkflow B clk db w tasks ideg down)) \<and>
    tasks_wf B (fst (SkipDownstreamTasks B clk db t))"
  by (intro conjI bolt_spec.writes_keep_tasks_wf [OF assms])

theorem task_records_stay_wellformed_witness:
  "tasks_wf list_bolt (fst (CancelWorkflowTasks list_bolt (\<lambda>_. 9) (state run2) ''w''))"
  using task_records_stay_wellformed [OF lb.bolt_spec_axioms bolt_spec.reachable_tasks_wf [OF lb.bolt_spec_axioms reachable_runs(2)]
      canonical_task_state_named(1), of "[]" "\<lambda>_. None"] by simp

section \<open>Skipping downstream\<close>

text \<open>
  C33. \<^verbatim>\<open>SkipDownstreamTasks\<close> always returns, even if the stored downstream lists form a cycle:
  it reports an unknown task, and otherwise, when commits succeed, it skips exactly the
  unfinished tasks reachable along downstream edges, reports each once, and changes no
  other record. Unfinished means not COMPLETE, FAILED or SKIPPED: a task that is
  RUNNING is skipped like one that is PENDING or QUEUED, although the comment on the
  function says that running tasks are left to report.
\<close>

theorem skip_downstream_returns_and_is_exact:
  assumes "bolt_spec B" and "tasks_wf B db" and "reliable B"
  shows "case task_table B db t of
      None \<Rightarrow> SkipDownstreamTasks B clk db t = (db, Inl ErrTaskNotFound)
    | Some r \<Rightarrow> \<exists>db' skipped. SkipDownstreamTasks B clk db t = (db', Inr skipped) \<and> distinct skipped \<and>
        (\<forall>v s. task_table B db v = Some s \<longrightarrow>
           (v \<in> set skipped \<longleftrightarrow> (t, v) \<in> (ds_rel (task_table B db))\<^sup>+ \<and> \<not> terminal (State s))) \<and>
        (\<forall>v. rel_option (skips (v \<in> set skipped)) (task_table B db v) (task_table B db' v))"
proof (cases "task_table B db t")
  case None
  then show ?thesis
    by (simp add: SkipDownstreamTasks_def bolt_spec.GetTask_table [OF assms(1,2)])
next
  case (Some r)
  obtain db' skipped where D: "SkipDownstreamTasks B clk db t = (db', Inr skipped)" "distinct skipped"
    "set skipped \<subseteq> (ds_rel (task_table B db))\<^sup>+ `` {t}"
    "\<And>v. rel_option (skips (v \<in> set skipped)) (task_table B db v) (task_table B db' v)"
    "\<And>v r. (t, v) \<in> (ds_rel (task_table B db))\<^sup>+ \<Longrightarrow> task_table B db v = Some r \<Longrightarrow>
       \<not> terminal (State r) \<Longrightarrow> v \<in> set skipped"
    by (rule bolt_spec.SkipDownstreamTasks_ok [OF assms(1,2) Some, of clk]) (use assms(3) in blast)
  have "\<not> terminal (State s)" if "task_table B db v = Some s" "v \<in> set skipped" for v s
    using D(4) [of v] that by (auto simp: option_rel_Some1 skips_def)
  with D Some show ?thesis by auto
qed

theorem skip_downstream_returns_and_is_exact_witness:
  "\<exists>db' skipped. SkipDownstreamTasks list_bolt (\<lambda>_. 9) (state run2) ''a'' = (db', Inr skipped) \<and> ''b'' \<in> set skipped"
proof -
  have "(''a'', ''b'') \<in> ds_rel (task_table list_bolt (state run2))" by (simp add: ds_rel_def)
  then show ?thesis
    using skip_downstream_returns_and_is_exact [OF lb.bolt_spec_axioms
        bolt_spec.reachable_tasks_wf [OF lb.bolt_spec_axioms reachable_runs(2)] reliable_list_bolt, of "\<lambda>_. 9" "''a''"]
    by (auto simp: terminal_def)
qed

section \<open>Reading\<close>

text \<open>
  The scans of the task bucket are exact: the tasks in a state, and the tasks of a
  workflow, are returned once each in key order, and a workflow is complete exactly when
  all its tasks are finished.
\<close>

theorem scans_are_exact:
  assumes "bolt_spec B" and "tasks_wf B db"
  shows "(\<exists>ids. GetTasksInState B db st = (ids, None) \<and> sorted ids \<and> distinct ids \<and>
       set ids = {t. \<exists>r. task_table B db t = Some r \<and> State r = st}) \<and>
    (\<exists>ids. GetTasksForWorkflow B db w = (ids, None) \<and> sorted ids \<and> distinct ids \<and>
       set ids = {t. \<exists>r. task_table B db t = Some r \<and> WorkflowID r = w}) \<and>
    IsWorkflowComplete B db w =
      ((\<forall>t r. task_table B db t = Some r \<longrightarrow> WorkflowID r = w \<longrightarrow> terminal (State r)), None)"
  using bolt_spec.filtered_keys [OF assms, of "\<lambda>r. State r = st"] bolt_spec.filtered_keys [OF assms, of "\<lambda>r. WorkflowID r = w"]
  by (simp add: bolt_spec.GetTasksInState_table [OF assms] bolt_spec.GetTasksForWorkflow_table [OF assms]
      bolt_spec.IsWorkflowComplete_table [OF assms] del: set_filter)

theorem scans_are_exact_witness:
  "\<exists>ids. GetTasksInState list_bolt (state run3) TASK_QUEUED = (ids, None) \<and> set ids = {''b''}"
proof -
  have eq: "{t. \<exists>r. task_table list_bolt (state run3) t = Some r \<and> State r = TASK_QUEUED} = {''b''}"
    by (simp only: run3_fields sample_table) (auto split: if_splits)
  note wf = bolt_spec.reachable_tasks_wf [OF lb.bolt_spec_axioms reachable_runs(3)]
  from scans_are_exact [OF lb.bolt_spec_axioms wf, THEN conjunct1, of TASK_QUEUED]
  show ?thesis unfolding eq by (elim exE conjE) (rule exI, rule conjI)
qed

text \<open>
  A workflow specification and a worker record are read back as they were stored; a
  removed worker is not found; and none of these operations touches another key or another
  bucket.
\<close>

theorem stored_records_are_read_back:
  assumes "bolt_spec B" and "storable_worker k"
  shows "(StoreWorkflow B db w = (db', Inr ()) \<longrightarrow>
       GetWorkflow B db' (WorkflowId w) = Inr w \<and> getWorkflowInTx B db' (WorkflowId w) = Inr w \<and>
       (\<forall>i. i \<noteq> WorkflowId w \<longrightarrow> GetWorkflow B db' i = GetWorkflow B db i) \<and>
       db' = db\<lparr>bucket_workflows := bucket_workflows db'\<rparr>) \<and>
    (StoreWorker B db k = (db', Inr ()) \<longrightarrow>
       GetWorker B db' (WorkerID k) = Inr k \<and>
       (\<forall>i. i \<noteq> WorkerID k \<longrightarrow> GetWorker B db' i = GetWorker B db i) \<and>
       db' = db\<lparr>bucket_workers := bucket_workers db'\<rparr>) \<and>
    (RemoveWorker B db j = (db', Inr ()) \<longrightarrow>
       GetWorker B db' j = Inl ErrNotFound \<and> (\<forall>i. i \<noteq> j \<longrightarrow> GetWorker B db' i = GetWorker B db i) \<and>
       db' = db\<lparr>bucket_workers := bucket_workers db'\<rparr>)"
  using bolt_spec.stored_workflow [OF assms(1), of db w db'] bolt_spec.stored_worker [OF assms, of db db']
    bolt_spec.removed_worker [OF assms(1), of db j db']
  by blast

definition sample_worker :: WorkerRecord where
  "sample_worker = \<lparr>WorkerID = ''k'', LastHeartbeat = 7, RunningTaskIDs = [''a''], QueuedTaskIDs = [],
     wr_LastUpdated = 7\<rparr>"

theorem stored_records_are_read_back_witness:
  "\<exists>db'. StoreWorker list_bolt empty_db sample_worker = (db', Inr ()) \<and> GetWorker list_bolt db' ''k'' = Inr sample_worker"
proof -
  have s: "storable_worker sample_worker" by (simp add: storable_worker_def sample_worker_def)
  obtain db' where "StoreWorker list_bolt empty_db sample_worker = (db', Inr ())"
    by (simp add: StoreWorker_def Update_def lb_defs empty_db_def sample_worker_def marshalWorkerRecord_def)
  with stored_records_are_read_back [OF lb.bolt_spec_axioms s, of empty_db _ db'] show ?thesis
    by (auto simp: sample_worker_def)
qed

end
