(* ===== verification/Worker_Proc.thy ===== *)
theory Worker_Proc
  imports Proto_Messages "HOL-Library.Multiset"
begin

text \<open>
  The worker process of \<^verbatim>\<open>cmd/worker/main.go\<close>: what it sends on its stream, how it runs a task
  and how it reconnects. Its goroutines (the select loop of \<^verbatim>\<open>runOnce\<close>, \<^verbatim>\<open>recvLoop\<close>, one
  \<^verbatim>\<open>executeTask\<close> per assignment) share the map \<^verbatim>\<open>running\<close> under a mutex; their interleavings are
  the transition relation \<open>worker_step\<close>. Running a command is a parameter: \<open>run_cmd\<close> maps the
  call that \<^verbatim>\<open>os/exec\<close> is given to what it produced.
\<close>

section \<open>The worker\<close>

record Worker =
  w_id :: string
  w_capacity :: i32
  w_running :: "string \<rightharpoonup> bool"

definition NewWorker :: "string \<Rightarrow> i32 \<Rightarrow> Worker" where
  "NewWorker i cap = \<lparr>w_id = i, w_capacity = cap, w_running = Map.empty\<rparr>"

text \<open>The worker that \<^verbatim>\<open>main\<close> starts, from a fresh UUID and the \<^verbatim>\<open>-capacity\<close> flag (a 64-bit \<^verbatim>\<open>int\<close>).\<close>

definition main_worker :: "string \<Rightarrow> i64 \<Rightarrow> Worker" where
  "main_worker uuid cap = NewWorker (''worker-'' @ take 8 uuid) (ucast cap)"

definition runningCount :: "Worker \<Rightarrow> nat" where
  "runningCount w = go_len (w_running w)"

section \<open>The select loop\<close>

text \<open>The heartbeat lists the keys of \<^verbatim>\<open>running\<close> in the order \<open>ids\<close> that \<^verbatim>\<open>range\<close> takes.\<close>

definition heartbeat_message :: "i64 \<Rightarrow> string list \<Rightarrow> Worker \<Rightarrow> WorkerMessage" where
  "heartbeat_message now ids w =
     \<lparr>wm_WorkerId = w_id w, wm_Payload = WM_Heartbeat \<lparr>TimestampUnixMs = now, RunningTaskIds = ids\<rparr>\<rparr>"

definition task_request :: "Worker \<Rightarrow> WorkerMessage option" where
  "task_request w =
     (let available = w_capacity w - of_nat (runningCount w) in
      if sint available \<le> 0 then None
      else Some \<lparr>wm_WorkerId = w_id w, wm_Payload = WM_TaskRequest available\<rparr>)"

text \<open>An \<^verbatim>\<open>io.EOF\<close> from \<^verbatim>\<open>Send\<close> is left to \<^verbatim>\<open>recvLoop\<close>; any other error ends \<^verbatim>\<open>runOnce\<close>.\<close>

definition after_send :: "err option \<Rightarrow> (err + unit) option" where
  "after_send send = (case send of None \<Rightarrow> None | Some e \<Rightarrow> if e = EOF then None else Some (Inl e))"

datatype select_case =
    CtxDone
  | RecvErrCh "err option"
  | HbTick i64 "string list" "err option"
  | Tick "err option"

text \<open>One round of the select loop: what it sends, and the result when \<^verbatim>\<open>runOnce\<close> returns.\<close>

fun select_round :: "select_case \<Rightarrow> Worker \<Rightarrow> WorkerMessage list \<times> (err + unit) option" where
  "select_round CtxDone w = ([], Some (Inr ()))"
| "select_round (RecvErrCh e) w = ([], Some (case e of None \<Rightarrow> Inr () | Some e \<Rightarrow> Inl e))"
| "select_round (HbTick now ids send) w = ([heartbeat_message now ids w], after_send send)"
| "select_round (Tick send) w =
     (case task_request w of None \<Rightarrow> ([], None) | Some msg \<Rightarrow> ([msg], after_send send))"

section \<open>Receiving\<close>

text \<open>What \<^verbatim>\<open>recvLoop\<close> does with one message: the task it starts and how long it sleeps.\<close>

fun recv_message :: "CoordinatorMessage \<Rightarrow> TaskAssignment option \<times> i64" where
  "recv_message (CM_TaskAssignment a) = (Some a, 0)"
| "recv_message (CM_NoTask ms) = (None, scast ms * 1000000)"
| "recv_message CM_Ping = (None, 0)"
| "recv_message CM_None = (None, 0)"

text \<open>What \<^verbatim>\<open>stream.Recv\<close> returns: an error or a message.\<close>

fun recvLoop ::
    "(err + CoordinatorMessage) list \<Rightarrow> TaskAssignment list \<times> i64 list \<times> (err option) option" where
  "recvLoop [] = ([], [], None)"
| "recvLoop (Inl e # rs) = ([], [], Some (if e = EOF then None else Some e))"
| "recvLoop (Inr msg # rs) =
     (case recv_message msg of (start, sleep) \<Rightarrow>
      case recvLoop rs of (starts, sleeps, r) \<Rightarrow>
        ((case start of None \<Rightarrow> starts | Some a \<Rightarrow> a # starts), sleep # sleeps, r))"

section \<open>Running a task\<close>

definition executeTask_begin :: "TaskAssignment \<Rightarrow> Worker \<Rightarrow> Worker" where
  "executeTask_begin a w = w\<lparr>w_running := (w_running w)(ta_TaskId a \<mapsto> True)\<rparr>"

definition executeTask_end :: "TaskAssignment \<Rightarrow> Worker \<Rightarrow> Worker" where
  "executeTask_end a w = w\<lparr>w_running := (w_running w)(ta_TaskId a := None)\<rparr>"

text \<open>The timeout in nanoseconds, as a \<^verbatim>\<open>time.Duration\<close>.\<close>

definition task_timeout :: "TaskAssignment \<Rightarrow> i64 option" where
  "task_timeout a =
     (if sint (ta_TimeoutSeconds a) > 0 then Some (scast (ta_TimeoutSeconds a) * 1000000000) else None)"

record exec_call =
  argv :: "string list"
  envp :: "string list"
  timeout :: "i64 option"

record exec_outcome =
  out_bytes :: string
  out_err :: "err option"
  out_ms :: i64
  out_deadline :: bool

definition task_call :: "string list \<Rightarrow> TaskAssignment \<Rightarrow> exec_call" where
  "task_call environ a =
     \<lparr>argv = [''sh'', ''-c'', ta_Command a],
      envp = environ @ map (\<lambda>(k, v). k @ ''='' @ v) (ta_Env a),
      timeout = task_timeout a\<rparr>"

definition maxOutputBytes :: nat where
  "maxOutputBytes = 64 * 1024"

definition truncate_output :: "string \<Rightarrow> string" where
  "truncate_output s =
     (if length s > maxOutputBytes then take maxOutputBytes s @ ''\<newline>[output truncated]'' else s)"

definition task_result :: "(exec_call \<Rightarrow> exec_outcome) \<Rightarrow> string list \<Rightarrow> TaskAssignment \<Rightarrow> TaskResult" where
  "task_result run_cmd environ a =
     (let out = run_cmd (task_call environ a);
          result = \<lparr>tr_TaskId = ta_TaskId a, tr_ExecutionId = ta_ExecutionId a, tr_Success = False,
                    tr_Output = truncate_output (out_bytes out), tr_Error = [], tr_DurationMs = out_ms out\<rparr> in
      case out_err out of
        None \<Rightarrow> result\<lparr>tr_Success := True\<rparr>
      | Some e \<Rightarrow>
          result\<lparr>tr_Error :=
            (if out_deadline out then ''task timed out after '' @ decimal (sint (ta_TimeoutSeconds a)) @ ''s''
             else ''execution error: '' @ Error_String e)\<rparr>)"

definition result_message :: "Worker \<Rightarrow> TaskResult \<Rightarrow> WorkerMessage" where
  "result_message w r = \<lparr>wm_WorkerId = w_id w, wm_Payload = WM_TaskResult r\<rparr>"

text \<open>
  The whole of \<^verbatim>\<open>executeTask\<close> when nothing else runs: the worker after it, and the message that went
  onto the stream. \<open>send\<close> is what \<^verbatim>\<open>stream.Send\<close> returns; its error is logged and the result is dropped.
\<close>

definition executeTask ::
    "(WorkerMessage \<Rightarrow> err option) \<Rightarrow> (exec_call \<Rightarrow> exec_outcome) \<Rightarrow> string list \<Rightarrow> TaskAssignment \<Rightarrow> Worker
     \<Rightarrow> Worker \<times> WorkerMessage option" where
  "executeTask send run_cmd environ a w =
     (let w = executeTask_begin a w; msg = result_message w (task_result run_cmd environ a) in
      (executeTask_end a w, case send msg of None \<Rightarrow> Some msg | Some e \<Rightarrow> None))"

section \<open>Strings on the wire\<close>

text \<open>
  UTF-8, as \<^verbatim>\<open>unicode/utf8\<close> tests it: for a first byte, how many bytes follow and the range of the next
  one; the others are between \<open>0x80\<close> and \<open>0xBF\<close>.
\<close>

definition utf8_first :: "nat \<Rightarrow> (nat \<times> nat \<times> nat) option" where
  "utf8_first b =
     (if b < 128 then Some (0, 0, 0)
      else if 194 \<le> b \<and> b \<le> 223 then Some (1, 128, 191)
      else if b = 224 then Some (2, 160, 191)
      else if b = 237 then Some (2, 128, 159)
      else if 225 \<le> b \<and> b \<le> 239 then Some (2, 128, 191)
      else if b = 240 then Some (3, 144, 191)
      else if 241 \<le> b \<and> b \<le> 243 then Some (3, 128, 191)
      else if b = 244 then Some (3, 128, 143)
      else None)"

fun utf8_bytes :: "nat list \<Rightarrow> bool" where
  "utf8_bytes [] = True"
| "utf8_bytes (b # bs) =
     (case utf8_first b of
        None \<Rightarrow> False
      | Some (n, lo, hi) \<Rightarrow>
          n \<le> length bs \<and> (n > 0 \<longrightarrow> lo \<le> hd bs \<and> hd bs \<le> hi) \<and>
          list_all (\<lambda>c. 128 \<le> c \<and> c \<le> 191) (take n bs) \<and> utf8_bytes (drop n bs))"

definition ValidString :: "string \<Rightarrow> bool" where
  "ValidString s = utf8_bytes (map of_char s)"

text \<open>The string fields of a message of a worker.\<close>

fun message_strings :: "WorkerMessage \<Rightarrow> string list" where
  "message_strings msg =
     wm_WorkerId msg #
     (case wm_Payload msg of
        WM_Heartbeat h \<Rightarrow> RunningTaskIds h
      | WM_TaskResult r \<Rightarrow> [tr_TaskId r, tr_ExecutionId r, tr_Output r, tr_Error r]
      | _ \<Rightarrow> [])"

text \<open>
  What protobuf documents of a \<^verbatim>\<open>string\<close> field: a message with one that is not valid UTF-8 cannot be
  encoded, so \<^verbatim>\<open>Send\<close> returns an error for it.
\<close>

definition refuses_invalid_utf8 :: "(WorkerMessage \<Rightarrow> err option) \<Rightarrow> bool" where
  "refuses_invalid_utf8 send \<longleftrightarrow> (\<forall>msg. \<not> list_all ValidString (message_strings msg) \<longrightarrow> send msg \<noteq> None)"

section \<open>Reconnecting\<close>

text \<open>
  One round of \<^verbatim>\<open>Run\<close>: whether the context is done at its head, what \<^verbatim>\<open>runOnce\<close> returns, whether the
  context is done then, and whether it is done before the wait is over. \<^verbatim>\<open>Run\<close> gives the
  waits it made and whether it has returned.
\<close>

record run_round =
  done_before :: bool
  once :: "err + unit"
  done_after :: bool
  done_waiting :: bool

definition second :: i64 where "second = 1000000000"

definition maxBackoff :: i64 where "maxBackoff = 30 * second"

fun Run_loop :: "i64 \<Rightarrow> run_round list \<Rightarrow> i64 list \<times> bool" where
  "Run_loop backoff [] = ([], False)"
| "Run_loop backoff (r # rs) =
     (if done_before r then ([], True)
      else case once r of
        Inr _ \<Rightarrow> ([], True)
      | Inl e \<Rightarrow>
          if done_after r then ([], True)
          else if done_waiting r then ([], True)
          else (case Run_loop (if sint backoff < sint maxBackoff then backoff * 2 else backoff) rs of
                  (waits, returned) \<Rightarrow> (backoff # waits, returned)))"

definition Run :: "run_round list \<Rightarrow> i64 list \<times> bool" where
  "Run rs = Run_loop second rs"

text \<open>
  \<^verbatim>\<open>Stop\<close> cancels the context: every later test of it succeeds, so a round in which it is called ends
  with the cancellation seen after \<^verbatim>\<open>runOnce\<close> or in the wait. \<^verbatim>\<open>main\<close> dials, starts \<^verbatim>\<open>Run\<close> and calls \<^verbatim>\<open>Stop\<close>
  on a signal; it does not wait for \<^verbatim>\<open>Run\<close> to return.
\<close>

definition Worker_Stop :: "run_round \<Rightarrow> run_round" where
  "Worker_Stop r = r\<lparr>done_after := True, done_waiting := True\<rparr>"

datatype worker_outcome = WorkerFatal string | WorkerRuns Worker "i64 list \<times> bool"

definition worker_main :: "err option \<Rightarrow> string \<Rightarrow> i64 \<Rightarrow> run_round list \<Rightarrow> worker_outcome" where
  "worker_main dial uuid cap rounds =
     (case dial of
        Some e \<Rightarrow> WorkerFatal ''failed to connect to coordinator''
      | None \<Rightarrow> WorkerRuns (main_worker uuid cap) (Run rounds))"

section \<open>Interleavings\<close>

text \<open>
  The goroutines of one stream. \<open>spawned\<close> holds the assignments whose goroutine has not yet
  marked it as running, \<open>executing\<close> those whose command runs and \<open>finishing\<close> those that have sent
  their result, or failed to, and are about to clear the mark; \<open>receiving\<close> tells whether \<^verbatim>\<open>recvLoop\<close> still runs, and \<open>returned\<close> holds the result of \<^verbatim>\<open>runOnce\<close>.
\<close>

record WorkerProc =
  worker :: Worker
  spawned :: "TaskAssignment list"
  executing :: "TaskAssignment list"
  finishing :: "TaskAssignment list"
  receiving :: bool
  returned :: "(err + unit) option"

definition new_proc :: "Worker \<Rightarrow> WorkerProc" where
  "new_proc w = \<lparr>worker = w, spawned = [], executing = [], finishing = [], receiving = True, returned = None\<rparr>"

text \<open>
  What a step shows: a message received, the messages of the select loop, or the message that
  reports a task together with what \<^verbatim>\<open>stream.Send\<close> returned for it.
\<close>

datatype wlabel =
    LRecv CoordinatorMessage
  | LSent "WorkerMessage list"
  | LInternal
  | LReport TaskAssignment WorkerMessage "err option"

inductive worker_step :: "WorkerProc \<Rightarrow> wlabel \<Rightarrow> WorkerProc \<Rightarrow> bool" where
  recv: "receiving p \<Longrightarrow> recv_message msg = (start, sleep) \<Longrightarrow>
    worker_step p (LRecv msg)
      (p\<lparr>spawned := spawned p @ (case start of None \<Rightarrow> [] | Some a \<Rightarrow> [a])\<rparr>)"
| recv_end: "receiving p \<Longrightarrow> worker_step p LInternal (p\<lparr>receiving := False\<rparr>)"
| start: "a \<in> set (spawned p) \<Longrightarrow>
    worker_step p LInternal
      (p\<lparr>worker := executeTask_begin a (worker p), spawned := remove1 a (spawned p),
         executing := a # executing p\<rparr>)"
| report: "a \<in> set (executing p) \<Longrightarrow>
    worker_step p (LReport a (result_message (worker p) (task_result run_cmd environ a)) send)
      (p\<lparr>executing := remove1 a (executing p), finishing := a # finishing p\<rparr>)"
| finish: "a \<in> set (finishing p) \<Longrightarrow>
    worker_step p LInternal
      (p\<lparr>worker := executeTask_end a (worker p), finishing := remove1 a (finishing p)\<rparr>)"
| select: "returned p = None \<Longrightarrow>
    (\<And>now ids send. ev = HbTick now ids send \<Longrightarrow> range_order (w_running (worker p)) ids) \<Longrightarrow>
    (\<And>e. ev = RecvErrCh e \<Longrightarrow> \<not> receiving p) \<Longrightarrow>
    select_round ev (worker p) = (sent, res) \<Longrightarrow>
    worker_step p (LSent sent) (p\<lparr>returned := res\<rparr>)"

inductive worker_run :: "WorkerProc \<Rightarrow> wlabel list \<Rightarrow> WorkerProc \<Rightarrow> bool" where
  init: "worker_run p [] p"
| step: "worker_run p ls q \<Longrightarrow> worker_step q l q' \<Longrightarrow> worker_run p (ls @ [l]) q'"

text \<open>
  The assignments that a trace received, those whose result was sent, and those whose result was
  dropped because \<^verbatim>\<open>Send\<close> failed.
\<close>

fun received :: "wlabel list \<Rightarrow> TaskAssignment list" where
  "received [] = []"
| "received (LRecv (CM_TaskAssignment a) # ls) = a # received ls"
| "received (_ # ls) = received ls"

fun reported :: "wlabel list \<Rightarrow> TaskAssignment list" where
  "reported [] = []"
| "reported (LReport a msg None # ls) = a # reported ls"
| "reported (_ # ls) = reported ls"

fun dropped :: "wlabel list \<Rightarrow> TaskAssignment list" where
  "dropped [] = []"
| "dropped (LReport a msg (Some e) # ls) = a # dropped ls"
| "dropped (_ # ls) = dropped ls"

text \<open>The assignments whose goroutine is between its two critical sections.\<close>

definition active_tasks :: "WorkerProc \<Rightarrow> TaskAssignment list" where
  "active_tasks p = executing p @ finishing p"

end
