(* ===== verification/Stream_Service.thy ===== *)
theory Stream_Service
  imports Coordinator Proto_Messages
begin

text \<open>
  The network side of the coordinator: the stream handler of \<^verbatim>\<open>internal/worker/worker.go\<close>
  and the gRPC service of \<^verbatim>\<open>cmd/coordinator/main.go\<close>. What arrives on a stream is a list of
  inputs; what is sent is a list of messages. Other goroutines use the coordinator between
  two inputs of a stream: \<open>env i\<close> is what they do before the \<open>i\<close>-th input is handled.
\<close>

section \<open>The worker stream\<close>

datatype recv_event =
    Cancelled err
  | RecvEOF
  | RecvError err
  | RecvMsg WorkerMessage

text \<open>
  One round of the loop: what it receives, and what the calls it makes read from the clock,
  draw as UUIDs and get back from \<^verbatim>\<open>stream.Send\<close>.
\<close>

record stream_input =
  si_event :: recv_event
  si_now :: i64
  si_uuid :: string
  si_clk :: "nat \<Rightarrow> clock"
  si_send :: "err option"

definition handleTaskRequest ::
    "'b bolt \<Rightarrow> stream_input \<Rightarrow> 'b Coordinator \<Rightarrow> string
     \<Rightarrow> 'b Coordinator \<times> CoordinatorMessage list \<times> (err + unit)" where
  "handleTaskRequest B inp c workerID =
     (case GetReadyTask B (si_now inp) (si_uuid inp) c workerID of
        (c, Inl e) \<Rightarrow> (c, [], Inl e)
      | (c, Inr given) \<Rightarrow>
          (c, [case given of Some task \<Rightarrow> CM_TaskAssignment task | None \<Rightarrow> CM_NoTask 1000],
           (case si_send inp of None \<Rightarrow> Inr () | Some e \<Rightarrow> Inl e)))"

definition handleHeartbeat :: "'b Coordinator \<Rightarrow> string \<Rightarrow> HeartbeatMsg \<Rightarrow> 'b Coordinator" where
  "handleHeartbeat c workerID hb =
     UpdateWorkerHeartbeat c workerID (TimestampUnixMs hb) (RunningTaskIds hb)"

text \<open>Errors of the coordinator are logged and dropped.\<close>

definition handleTaskResult ::
    "'b bolt \<Rightarrow> stream_input \<Rightarrow> 'b Coordinator \<Rightarrow> TaskResult \<Rightarrow> 'b Coordinator \<times> (err + unit)" where
  "handleTaskResult B inp c result =
     (case (if tr_Success result
            then Coordinator_CompleteTask B (si_clk inp) c (tr_TaskId result) (tr_ExecutionId result) (tr_Output result)
            else Coordinator_FailTask B (si_clk inp) (si_uuid inp) c (tr_TaskId result) (tr_ExecutionId result)
                   (tr_Error result)) of
        (c, r) \<Rightarrow> (c, if panics r then r else Inr ()))"

definition handleMessage ::
    "'b bolt \<Rightarrow> stream_input \<Rightarrow> 'b Coordinator \<Rightarrow> string \<Rightarrow> WorkerPayload
     \<Rightarrow> 'b Coordinator \<times> CoordinatorMessage list \<times> (err + unit)" where
  "handleMessage B inp c workerID payload =
     (case payload of
        WM_TaskRequest capacity \<Rightarrow> handleTaskRequest B inp c workerID
      | WM_Heartbeat hb \<Rightarrow> (handleHeartbeat c workerID hb, [], Inr ())
      | WM_TaskResult result \<Rightarrow> (case handleTaskResult B inp c result of (c, r) \<Rightarrow> (c, [], r))
      | WM_None \<Rightarrow> (c, [], Inr ()))"

text \<open>The loop of \<^verbatim>\<open>HandleStream\<close>; a result of \<^term>\<open>None\<close> means that it waits for the next input.\<close>

fun stream_loop ::
    "'b bolt \<Rightarrow> (nat \<Rightarrow> 'b Coordinator \<Rightarrow> 'b Coordinator) \<Rightarrow> nat \<Rightarrow> string \<Rightarrow> stream_input list
     \<Rightarrow> 'b Coordinator \<Rightarrow> 'b Coordinator \<times> CoordinatorMessage list \<times> (err + unit) option" where
  "stream_loop B env i workerID [] c = (c, [], None)"
| "stream_loop B env i workerID (inp # inputs) c =
     (case si_event inp of
        Cancelled e \<Rightarrow> (c, [], Some (Inl e))
      | RecvEOF \<Rightarrow> (c, [], Some (Inr ()))
      | RecvError e \<Rightarrow> (c, [], Some (Inl e))
      | RecvMsg msg \<Rightarrow>
          (let workerID = (if workerID = [] then wm_WorkerId msg else workerID) in
           case handleMessage B inp (env i c) workerID (wm_Payload msg) of
             (c, sent, Inl e) \<Rightarrow> (c, sent, Some (Inl e))
           | (c, sent, Inr _) \<Rightarrow>
               (case stream_loop B env (Suc i) workerID inputs c of
                  (c, later, r) \<Rightarrow> (c, sent @ later, r))))"

definition HandleStream ::
    "'b bolt \<Rightarrow> (nat \<Rightarrow> 'b Coordinator \<Rightarrow> 'b Coordinator) \<Rightarrow> stream_input list
     \<Rightarrow> 'b Coordinator \<Rightarrow> 'b Coordinator \<times> CoordinatorMessage list \<times> (err + unit) option" where
  "HandleStream B env inputs c = stream_loop B env 0 [] inputs c"

section \<open>The gRPC service\<close>

text \<open>
  An error of the coordinator becomes a response with \<^verbatim>\<open>Success: false\<close>; only a panic leaves
  the handler without a response.
\<close>

definition Service_SubmitWorkflow ::
    "'b bolt \<Rightarrow> (nat \<Rightarrow> clock) \<Rightarrow> (nat \<Rightarrow> string list) \<Rightarrow> 'b Coordinator \<Rightarrow> WorkflowSpec
     \<Rightarrow> 'b Coordinator \<times> (err + SubmitWorkflowResponse)" where
  "Service_SubmitWorkflow B clk ords c workflow =
     (case SubmitWorkflow B clk ords c workflow of
        (c, Inl e) \<Rightarrow>
          (c, if fatal e then Inl e
              else Inr \<lparr>swr_WorkflowId = WorkflowId workflow, swr_Success = False, swr_Error = Error_String e\<rparr>)
      | (c, Inr _) \<Rightarrow>
          (c, Inr \<lparr>swr_WorkflowId = WorkflowId workflow, swr_Success = True, swr_Error = []\<rparr>))"

definition GetWorkflowStatus :: "'b bolt \<Rightarrow> 'b DB \<Rightarrow> string \<Rightarrow> err + WorkflowStatus" where
  "GetWorkflowStatus B db workflowID =
     (case GetWorkflowState B db workflowID of
        Inl e \<Rightarrow> Inl e
      | Inr wfState \<Rightarrow>
          (case GetTaskStatusesForWorkflow B db workflowID of
             (_, Some e) \<Rightarrow> Inl e
           | (taskStatuses, None) \<Rightarrow>
               Inr \<lparr>ws_WorkflowId = workflowID, ws_State = wsr_State wfState,
                    ws_TaskStatuses = taskStatuses, ws_SubmittedAtUnixMs = SubmittedAtMs wfState,
                    ws_CompletedAtUnixMs = CompletedAtMs wfState\<rparr>))"

definition Service_CancelWorkflow ::
    "'b bolt \<Rightarrow> (nat \<Rightarrow> clock) \<Rightarrow> 'b Coordinator \<Rightarrow> string \<Rightarrow> 'b Coordinator \<times> (err + CancelWorkflowResponse)" where
  "Service_CancelWorkflow B clk c workflowID =
     (case CancelWorkflow B clk c workflowID of
        (c, Inl e) \<Rightarrow>
          (c, if fatal e then Inl e else Inr \<lparr>cwr_Success = False, cwr_Error = Error_String e\<rparr>)
      | (c, Inr _) \<Rightarrow> (c, Inr \<lparr>cwr_Success = True, cwr_Error = []\<rparr>))"

definition WorkerStream ::
    "'b bolt \<Rightarrow> (nat \<Rightarrow> 'b Coordinator \<Rightarrow> 'b Coordinator) \<Rightarrow> stream_input list
     \<Rightarrow> 'b Coordinator \<Rightarrow> 'b Coordinator \<times> CoordinatorMessage list \<times> (err + unit) option" where
  "WorkerStream B env inputs c = HandleStream B env inputs c"

end
