(* ===== verification/Service_Props.thy ===== *)
theory Service_Props
  imports Stream_Service Coord_Failure
begin

text \<open>
  Properties of the network side: a worker stream, whatever it receives and whatever handlers other
  goroutines run meanwhile, moves the coordinator along steps of the transition system, so
  the guarantees of the reachable states reach the wire; a stream has one worker identity
  and survives refused reports; the status call reports what the store holds.
\<close>

section \<open>What a stream may send\<close>

text \<open>
  Between two inputs of a stream, other goroutines run handlers of the coordinator to their end: any
  number of them, with failing commits, scans and restarts, and submissions of new task ids.
\<close>

definition env_ok :: "'b bolt \<Rightarrow> (nat \<Rightarrow> 'b Coordinator \<Rightarrow> 'b Coordinator) \<Rightarrow> bool" where
  "env_ok B env \<longleftrightarrow> (\<forall>i d. reachable B d \<longrightarrow> (fresh_step B)\<^sup>*\<^sup>* d (env i d))"

text \<open>
  An assignment that is right in the coordinator \<open>d\<close>, for worker \<open>k\<close>: it says what the specification
  of the task says, \<open>d\<close> has the task down as assigned to \<open>k\<close> under its execution id, the task is RUNNING
  in the store of \<open>d\<close>, and all its dependencies are COMPLETE there.
\<close>

definition justified_in :: "'b bolt \<Rightarrow> string \<Rightarrow> 'b Coordinator \<Rightarrow> TaskAssignment \<Rightarrow> bool" where
  "justified_in B k d a \<longleftrightarrow>
     (\<exists>s r. taskSpecCache d (ta_TaskId a) = Some s \<and> TaskId s = ta_TaskId a \<and>
        ta_Command a = Command s \<and> ta_Env a = Env s \<and> ta_TimeoutSeconds a = TimeoutSeconds s \<and>
        assignedTasks d (ta_TaskId a) = Some (ta_ExecutionId a) \<and> runningTasks d (ta_TaskId a) = Some k \<and>
        task_table B (state d) (ta_TaskId a) = Some r \<and> State r = TASK_RUNNING \<and>
        ExecutionID r = ta_ExecutionId a \<and>
        (\<forall>t\<in>set (Dependencies s). \<exists>rt. task_table B (state d) t = Some rt \<and> State rt = TASK_COMPLETE))"

text \<open>The errors that may end a stream: those of the stream itself.\<close>

fun stream_errors :: "stream_input \<Rightarrow> err set" where
  "stream_errors inp =
     (case si_event inp of Cancelled e \<Rightarrow> {e} | RecvError e \<Rightarrow> {e} | RecvEOF \<Rightarrow> {}
      | RecvMsg m \<Rightarrow> set_option (si_send inp))"

text \<open>The worker that a stream belongs to: the first id that is not empty.\<close>

fun stream_worker :: "string \<Rightarrow> stream_input list \<Rightarrow> string" where
  "stream_worker k [] = k"
| "stream_worker k (inp # inputs) =
     stream_worker (case si_event inp of RecvMsg msg \<Rightarrow> if k = [] then wm_WorkerId msg else k | _ \<Rightarrow> k) inputs"

section \<open>What the stream handler needs of the coordinator\<close>

text \<open>
  The contract between the stream handler and the coordinator: \<open>ok\<close> is kept by the four calls
  the handler makes, none of which panics, and what is handed to worker \<open>k\<close> is \<open>good\<close> in the
  coordinator that the call leaves.
\<close>

locale coordinator_api =
  fixes B :: "'b bolt" and ok :: "'b Coordinator \<Rightarrow> bool"
    and good :: "string \<Rightarrow> 'b Coordinator \<Rightarrow> TaskAssignment \<Rightarrow> bool"
  assumes get: "ok c \<Longrightarrow> \<exists>c' given. GetReadyTask B now uid c k = (c', Inr given) \<and> ok c' \<and>
      (\<forall>a. given = Some a \<longrightarrow> good k c' a)"
    and complete: "ok c \<Longrightarrow> Coordinator_CompleteTask B clk c t e out = (c', r) \<Longrightarrow> ok c' \<and> \<not> panics r"
    and fail: "ok c \<Longrightarrow> Coordinator_FailTask B clk uid c t e msg = (c', r) \<Longrightarrow> ok c' \<and> \<not> panics r"
    and beat: "ok c \<Longrightarrow> ok (UpdateWorkerHeartbeat c k ts ids)"
begin

lemma handleTaskRequest_ok:
  assumes "ok c" and "handleTaskRequest B inp c k = (c', sent, res)"
  shows "ok c' \<and> (\<forall>a. CM_TaskAssignment a \<in> set sent \<longrightarrow> good k c' a) \<and> (\<forall>e. res = Inl e \<longrightarrow> si_send inp = Some e)"
proof -
  obtain d given where "GetReadyTask B (si_now inp) (si_uuid inp) c k = (d, Inr given)" "ok d"
    "\<forall>a. given = Some a \<longrightarrow> good k d a"
    using get [OF assms(1)] by blast
  with assms(2) show ?thesis by (auto simp: handleTaskRequest_def split: option.splits)
qed

lemma handleTaskResult_ok:
  assumes "ok c" and "handleTaskResult B inp c r = (c', res)"
  shows "ok c' \<and> res = Inr ()"
  using assms(2) complete [OF assms(1)] fail [OF assms(1)]
  by (auto simp: handleTaskResult_def split: prod.splits if_splits)

lemma handleMessage_ok:
  assumes "ok c" and "handleMessage B inp c k payload = (c', sent, res)"
  shows "ok c' \<and> (\<forall>a. CM_TaskAssignment a \<in> set sent \<longrightarrow> good k c' a) \<and> (\<forall>e. res = Inl e \<longrightarrow> si_send inp = Some e)"
proof (cases payload)
  case (WM_TaskRequest n)
  with assms handleTaskRequest_ok [OF assms(1)] show ?thesis by (simp add: handleMessage_def)
next
  case (WM_Heartbeat h)
  with assms beat [OF assms(1)] show ?thesis by (auto simp: handleMessage_def handleHeartbeat_def)
next
  case (WM_TaskResult r)
  with assms handleTaskResult_ok [OF assms(1), of inp r] show ?thesis
    by (auto simp: handleMessage_def split: prod.splits)
next
  case WM_None
  with assms show ?thesis by (auto simp: handleMessage_def)
qed

text \<open>One round: what is sent is good in the coordinator that the round leaves.\<close>

lemma stream_round_ok:
  assumes env: "\<And>i d. ok d \<Longrightarrow> ok (env i d)"
    and "ok c" and "stream_loop B env i k [inp] c = (c', sent, res)"
  shows "ok c' \<and> (\<forall>a. CM_TaskAssignment a \<in> set sent \<longrightarrow> good (stream_worker k [inp]) c' a) \<and>
    (\<forall>e. res = Some (Inl e) \<longrightarrow> e \<in> stream_errors inp)"
proof (cases "si_event inp")
  case (RecvMsg msg)
  define wid where "wid = (if k = [] then wm_WorkerId msg else k)"
  obtain c1 s1 r1 where h: "handleMessage B inp (env i c) wid (wm_Payload msg) = (c1, s1, r1)" by (metis prod_cases3)
  with assms(3) RecvMsg have "c' = c1 \<and> sent = s1 \<and> res = (case r1 of Inl e \<Rightarrow> Some (Inl e) | Inr _ \<Rightarrow> None)"
    by (cases r1) (auto simp: wid_def Let_def)
  with handleMessage_ok [OF env [OF assms(2)] h] RecvMsg show ?thesis
    by (auto simp: wid_def split: sum.splits)
qed (use assms in auto)

text \<open>A stream that still waits after the inputs \<open>pre\<close> takes the next input from there.\<close>

lemma stream_loop_ok:
  assumes env: "\<And>i d. ok d \<Longrightarrow> ok (env i d)"
    and "ok c" and "stream_loop B env i k pre c = (c1, sent1, None)"
    and "stream_loop B env i k (pre @ [inp]) c = (c2, sent2, res)"
  shows "\<exists>new. sent2 = sent1 @ new \<and> ok c2 \<and>
    (\<forall>a. CM_TaskAssignment a \<in> set new \<longrightarrow> good (stream_worker k (pre @ [inp])) c2 a) \<and>
    (\<forall>e. res = Some (Inl e) \<longrightarrow> e \<in> stream_errors inp)"
  using assms(2-4)
proof (induction pre arbitrary: i k c sent1 sent2)
  case Nil
  then have "sent1 = []" "stream_loop B env i k [inp] c = (c2, sent2, res)" by simp_all
  with stream_round_ok [OF env Nil.prems(1) this(2)] show ?case by simp
next
  case (Cons m pre)
  from Cons.prems(2) obtain msg where msg: "si_event m = RecvMsg msg"
    by (cases "si_event m") auto
  define wid where "wid = (if k = [] then wm_WorkerId msg else k)"
  obtain d s1 r1 where h: "handleMessage B m (env i c) wid (wm_Payload msg) = (d, s1, r1)" by (metis prod_cases3)
  from Cons.prems(2) msg h obtain u where r1: "r1 = Inr u" by (cases r1) (auto simp: wid_def Let_def)
  obtain later1 where l1: "stream_loop B env (Suc i) wid pre d = (c1, later1, None)" "sent1 = s1 @ later1"
    using Cons.prems(2) msg h r1 by (auto simp: wid_def Let_def split: prod.splits)
  obtain later2 where l2: "stream_loop B env (Suc i) wid (pre @ [inp]) d = (c2, later2, res)" "sent2 = s1 @ later2"
    using Cons.prems(3) msg h r1 by (auto simp: wid_def Let_def split: prod.splits)
  have "ok d" using handleMessage_ok [OF env [OF Cons.prems(1)] h] by simp
  from Cons.IH [OF this l1(1) l2(1)] show ?case using l1(2) l2(2) msg by (auto simp: wid_def)
qed

end

text \<open>The coordinator over any database that meets its contract provides it, for the reachable states.\<close>

sublocale bolt_spec \<subseteq> api: coordinator_api B "reachable B" "justified_in B"
proof unfold_locales
  fix c now uid k assume c: "reachable B c"
  note inv = reachable_inv [OF c]
  obtain c' given where g: "GetReadyTask B now uid c k = (c', Inr given)"
    by (rule GetReadyTask_keeps [OF inv, of now uid k])
  have c': "reachable B c'" by (rule reachable_next [OF c sys_step.dispatch [OF g]])
  have "justified_in B k c' a" if "given = Some a" for a
  proof -
    have g': "GetReadyTask B now uid c k = (c', Inr (Some a))" using g that by simp
    obtain s where s: "taskSpecCache c (ta_TaskId a) = Some s" "taskSpecCache c' = taskSpecCache c"
      "a = \<lparr>ta_TaskId = ta_TaskId a, ta_ExecutionId = uid, ta_Command = Command s, ta_Env = Env s,
          ta_TimeoutSeconds = TimeoutSeconds s\<rparr>"
      "assignedTasks c' = (assignedTasks c)(ta_TaskId a \<mapsto> uid)" "runningTasks c' = (runningTasks c)(ta_TaskId a \<mapsto> k)"
      by (rule GetReadyTask_given [OF inv g'])
    have f: "ta_ExecutionId a = uid" "ta_Command a = Command s" "ta_Env a = Env s" "ta_TimeoutSeconds a = TimeoutSeconds s"
      by (subst s(3), simp)+
    show ?thesis
      by (rule dispatched_dependencies_complete [OF inv g']) (use s(1,2,4,5) f in \<open>auto simp: justified_in_def\<close>)
  qed
  with g c' show "\<exists>c' given. GetReadyTask B now uid c k = (c', Inr given) \<and> reachable B c' \<and>
      (\<forall>a. given = Some a \<longrightarrow> justified_in B k c' a)" by blast
next
  fix c clk t e out c' r
  assume c: "reachable B c" and r: "Coordinator_CompleteTask B clk c t e out = (c', r)"
  have "\<not> panics r"
    by (rule Coordinator_CompleteTask_cases [OF reachable_inv [OF c], of t e clk out]) (use r in \<open>auto simp: fatal_def\<close>)
  with reachable_next [OF c sys_step.complete [OF r]] show "reachable B c' \<and> \<not> panics r" by simp
next
  fix c clk uid t e msg c' r
  assume c: "reachable B c" and r: "Coordinator_FailTask B clk uid c t e msg = (c', r)"
  have "\<not> panics r"
    by (rule Coordinator_FailTask_cases [OF reachable_inv [OF c], of t e clk uid msg]) (use r in \<open>auto simp: fatal_def\<close>)
  with reachable_next [OF c sys_step.fail [OF r]] show "reachable B c' \<and> \<not> panics r" by simp
next
  fix c k ts ids assume "reachable B c"
  then show "reachable B (UpdateWorkerHeartbeat c k ts ids)"
    by (rule reachable_next [OF _ sys_step.heartbeat [OF refl]])
qed

context bolt_spec
begin

lemma coordinator_api_reachable: "coordinator_api B (reachable B) (justified_in B)"
  by (rule api.coordinator_api_axioms)

end

interpretation list_api: coordinator_api list_bolt "reachable list_bolt" "justified_in list_bolt"
  by (rule bolt_spec.coordinator_api_reachable [OF lb.bolt_spec_axioms])

lemma reachable_steps:
  assumes "(fresh_step B)\<^sup>*\<^sup>* c c'" and "reachable B c"
  shows "reachable B c'"
  using assms by (induction rule: rtranclp_induct) (auto intro: reachable.step)

section \<open>Status\<close>

lemma map_filter_filter:
  "List.map_filter (\<lambda>k. if P k then None else Some (f k)) xs = map f (filter (\<lambda>k. \<not> P k) xs)"
  by (induction xs) simp_all

context bolt_spec
begin

lemma statuses_table:
  assumes "tasks_wf B db"
  shows "GetTaskStatusesForWorkflow B db w =
    (map (\<lambda>t. status_of (the (task_table B db t)))
       (filter (\<lambda>t. WorkflowID (the (task_table B db t)) = w) (task_keys B db)), None)"
  unfolding GetTaskStatusesForWorkflow_def scan_table [OF assms] by (simp add: map_filter_filter)

lemma status_answer:
  assumes "reachable B c"
  shows "case wf_table B (state c) w of
      None \<Rightarrow> GetWorkflowStatus B (state c) w = Inl ErrWorkflowNotFound
    | Some rec \<Rightarrow> GetWorkflowStatus B (state c) w =
        Inr \<lparr>ws_WorkflowId = w, ws_State = wsr_State rec,
             ws_TaskStatuses = map (\<lambda>t. status_of (the (task_table B (state c) t)))
               (filter (\<lambda>t. WorkflowID (the (task_table B (state c) t)) = w) (task_keys B (state c))),
             ws_SubmittedAtUnixMs = SubmittedAtMs rec, ws_CompletedAtUnixMs = CompletedAtMs rec\<rparr>"
proof -
  note wf = reachable_store(1,2) [OF assms]
  have "GetWorkflowState B (state c) w =
      (case wf_table B (state c) w of None \<Rightarrow> Inl ErrWorkflowNotFound | Some rec \<Rightarrow> Inr rec)"
    using wf(2) by (cases rule: wf_bucket_cases [of "state c" w])
      (auto simp: GetWorkflowState_def workflow_state_roundtrip wf_record_ok_def)
  then show ?thesis
    by (simp add: GetWorkflowStatus_def statuses_table [OF wf(1)] split: option.split)
qed

end

section \<open>Properties\<close>

text \<open>
  C2. End to end: take a worker stream of a reachable coordinator that has handled the inputs \<open>pre\<close>
  and waits, while other goroutines ran any handlers to their end in between, submissions with new
  task ids among them. What the stream sends for its next input is right in the coordinator as that
  input leaves it: an assignment carries the command, environment and timeout of the task's
  specification, the task is assigned to the worker of this stream and is RUNNING in the store under
  the execution id of the message, and all its dependencies are COMPLETE there. Only an error of the
  stream itself, never a refused report, ends the stream.
\<close>

theorem streams_only_send_justified_assignments:
  assumes "bolt_spec B" and "reachable B c" and "env_ok B env"
    and "HandleStream B env pre c = (c1, sent1, None)"
    and "HandleStream B env (pre @ [inp]) c = (c2, sent2, res)"
  shows "\<exists>new. sent2 = sent1 @ new \<and> reachable B c2 \<and>
    (\<forall>a. CM_TaskAssignment a \<in> set new \<longrightarrow> justified_in B (stream_worker [] (pre @ [inp])) c2 a) \<and>
    (\<forall>e. res = Some (Inl e) \<longrightarrow> e \<in> stream_errors inp)"
proof -
  have env: "reachable B (env i d)" if "reachable B d" for i d
    using assms(3) that unfolding env_ok_def by (intro reachable_steps [of B d "env i d"]) simp_all
  show ?thesis
    by (rule coordinator_api.stream_loop_ok [OF bolt_spec.coordinator_api_reachable [OF assms(1)] env assms(2)
          assms(4,5) [unfolded HandleStream_def]])
qed

definition sample_input :: "recv_event \<Rightarrow> string \<Rightarrow> stream_input" where
  "sample_input ev uid = \<lparr>si_event = ev, si_now = 7, si_uuid = uid, si_clk = (\<lambda>_ _. 7), si_send = None\<rparr>"

definition request_from :: "string \<Rightarrow> recv_event" where
  "request_from k = RecvMsg \<lparr>wm_WorkerId = k, wm_Payload = WM_TaskRequest 1\<rparr>"

theorem streams_only_send_justified_assignments_witness:
  "\<exists>a. HandleStream list_bolt (\<lambda>_ d. d) [sample_input (request_from ''k'') ''e2''] run3 = (run4, [CM_TaskAssignment a], None) \<and>
     ta_TaskId a = ''b'' \<and> justified_in list_bolt ''k'' run4 a"
proof -
  let ?a = "\<lparr>ta_TaskId = ''b'', ta_ExecutionId = ''e2'', ta_Command = ''make'', ta_Env = [], ta_TimeoutSeconds = 0\<rparr>"
  let ?inp = "sample_input (request_from ''k'') ''e2''"
  have r: "HandleStream list_bolt (\<lambda>_ d. d) ([] @ [?inp]) run3 = (run4, [CM_TaskAssignment ?a], None)"
    by (simp add: HandleStream_def sample_input_def request_from_def handleMessage_def handleTaskRequest_def coord_results)
  have w: "HandleStream list_bolt (\<lambda>_ d. d) [] run3 = (run3, [], None)" by (simp add: HandleStream_def)
  have "justified_in list_bolt ''k'' run4 ?a"
    using streams_only_send_justified_assignments [OF lb.bolt_spec_axioms reachable_runs(3) _ w r]
    by (simp add: env_ok_def sample_input_def request_from_def)
  with r show ?thesis by auto
qed

text \<open>
  A stream has one identity: once the first message has named the worker, the worker
  ids of later messages are ignored, so a worker cannot take tasks or send heartbeats in
  another worker's name on its stream.
\<close>

definition rename_worker :: "(string \<Rightarrow> string) \<Rightarrow> stream_input \<Rightarrow> stream_input" where
  "rename_worker f inp =
     (case si_event inp of
        RecvMsg msg \<Rightarrow> inp\<lparr>si_event := RecvMsg (msg\<lparr>wm_WorkerId := f (wm_WorkerId msg)\<rparr>)\<rparr>
      | _ \<Rightarrow> inp)"

lemma handleMessage_rename: "handleMessage B (inp\<lparr>si_event := ev\<rparr>) c k p = handleMessage B inp c k p"
  by (simp add: handleMessage_def handleTaskRequest_def handleTaskResult_def split: WorkerPayload.split)

theorem stream_identity_is_fixed:
  assumes "k \<noteq> []"
  shows "stream_loop B env i k (map (rename_worker f) inputs) c = stream_loop B env i k inputs c"
  using assms
proof (induction inputs arbitrary: i c)
  case (Cons inp inputs)
  then show ?case
    by (cases "si_event inp")
       (auto simp: rename_worker_def handleMessage_rename split: prod.split sum.split)
qed simp

theorem stream_identity_is_fixed_witness:
  "stream_loop list_bolt (\<lambda>_ d. d) 0 ''k'' (map (rename_worker (\<lambda>_. ''mallory'')) [sample_input (request_from ''k'') ''e2'']) run3 =
   stream_loop list_bolt (\<lambda>_ d. d) 0 ''k'' [sample_input (request_from ''k'') ''e2''] run3"
  by (rule stream_identity_is_fixed) simp

text \<open>
  C27. The status call reports the store: an unknown workflow is answered \<^verbatim>\<open>ErrWorkflowNotFound\<close>;
  otherwise the answer carries the stored state and times of the workflow and the status
  of each of its tasks, once each and in key order, and of no other task.
\<close>

theorem status_reports_the_store:
  assumes "bolt_spec B" and "reachable B c"
  shows "case wf_table B (state c) w of
      None \<Rightarrow> GetWorkflowStatus B (state c) w = Inl ErrWorkflowNotFound
    | Some rec \<Rightarrow> \<exists>st. GetWorkflowStatus B (state c) w = Inr st \<and> ws_WorkflowId st = w \<and>
        ws_State st = wsr_State rec \<and> ws_SubmittedAtUnixMs st = SubmittedAtMs rec \<and>
        ws_CompletedAtUnixMs st = CompletedAtMs rec \<and>
        ws_TaskStatuses st = map (\<lambda>t. status_of (the (task_table B (state c) t)))
          (filter (\<lambda>t. WorkflowID (the (task_table B (state c) t)) = w) (task_keys B (state c)))"
  using bolt_spec.status_answer [OF assms, of w] by (simp split: option.splits)

theorem status_reports_the_store_witness:
  "\<exists>st. GetWorkflowStatus list_bolt (state run3) ''w'' = Inr st \<and> ws_State st = WORKFLOW_RUNNING"
  using status_reports_the_store [OF lb.bolt_spec_axioms reachable_runs(3), of "''w''"] by auto

end
