(* ===== verification/Worker_Props.thy ===== *)
theory Worker_Props
  imports Worker_Proc Service_Props
begin

text \<open>
  Properties of the worker process: the results it sends are bounded and faithful to the
  command that ran, its goroutines lose and invent no assignment, its waits between
  connections are bounded, and its report completes the task at the coordinator.
\<close>

section \<open>Goroutines\<close>

lemma received_append [simp]: "received (ks @ ls) = received ks @ received ls"
  by (induction ks rule: received.induct) simp_all

lemma reported_append [simp]: "reported (ks @ ls) = reported ks @ reported ls"
  by (induction ks rule: reported.induct) simp_all

lemma dropped_append [simp]: "dropped (ks @ ls) = dropped ks @ dropped ls"
  by (induction ks rule: dropped.induct) simp_all

definition conserves :: "WorkerProc \<Rightarrow> wlabel list \<Rightarrow> bool" where
  "conserves p ls \<longleftrightarrow>
     mset (received ls) = mset (spawned p) + mset (executing p) + mset (reported ls) + mset (dropped ls)"

lemma worker_step_conserves: "worker_step p l q \<Longrightarrow> conserves p ls \<Longrightarrow> conserves q (ls @ [l])"
proof (induction rule: worker_step.induct)
  case (recv p msg start sleep)
  then show ?case by (cases msg) (auto simp: conserves_def)
next
  case (report a p run_cmd environ send)
  then show ?case by (cases send) (auto simp: conserves_def)
qed (auto simp: conserves_def)

text \<open>
  While no task id is received twice, the ids of the goroutines are distinct and \<^verbatim>\<open>running\<close> holds
  exactly those of the active ones.
\<close>

definition all_tasks :: "WorkerProc \<Rightarrow> TaskAssignment list" where
  "all_tasks p = spawned p @ active_tasks p"

definition proc_inv :: "Worker \<Rightarrow> wlabel list \<Rightarrow> WorkerProc \<Rightarrow> bool" where
  "proc_inv w ls p \<longleftrightarrow> w_id (worker p) = w_id w \<and> w_capacity (worker p) = w_capacity w \<and>
     distinct (map ta_TaskId (all_tasks p)) \<and> set (all_tasks p) \<subseteq> set (received ls) \<and>
     dom (w_running (worker p)) = ta_TaskId ` set (active_tasks p)"

lemma distinct_remove1_map:
  assumes "distinct (map f xs)" and "a \<in> set xs"
  shows "f ` set (remove1 a xs) = f ` set xs - {f a}" and "distinct (map f (remove1 a xs))"
proof -
  have d: "distinct xs" using assms(1) by (rule distinct_map [THEN iffD1, THEN conjunct1])
  have i: "inj_on f (set xs)" using assms(1) by (simp add: distinct_map)
  show "f ` set (remove1 a xs) = f ` set xs - {f a}"
    using i assms(2) by (simp add: set_remove1_eq [OF d] inj_on_image_set_diff [OF i])
  show "distinct (map f (remove1 a xs))"
    using d i by (auto simp: distinct_map set_remove1_eq [OF d] intro: inj_on_subset)
qed

lemma worker_step_inv:
  assumes "worker_step p l q" and "proc_inv w ls p" and "distinct (map ta_TaskId (received (ls @ [l])))"
  shows "proc_inv w (ls @ [l]) q"
  using assms
proof (induction rule: worker_step.induct)
  case (recv p msg start sleep)
  show ?case
  proof (cases msg)
    case (CM_TaskAssignment a)
    with recv.prems(2) have "ta_TaskId a \<notin> ta_TaskId ` set (received ls)" by simp
    with recv.prems(1) have "ta_TaskId a \<notin> ta_TaskId ` set (all_tasks p)" unfolding proc_inv_def by blast
    then have "ta_TaskId x \<noteq> ta_TaskId a" if "x \<in> set (all_tasks p)" for x using that by (metis imageI)
    with recv CM_TaskAssignment show ?thesis by (auto simp: proc_inv_def all_tasks_def active_tasks_def image_iff)
  qed (use recv in \<open>auto simp: proc_inv_def all_tasks_def active_tasks_def\<close>)
next
  case (start a p)
  note R = distinct_remove1_map [of ta_TaskId "spawned p" a]
  from start show ?case
    by (auto simp: proc_inv_def all_tasks_def active_tasks_def executeTask_begin_def image_Un R dest: set_remove1_subset [THEN subsetD])
next
  case (report a p run_cmd environ send)
  note R = distinct_remove1_map [of ta_TaskId "executing p" a]
  from report show ?case
    by (auto simp: proc_inv_def all_tasks_def active_tasks_def image_Un R dest: set_remove1_subset [THEN subsetD])
next
  case (finish a p)
  note R = distinct_remove1_map [of ta_TaskId "finishing p" a]
  from finish show ?case
    by (auto simp: proc_inv_def all_tasks_def active_tasks_def executeTask_end_def image_Un R dest: set_remove1_subset [THEN subsetD])
qed (auto simp: proc_inv_def all_tasks_def active_tasks_def)

lemma worker_run_inv:
  "worker_run p ls q \<Longrightarrow> p = new_proc w \<Longrightarrow> w_running w = Map.empty \<Longrightarrow>
   conserves q ls \<and> (distinct (map ta_TaskId (received ls)) \<longrightarrow> proc_inv w ls q)"
proof (induction rule: worker_run.induct)
  case (step p ls q l q')
  have "distinct (map ta_TaskId (received ls))" if "distinct (map ta_TaskId (received (ls @ [l])))"
    using that by simp
  with step show ?case using worker_step_conserves [of q l q' ls] worker_step_inv [of q l q' w ls] by blast
qed (simp add: proc_inv_def conserves_def new_proc_def all_tasks_def active_tasks_def)

text \<open>\<^verbatim>\<open>recvLoop\<close> takes the receiving steps, and starts the tasks in the order of their assignments.\<close>

lemma recvLoop_run:
  "receiving p \<Longrightarrow> recvLoop (map Inr msgs) = (starts, sleeps, r) \<Longrightarrow>
   worker_run p (map LRecv msgs) (p\<lparr>spawned := spawned p @ starts\<rparr>) \<and> r = None"
proof (induction msgs arbitrary: starts sleeps r rule: rev_induct)
  case Nil
  then show ?case using worker_run.init by simp
next
  case (snoc msg msgs)
  obtain st sl r' where o: "recvLoop (map Inr msgs) = (st, sl, r')" by (metis prod_cases3)
  have app: "recvLoop (map Inr (ms @ [msg])) =
      (case recvLoop (map Inr ms) of (st, sl, _) \<Rightarrow>
        (st @ (case fst (recv_message msg) of None \<Rightarrow> [] | Some a \<Rightarrow> [a]), sl @ [snd (recv_message msg)], None))" for ms
    by (induction ms) (auto split: prod.split option.split)
  note IH = snoc.IH [OF snoc.prems(1) o]
  have "worker_step (p\<lparr>spawned := spawned p @ st\<rparr>) (LRecv msg) (p\<lparr>spawned := spawned p @ starts\<rparr>)"
    using worker_step.recv [of "p\<lparr>spawned := spawned p @ st\<rparr>" msg] snoc.prems app [of msgs] o by (cases "recv_message msg") auto
  with IH app [of msgs] o snoc.prems(2) show ?case by (auto intro: worker_run.step)
qed

lemma sint_free_slots:
  assumes "0 \<le> sint (w_capacity w)" and "runningCount w < 2 ^ 31"
  shows "sint (w_capacity w - of_nat (runningCount w)) = sint (w_capacity w) - int (runningCount w)"
proof -
  have "sint (of_nat (runningCount w) :: i32) = int (runningCount w)"
    using assms(2) by (simp add: signed_of_nat signed_take_bit_int_eq_self)
  moreover have "sint (w_capacity w) < 2 ^ 31" using sint_lt [of "w_capacity w"] by simp
  ultimately show ?thesis
    using assms by (simp add: sint_word_ariths signed_take_bit_int_eq_self)
qed

text \<open>
  A message of the select loop of worker \<open>i\<close> while the assignments \<open>as\<close> are active: a request asks for
  exactly the free slots, of which there is one at least; a heartbeat lists exactly the active
  tasks, once each.
\<close>

definition exact_message :: "string \<Rightarrow> i32 \<Rightarrow> TaskAssignment list \<Rightarrow> WorkerMessage \<Rightarrow> bool" where
  "exact_message i cap as msg \<longleftrightarrow> wm_WorkerId msg = i \<and>
     (case wm_Payload msg of
        WM_TaskRequest n \<Rightarrow> sint n = sint cap - int (length as) \<and> 0 < sint n
      | WM_Heartbeat h \<Rightarrow> distinct (RunningTaskIds h) \<and> set (RunningTaskIds h) = ta_TaskId ` set as
      | _ \<Rightarrow> False)"

lemma runningCount_active:
  assumes "proc_inv w ls p"
  shows "runningCount (worker p) = length (active_tasks p)"
proof -
  have "distinct (map ta_TaskId (active_tasks p))" using assms by (simp add: proc_inv_def all_tasks_def)
  from distinct_card [OF this] show ?thesis using assms by (simp add: proc_inv_def runningCount_def go_len_def)
qed

lemma sent_messages_exact:
  assumes "worker_step p (LSent msgs) q" and "proc_inv w ls p"
    and "0 \<le> sint (w_capacity w)" and "length (active_tasks p) < 2 ^ 31" and "msg \<in> set msgs"
  shows "exact_message (w_id w) (w_capacity w) (active_tasks p) msg"
  using assms sint_free_slots [of "worker p"] runningCount_active [OF assms(2)]
  by (cases rule: worker_step.cases)
     (auto simp: proc_inv_def exact_message_def heartbeat_message_def task_request_def Let_def range_order_def
       elim!: select_round.elims split: option.splits if_splits)

lemma task_request_None:
  assumes "proc_inv w ls p" and "0 \<le> sint (w_capacity w)" and "length (active_tasks p) < 2 ^ 31"
  shows "task_request (worker p) = None \<longleftrightarrow> sint (w_capacity w) \<le> int (length (active_tasks p))"
  using sint_free_slots [of "worker p"] assms runningCount_active [OF assms(1)]
  by (auto simp: task_request_def Let_def proc_inv_def)

text \<open>A worker that receives two tasks, starts both and cannot report the first.\<close>

definition sample_run :: "exec_call \<Rightarrow> exec_outcome" where
  "sample_run x = \<lparr>out_bytes = ''ok'', out_err = None, out_ms = 3, out_deadline = False\<rparr>"

lemma sample_worker_run:
  fixes a b w
  defines "a \<equiv> \<lparr>ta_TaskId = ''t'', ta_ExecutionId = ''e'', ta_Command = ''make'', ta_Env = [], ta_TimeoutSeconds = 0\<rparr>"
    and "b \<equiv> \<lparr>ta_TaskId = ''u'', ta_ExecutionId = ''e'', ta_Command = ''make'', ta_Env = [], ta_TimeoutSeconds = 0\<rparr>"
    and "w \<equiv> NewWorker ''k'' 4"
  shows "worker_run (new_proc w)
     [LRecv (CM_TaskAssignment a), LInternal, LRecv (CM_TaskAssignment b), LInternal,
      LReport a (result_message w (task_result sample_run [] a)) (Some EOF), LInternal]
     ((new_proc w)\<lparr>worker := executeTask_begin b w, executing := [b]\<rparr>)"
proof -
  let ?n = "new_proc w" and ?w1 = "executeTask_begin a w" and ?w2 = "executeTask_begin b (executeTask_begin a w)"
  let ?m = "result_message w (task_result sample_run [] a)"
  have 1: "worker_step ?n (LRecv (CM_TaskAssignment a)) (?n\<lparr>spawned := [a]\<rparr>)"
    using worker_step.recv [of ?n "CM_TaskAssignment a"] by (simp add: new_proc_def)
  have 2: "worker_step (?n\<lparr>spawned := [a]\<rparr>) LInternal (?n\<lparr>worker := ?w1, executing := [a]\<rparr>)"
    using worker_step.start [of a "?n\<lparr>spawned := [a]\<rparr>"] by (simp add: new_proc_def)
  have 3: "worker_step (?n\<lparr>worker := ?w1, executing := [a]\<rparr>) (LRecv (CM_TaskAssignment b))
      (?n\<lparr>worker := ?w1, spawned := [b], executing := [a]\<rparr>)"
    using worker_step.recv [of "?n\<lparr>worker := ?w1, executing := [a]\<rparr>" "CM_TaskAssignment b"] by (simp add: new_proc_def)
  have 4: "worker_step (?n\<lparr>worker := ?w1, spawned := [b], executing := [a]\<rparr>) LInternal (?n\<lparr>worker := ?w2, executing := [b, a]\<rparr>)"
    using worker_step.start [of b "?n\<lparr>worker := ?w1, spawned := [b], executing := [a]\<rparr>"] by (simp add: new_proc_def)
  have ab: "b \<noteq> a" by (simp add: a_def b_def)
  have 5: "worker_step (?n\<lparr>worker := ?w2, executing := [b, a]\<rparr>) (LReport a ?m (Some EOF))
      (?n\<lparr>worker := ?w2, executing := [b], finishing := [a]\<rparr>)"
    using worker_step.report [of a "?n\<lparr>worker := ?w2, executing := [b, a]\<rparr>" sample_run "[]" "Some EOF"] ab
    by (simp add: new_proc_def result_message_def executeTask_begin_def)
  have 6: "worker_step (?n\<lparr>worker := ?w2, executing := [b], finishing := [a]\<rparr>) LInternal
      (?n\<lparr>worker := executeTask_end a ?w2, executing := [b]\<rparr>)"
    using worker_step.finish [of a "?n\<lparr>worker := ?w2, executing := [b], finishing := [a]\<rparr>"] by (simp add: new_proc_def)
  have "executeTask_end a ?w2 = executeTask_begin b w"
    by (simp add: executeTask_end_def executeTask_begin_def a_def b_def w_def NewWorker_def fun_upd_twist)
  with worker_run.step [OF worker_run.step [OF worker_run.step [OF worker_run.step [OF worker_run.step
    [OF worker_run.step [OF worker_run.init 1] 2] 3] 4] 5] 6] show ?thesis by simp
qed

section \<open>Reconnecting\<close>

text \<open>The stream breaks and nobody stops the worker.\<close>

definition lost :: "err \<Rightarrow> run_round" where
  "lost e = \<lparr>done_before = False, once = Inl e, done_after = False, done_waiting = False\<rparr>"

definition backoff_at :: "nat \<Rightarrow> i64" where
  "backoff_at i = second * 2 ^ min i 5"

lemma backoff_at_Suc:
  "(if sint (backoff_at i) < sint maxBackoff then backoff_at i * 2 else backoff_at i) = backoff_at (Suc i)"
proof (cases "i < 5")
  case True
  then have "i = 0 \<or> i = 1 \<or> i = 2 \<or> i = 3 \<or> i = 4" by arith
  then show ?thesis by (elim disjE) (simp_all add: backoff_at_def maxBackoff_def second_def)
next
  case False
  then have "min i 5 = 5" "min (Suc i) 5 = 5" by simp_all
  then show ?thesis by (simp add: backoff_at_def maxBackoff_def second_def)
qed

lemma Run_loop_lost:
  "Run_loop (backoff_at k) (map lost es) = (map backoff_at [k..<k + length es], False)"
proof (induction es arbitrary: k)
  case (Cons e es)
  have "Run_loop (backoff_at k) (map lost (e # es)) =
    (case Run_loop (backoff_at (Suc k)) (map lost es) of (ds, r) \<Rightarrow> (backoff_at k # ds, r))"
    using backoff_at_Suc [of k] by (simp add: lost_def)
  with Cons.IH [of "Suc k"] show ?case by (simp add: upt_conv_Cons del: upt_Suc)
qed simp

text \<open>While the stream keeps breaking, \<^verbatim>\<open>Run\<close> never returns; its waits double from 1 s to 32 s and stay there.\<close>

lemma Run_waits: "Run (map lost es) = (map backoff_at [0..<length es], False)"
  using Run_loop_lost [of 0 es] by (simp add: Run_def backoff_at_def)

text \<open>After \<^verbatim>\<open>Stop\<close>, in whatever round it comes, \<^verbatim>\<open>Run\<close> returns without another connection.\<close>

theorem Run_returns_after_Stop:
  "snd (Run (before @ Worker_Stop r # after)) \<and> Run (before @ Worker_Stop r # after) = Run (before @ [Worker_Stop r])"
proof -
  have "Run_loop b (before @ Worker_Stop r # after) = Run_loop b (before @ [Worker_Stop r])" for b
    by (induction before arbitrary: b) (simp_all add: Worker_Stop_def split: sum.splits)
  moreover have "snd (Run_loop b (before @ [Worker_Stop r]))" for b
    by (induction before arbitrary: b) (simp_all add: Worker_Stop_def case_prod_unfold split: sum.splits)
  ultimately show ?thesis by (simp add: Run_def)
qed

text \<open>The longest wait is above the constant that is meant to bound it.\<close>

theorem waits_exceed_maxBackoff:
  "Run (map lost (replicate 6 EOF)) = (map backoff_at [0..<6], False) \<and> sint maxBackoff < sint (backoff_at 5)"
  using Run_waits [of "replicate 6 EOF"] by (simp add: backoff_at_def maxBackoff_def second_def)

text \<open>
  A stream that the coordinator closes in good order ends \<^verbatim>\<open>Run\<close> for good: the process then
  only waits for a signal.
\<close>

theorem clean_close_ends_Run:
  "recvLoop [Inl EOF] = ([], [], Some None) \<and>
   select_round (RecvErrCh None) (NewWorker ''k'' 4) = ([], Some (Inr ())) \<and>
   Run [\<lparr>done_before = False, once = Inr (), done_after = False, done_waiting = False\<rparr>] = ([], True)"
  by (simp add: Run_def)

text \<open>
  Requests are sent by the clock, not when an answer has arrived, so a worker of capacity 1
  that asks twice before its first task has started runs two tasks.
\<close>

theorem capacity_can_be_exceeded:
  "let a = (\<lambda>t. \<lparr>ta_TaskId = t, ta_ExecutionId = ''e'', ta_Command = ''make'', ta_Env = [], ta_TimeoutSeconds = 0\<rparr>);
       w = NewWorker ''k'' 1 in
   task_request w \<noteq> None \<and>
   (\<exists>ls p. worker_run (new_proc w) ls p \<and> returned p = None \<and> runningCount (worker p) = 2 \<and>
      LSent [the (task_request w)] \<in> set ls)"
proof -
  let ?a = "\<lambda>t. \<lparr>ta_TaskId = t, ta_ExecutionId = ''e'', ta_Command = ''make'', ta_Env = [], ta_TimeoutSeconds = 0\<rparr>"
  let ?w = "NewWorker ''k'' 1"
  let ?m = "\<lparr>wm_WorkerId = ''k'', wm_Payload = WM_TaskRequest 1\<rparr>"
  let ?new = "new_proc ?w"
  let ?asked = "?new\<lparr>spawned := [?a ''t'', ?a ''u'']\<rparr>"
  let ?busy = "?new\<lparr>worker := executeTask_begin (?a ''u'') (executeTask_begin (?a ''t'') ?w), executing := [?a ''u'', ?a ''t'']\<rparr>"
  have req: "task_request ?w = Some ?m"
    by (simp add: task_request_def NewWorker_def runningCount_def go_len_def)
  have tick: "worker_step ?new (LSent [?m]) ?new"
    using worker_step.select [of ?new "Tick None" "[?m]" None] req by (simp add: new_proc_def after_send_def)
  have "worker_step ?new (LRecv (CM_TaskAssignment (?a ''t''))) (?new\<lparr>spawned := [?a ''t'']\<rparr>)"
    using worker_step.recv [of ?new "CM_TaskAssignment (?a ''t'')"] by (simp add: new_proc_def)
  moreover have "worker_step (?new\<lparr>spawned := [?a ''t'']\<rparr>) (LRecv (CM_TaskAssignment (?a ''u''))) ?asked"
    using worker_step.recv [of "?new\<lparr>spawned := [?a ''t'']\<rparr>" "CM_TaskAssignment (?a ''u'')"] by (simp add: new_proc_def)
  moreover have "worker_step ?asked LInternal
      (?asked\<lparr>worker := executeTask_begin (?a ''t'') ?w, spawned := [?a ''u''], executing := [?a ''t'']\<rparr>)"
    using worker_step.start [of "?a ''t''" ?asked] by (simp add: new_proc_def)
  moreover have "worker_step (?asked\<lparr>worker := executeTask_begin (?a ''t'') ?w, spawned := [?a ''u''], executing := [?a ''t'']\<rparr>)
      LInternal ?busy"
    using worker_step.start [of "?a ''u''" "?asked\<lparr>worker := executeTask_begin (?a ''t'') ?w, spawned := [?a ''u''], executing := [?a ''t'']\<rparr>"]
    by (simp add: new_proc_def)
  ultimately have "worker_run ?new ((((([] @ [LSent [?m]]) @ [LSent [?m]]) @ [LRecv (CM_TaskAssignment (?a ''t''))]) @
      [LRecv (CM_TaskAssignment (?a ''u''))]) @ [LInternal] @ [LInternal]) ?busy"
    using worker_run.step [OF worker_run.step [OF worker_run.step [OF worker_run.step [OF worker_run.step
      [OF worker_run.step [OF worker_run.init tick] tick]]]]] by fastforce
  moreover have "runningCount (worker ?busy) = 2" "returned ?busy = None"
    by (simp_all add: executeTask_begin_def NewWorker_def runningCount_def go_len_def new_proc_def)
  ultimately show ?thesis unfolding Let_def req by (intro conjI exI) (simp, assumption, simp_all add: req)
qed

section \<open>Reporting\<close>

text \<open>The message that goes onto the stream.\<close>

lemma executeTask_sent:
  "executeTask send run_cmd environ a w = (w', delivered) \<longleftrightarrow>
   w' = executeTask_end a (executeTask_begin a w) \<and>
   delivered = (let msg = result_message w (task_result run_cmd environ a) in
                case send msg of None \<Rightarrow> Some msg | Some e \<Rightarrow> None)"
proof -
  have "result_message (executeTask_begin a w) r = result_message w r" for r
    by (simp add: executeTask_begin_def result_message_def)
  then show ?thesis unfolding executeTask_def Let_def prod.inject by (simp split: option.split) blast
qed

lemma delivered_result_recorded:
  assumes "bolt_spec B" and "reachable B c"
    and "assignedTasks c (ta_TaskId a) = Some (ta_ExecutionId a)"
    and "run_cmd (task_call environ a) = out" and "out_err out = None"
    and "handleMessage B inp c k (wm_Payload (result_message w (task_result run_cmd environ a))) = (c', sent, res)"
  shows "sent = [] \<and> res = Inr () \<and>
    ((\<exists>m. Coordinator_CompleteTask B (si_clk inp) c (ta_TaskId a) (ta_ExecutionId a) (truncate_output (out_bytes out))
            = (c', Inl (LibErr m)) \<and> c' = c) \<or>
     (\<exists>r. task_table B (state c') (ta_TaskId a) = Some r \<and> State r = TASK_COMPLETE \<and>
        ExecutionID r = ta_ExecutionId a \<and> Output r = truncate_output (out_bytes out) \<and>
        assignedTasks c' (ta_TaskId a) = None))"
proof -
  have h: "(c', sent, res) = (case Coordinator_CompleteTask B (si_clk inp) c (ta_TaskId a) (ta_ExecutionId a)
      (truncate_output (out_bytes out)) of (c, r) \<Rightarrow> (c, [], if panics r then r else Inr ()))"
    using assms(4-6)
    by (simp add: Let_def result_message_def task_result_def handleMessage_def handleTaskResult_def split_beta)
  have held: "held (task_table B (state c)) (ta_TaskId a) (ta_ExecutionId a)"
    using assigned_invD [OF sys_invD(3) [OF bolt_spec.reachable_inv [OF assms(1,2)]] assms(3)] .
  show ?thesis
    by (rule bolt_spec.Coordinator_CompleteTask_cases [OF assms(1) bolt_spec.reachable_inv [OF assms(1,2)],
          of "ta_TaskId a" "ta_ExecutionId a" "si_clk inp" "truncate_output (out_bytes out)"])
       (use h held assms(3) in \<open>auto simp: fatal_def held_def\<close>)
qed

text \<open>
  An output that is valid UTF-8 and one byte too long can be cut in the middle of a character.
  The message is then refused, so a task that succeeded is never reported, and its mark is cleared.
\<close>

lemma utf8_bytes_ascii: "utf8_bytes (replicate n 120 @ bs) = utf8_bytes bs"
  by (induction n) (simp_all add: utf8_first_def)

theorem truncated_result_is_lost:
  assumes "refuses_invalid_utf8 send"
    and "run_cmd (task_call environ a) = \<lparr>out_bytes = out, out_err = None, out_ms = ms, out_deadline = False\<rparr>"
    and "out = replicate 65535 (CHR ''x'') @ [CHR 0xC3, CHR 0xA9]"
  shows "ValidString out \<and> \<not> ValidString (truncate_output out) \<and>
    executeTask send run_cmd environ a w = (executeTask_end a w, None)"
proof -
  have v: "ValidString out" by (simp add: assms(3) ValidString_def utf8_bytes_ascii utf8_first_def)
  have t: "truncate_output out = replicate 65535 (CHR ''x'') @ [CHR 0xC3] @ ''\<newline>[output truncated]''"
    unfolding assms(3) truncate_output_def maxOutputBytes_def by simp
  have i: "\<not> ValidString (truncate_output out)"
    unfolding t by (simp add: ValidString_def utf8_bytes_ascii utf8_first_def)
  have "tr_Output (task_result run_cmd environ a) = truncate_output out"
    by (simp add: task_result_def assms(2) Let_def)
  with i have "\<not> list_all ValidString (message_strings (result_message w (task_result run_cmd environ a)))"
    by (simp add: result_message_def)
  with assms(1) have "send (result_message w (task_result run_cmd environ a)) \<noteq> None"
    by (simp add: refuses_invalid_utf8_def del: message_strings.simps)
  with v i show ?thesis
    by (auto simp: executeTask_sent Let_def executeTask_end_def executeTask_begin_def)
qed

section \<open>Properties\<close>

text \<open>
  C15. A task result is faithful and bounded: it carries the ids of the assignment, reports
  success exactly when the command returned no error and an error text exactly otherwise,
  and its output is at most 64 KiB plus the 19 bytes of the truncation mark, agrees with
  the command's output on the first 64 KiB and is all of it when it fits. The timeout given
  to the command is the requested number of seconds, with no overflow.
\<close>

theorem task_results_are_bounded:
  "let out = run_cmd (task_call environ a); r = task_result run_cmd environ a in
     tr_TaskId r = ta_TaskId a \<and> tr_ExecutionId r = ta_ExecutionId a \<and>
     (tr_Success r \<longleftrightarrow> out_err out = None) \<and> (tr_Error r = [] \<longleftrightarrow> tr_Success r) \<and>
     length (tr_Output r) \<le> 65555 \<and> take 65536 (tr_Output r) = take 65536 (out_bytes out) \<and>
     (length (out_bytes out) \<le> 65536 \<longrightarrow> tr_Output r = out_bytes out) \<and>
     map_option sint (timeout (task_call environ a)) =
       (if sint (ta_TimeoutSeconds a) > 0 then Some (sint (ta_TimeoutSeconds a) * 1000000000) else None)"
proof -
  have "sint (ta_TimeoutSeconds a) < 2 ^ 31" using sint_lt [of "ta_TimeoutSeconds a"] by simp
  then have "sint (scast (ta_TimeoutSeconds a) * 1000000000 :: i64) = sint (ta_TimeoutSeconds a) * 1000000000"
    if "sint (ta_TimeoutSeconds a) > 0"
    using that by (simp add: sint_word_ariths signed_take_bit_int_eq_self sint_up_scast is_up)
  then show ?thesis
    by (auto simp: task_result_def Let_def truncate_output_def maxOutputBytes_def task_call_def task_timeout_def
        split: option.split)
qed

theorem task_results_are_bounded_witness:
  "let a = \<lparr>ta_TaskId = ''t'', ta_ExecutionId = ''e'', ta_Command = ''make'', ta_Env = [], ta_TimeoutSeconds = 5\<rparr>;
       r = task_result (\<lambda>_. \<lparr>out_bytes = ''ok'', out_err = None, out_ms = 3, out_deadline = False\<rparr>) [] a in
   tr_Success r \<and> tr_Output r = ''ok'' \<and> map_option sint (timeout (task_call [] a)) = Some 5000000000"
  using task_results_are_bounded [of "\<lambda>_. \<lparr>out_bytes = ''ok'', out_err = None, out_ms = 3, out_deadline = False\<rparr>" "[]"
      "\<lparr>ta_TaskId = ''t'', ta_ExecutionId = ''e'', ta_Command = ''make'', ta_Env = [], ta_TimeoutSeconds = 5\<rparr>"]
  by (simp add: Let_def)

text \<open>
  C14. However its goroutines interleave, a worker neither loses nor invents work: the
  assignments received are, with multiplicity, those not yet started, those executing, those
  whose result was sent and those whose result was dropped because \<^verbatim>\<open>Send\<close> failed. And while no task
  id has been received twice, what its select loop sends is exact and carries its id: a request
  asks for \<^verbatim>\<open>capacity\<close> minus the number of active tasks and is made only when that is positive, and a heartbeat
  lists the ids of the active tasks, all of them and once each; with no free slot there is no request.
\<close>

theorem worker_accounts_for_its_tasks:
  assumes "worker_run (new_proc (NewWorker i cap)) ls p"
  shows "mset (received ls) = mset (spawned p) + mset (executing p) + mset (reported ls) + mset (dropped ls) \<and>
    (0 \<le> sint cap \<longrightarrow> distinct (map ta_TaskId (received ls)) \<longrightarrow> length (active_tasks p) < 2 ^ 31 \<longrightarrow>
       (\<forall>msgs q msg. worker_step p (LSent msgs) q \<longrightarrow> msg \<in> set msgs \<longrightarrow> exact_message i cap (active_tasks p) msg) \<and>
       (task_request (worker p) = None \<longleftrightarrow> sint cap \<le> int (length (active_tasks p))))"
proof -
  note inv = worker_run_inv [OF assms refl]
  show ?thesis
    using inv sent_messages_exact [of p _ _ "NewWorker i cap" ls] task_request_None [of "NewWorker i cap" ls p]
    by (simp add: NewWorker_def conserves_def)
qed

theorem worker_accounts_for_its_tasks_witness:
  "let a = \<lparr>ta_TaskId = ''t'', ta_ExecutionId = ''e'', ta_Command = ''make'', ta_Env = [], ta_TimeoutSeconds = 0\<rparr>;
       b = a\<lparr>ta_TaskId := ''u''\<rparr>; w = NewWorker ''k'' 4;
       ls = [LRecv (CM_TaskAssignment a), LInternal, LRecv (CM_TaskAssignment b), LInternal,
             LReport a (result_message w (task_result sample_run [] a)) (Some EOF), LInternal];
       p = (new_proc w)\<lparr>worker := executeTask_begin b w, executing := [b]\<rparr> in
   received ls = [a, b] \<and> reported ls = [] \<and> dropped ls = [a] \<and> worker_run (new_proc w) ls p \<and>
   exact_message ''k'' 4 [b] \<lparr>wm_WorkerId = ''k'', wm_Payload = WM_TaskRequest 3\<rparr> \<and> task_request (worker p) \<noteq> None"
proof -
  let ?a = "\<lparr>ta_TaskId = ''t'', ta_ExecutionId = ''e'', ta_Command = ''make'', ta_Env = [], ta_TimeoutSeconds = 0\<rparr>"
  let ?b = "\<lparr>ta_TaskId = ''u'', ta_ExecutionId = ''e'', ta_Command = ''make'', ta_Env = [], ta_TimeoutSeconds = 0\<rparr>"
  let ?w = "NewWorker ''k'' 4" and ?m = "\<lparr>wm_WorkerId = ''k'', wm_Payload = WM_TaskRequest 3\<rparr>"
  let ?p = "(new_proc ?w)\<lparr>worker := executeTask_begin ?b ?w, executing := [?b]\<rparr>"
  let ?ls = "[LRecv (CM_TaskAssignment ?a), LInternal, LRecv (CM_TaskAssignment ?b), LInternal,
              LReport ?a (result_message ?w (task_result sample_run [] ?a)) (Some EOF), LInternal]"
  note run = sample_worker_run
  have req: "task_request (worker ?p) = Some ?m"
    by (simp add: task_request_def executeTask_begin_def NewWorker_def runningCount_def go_len_def)
  have "worker_step ?p (LSent [?m]) (?p\<lparr>returned := None\<rparr>)"
    by (rule worker_step.select [where ev = "Tick None"]) (use req in \<open>simp_all add: new_proc_def after_send_def\<close>)
  with worker_accounts_for_its_tasks [OF run] have "exact_message ''k'' 4 (active_tasks ?p) ?m" by (auto simp: active_tasks_def new_proc_def)
  with run req show ?thesis by (simp add: Let_def active_tasks_def new_proc_def)
qed

text \<open>
  C13. A successful execution is recorded when its result gets through: the worker clears its
  mark, and either \<^verbatim>\<open>Send\<close> refused the message that reports the result, which is then dropped, or it
  was sent; in that case, while the coordinator still holds the assignment, handling it ends
  without an error on the stream, and either the store refused the write and nothing changed, or the task is
  COMPLETE under that execution with the worker's truncated output, and is no longer assigned.
\<close>

theorem executed_task_is_recorded:
  assumes "bolt_spec B" and "reachable B c"
    and "assignedTasks c (ta_TaskId a) = Some (ta_ExecutionId a)"
    and "run_cmd (task_call environ a) = out" and "out_err out = None"
    and "executeTask send run_cmd environ a w = (w', delivered)"
  shows "w_running w' (ta_TaskId a) = None \<and>
    (case delivered of
       None \<Rightarrow> send (result_message w (task_result run_cmd environ a)) \<noteq> None
     | Some msg \<Rightarrow>
         send msg = None \<and>
         (\<forall>inp k c' sent res. handleMessage B inp c k (wm_Payload msg) = (c', sent, res) \<longrightarrow>
            sent = [] \<and> res = Inr () \<and>
            ((\<exists>m. Coordinator_CompleteTask B (si_clk inp) c (ta_TaskId a) (ta_ExecutionId a)
                    (truncate_output (out_bytes out)) = (c', Inl (LibErr m)) \<and> c' = c) \<or>
             (\<exists>r. task_table B (state c') (ta_TaskId a) = Some r \<and> State r = TASK_COMPLETE \<and>
                ExecutionID r = ta_ExecutionId a \<and> Output r = truncate_output (out_bytes out) \<and>
                assignedTasks c' (ta_TaskId a) = None))))"
proof -
  have w': "w_running w' (ta_TaskId a) = None"
    using assms(6) by (auto simp: executeTask_def executeTask_end_def Let_def)
  show ?thesis
  proof (cases delivered)
    case None
    with assms(6) w' show ?thesis by (auto simp: executeTask_sent Let_def split: option.splits)
  next
    case (Some msg)
    with assms(6) have msg: "msg = result_message w (task_result run_cmd environ a)" "send msg = None"
      by (auto simp: executeTask_sent Let_def split: option.splits)
    with Some w' show ?thesis using delivered_result_recorded [of B c a run_cmd environ out, OF assms(1-5)] by simp
  qed
qed

theorem executed_task_is_recorded_witness:
  "let a = \<lparr>ta_TaskId = ''a'', ta_ExecutionId = ''e1'', ta_Command = ''make'', ta_Env = [], ta_TimeoutSeconds = 0\<rparr>;
       (w, delivered) = executeTask (\<lambda>_. None) sample_run [] a (NewWorker ''k'' 4) in
   w = NewWorker ''k'' 4 \<and>
   (\<exists>msg. delivered = Some msg \<and>
      handleMessage list_bolt (sample_input (RecvMsg msg) ''e9'') run2 ''k'' (wm_Payload msg) = (run3, [], Inr ())) \<and>
   (\<exists>r. task_table list_bolt (state run3) ''a'' = Some r \<and> State r = TASK_COMPLETE \<and> Output r = ''ok'')"
proof -
  let ?a = "\<lparr>ta_TaskId = ''a'', ta_ExecutionId = ''e1'', ta_Command = ''make'', ta_Env = [], ta_TimeoutSeconds = 0\<rparr>"
  let ?msg = "result_message (NewWorker ''k'' 4) (task_result sample_run [] ?a)"
  have ok: "truncate_output ''ok'' = ''ok''" by (simp add: truncate_output_def maxOutputBytes_def)
  have x: "executeTask (\<lambda>_. None) sample_run [] ?a (NewWorker ''k'' 4) = (NewWorker ''k'' 4, Some ?msg)"
    by (simp add: executeTask_def executeTask_begin_def executeTask_end_def Let_def result_message_def NewWorker_def)
  have h: "handleMessage list_bolt (sample_input (RecvMsg ?msg) ''e9'') run2 ''k'' (wm_Payload ?msg) = (run3, [], Inr ())"
    by (simp add: Let_def result_message_def task_result_def sample_run_def handleMessage_def handleTaskResult_def
        sample_input_def ok coord_results)
  have "\<exists>r. task_table list_bolt (state run3) ''a'' = Some r \<and> State r = TASK_COMPLETE \<and> Output r = ''ok''"
    using executed_task_is_recorded [OF lb.bolt_spec_axioms reachable_runs(2) _ refl _ x] h
    by (auto simp: ok sample_run_def coord_results sample_input_def)
  with h x show ?thesis by (simp add: Let_def)
qed

end
