(* ===== verification/Cli.thy ===== *)
theory Cli
  imports Proto_Messages "HOL-Library.Monad_Syntax"
begin

text \<open>
  The command line client of \<^verbatim>\<open>cmd/cli/main.go\<close>. A command yields what it prints and either
  returns or ends the process through \<^verbatim>\<open>log.Fatal\<close> with a message. Parameters are the file
  system (\<open>readFile\<close>), \<^verbatim>\<open>encoding/json\<close> (\<open>unmarshal\<close>), the coordinator behind gRPC (the calls
  thread its state), the local time zone (\<open>local_time\<close>) and the case tables of package
  \<^verbatim>\<open>unicode\<close> (\<open>unicode_upper\<close>). Text outside ASCII is its UTF-8 bytes.
\<close>

section \<open>Text\<close>

definition newline :: string where "newline = [char_of (10::nat)]"

definition ESC :: string where "ESC = [char_of (27::nat)]"

definition ascii_upper :: "char \<Rightarrow> char" where
  "ascii_upper ch =
     (let n = of_char ch :: nat in if 97 \<le> n \<and> n \<le> 122 then char_of (n - 32) else ch)"

definition is_ascii :: "string \<Rightarrow> bool" where
  "is_ascii s \<longleftrightarrow> list_all (\<lambda>ch. (of_char ch :: nat) < 128) s"

definition ToUpper :: "(string \<Rightarrow> string) \<Rightarrow> string \<Rightarrow> string" where
  "ToUpper unicode_upper s = (if is_ascii s then map ascii_upper s else unicode_upper s)"

text \<open>
  The number of continuation bytes that a first byte calls for, with the bounds of the first
  of them; \<^term>\<open>None\<close> for a byte that starts no rune. An invalid byte counts as one rune.
\<close>

definition utf8_first :: "nat \<Rightarrow> (nat \<times> nat \<times> nat) option" where
  "utf8_first b =
     (if b < 128 then Some (0, 128, 191)
      else if 194 \<le> b \<and> b \<le> 223 then Some (1, 128, 191)
      else if b = 224 then Some (2, 160, 191)
      else if b = 237 then Some (2, 128, 159)
      else if 225 \<le> b \<and> b \<le> 239 then Some (2, 128, 191)
      else if b = 240 then Some (3, 144, 191)
      else if 241 \<le> b \<and> b \<le> 243 then Some (3, 128, 191)
      else if b = 244 then Some (3, 128, 143)
      else None)"

definition utf8_len :: "string \<Rightarrow> nat" where
  "utf8_len s =
     (case s of [] \<Rightarrow> 0
      | ch # rest \<Rightarrow>
          (case utf8_first (of_char ch) of
             None \<Rightarrow> 1
           | Some (k, lo, hi) \<Rightarrow>
               (let bs = map of_char (take k rest) :: nat list in
                if length bs = k \<and> (k = 0 \<or> lo \<le> hd bs \<and> hd bs \<le> hi) \<and>
                   list_all (\<lambda>b. 128 \<le> b \<and> b \<le> 191) bs
                then Suc k else 1)))"

lemma utf8_len_pos: "s \<noteq> [] \<Longrightarrow> 0 < utf8_len s"
  by (auto simp: utf8_len_def Let_def split: list.split option.split)

function RuneCount :: "string \<Rightarrow> nat" where
  "RuneCount s = (if s = [] then 0 else Suc (RuneCount (drop (utf8_len s) s)))"
  by auto
termination by (relation "measure length") (auto simp: utf8_len_pos)

declare RuneCount.simps [simp del]

text \<open>The verb \<^verbatim>\<open>%-32s\<close>.\<close>

definition pad_right :: "nat \<Rightarrow> string \<Rightarrow> string" where
  "pad_right n s = s @ replicate (n - RuneCount s) CHR '' ''"

section \<open>Durations\<close>

text \<open>\<^verbatim>\<open>Duration.Round\<close>, with the saturation at the ends of \<^verbatim>\<open>int64\<close>.\<close>

definition Duration_Round :: "int \<Rightarrow> int \<Rightarrow> int" where
  "Duration_Round d m =
     (if m \<le> 0 then d
      else let r = \<bar>d\<bar> mod m in
        if d < 0 then (if 2 * r < m then d + r
                       else if d - m + r \<ge> - (2 ^ 63) then d - m + r else - (2 ^ 63))
        else (if 2 * r < m then d - r
              else if d + m - r < 2 ^ 63 then d + m - r else 2 ^ 63 - 1))"

fun zero_padded :: "nat \<Rightarrow> nat \<Rightarrow> string" where
  "zero_padded 0 v = []"
| "zero_padded (Suc k) v = zero_padded k (v div 10) @ [char_of (48 + v mod 10)]"

definition fraction :: "nat \<Rightarrow> nat \<Rightarrow> string" where
  "fraction prec v =
     (let ds = rev (dropWhile (\<lambda>ch. ch = CHR ''0'') (rev (zero_padded prec v))) in
      if ds = [] then [] else ''.'' @ ds)"

definition Duration_String :: "int \<Rightarrow> string" where
  "Duration_String d =
     (let u = nat \<bar>d\<bar>;
          s = u div 1000000000;
          text =
            (if u = 0 then ''0s''
             else if u < 1000 then decimal_nat u @ ''ns''
             else if u < 1000000 then decimal_nat (u div 1000) @ fraction 3 u @ [CHR 0xC2, CHR 0xB5] @ ''s''
             else if u < 1000000000 then decimal_nat (u div 1000000) @ fraction 6 u @ ''ms''
             else (if s div 3600 > 0 then decimal_nat (s div 3600) @ ''h'' else []) @
                  (if s div 60 > 0 then decimal_nat (s div 60 mod 60) @ ''m'' else []) @
                  decimal_nat (s mod 60) @ fraction 9 u @ ''s'')
      in (if d < 0 then ''-'' else []) @ text)"

section \<open>Submit\<close>

record task_payload =
  pl_TaskID :: string
  pl_Dependencies :: "string list"
  pl_Command :: string
  pl_Env :: "(string \<times> string) list"
  pl_TimeoutSec :: i32
  pl_MaxRetries :: i32

record payload =
  pl_WorkflowID :: string
  pl_FailurePolicy :: string
  pl_Tasks :: "task_payload list"

definition parse_policy :: "(string \<Rightarrow> string) \<Rightarrow> string \<Rightarrow> FailurePolicy" where
  "parse_policy unicode_upper s =
     (let u = ToUpper unicode_upper s in
      if u = ''SKIP_DOWNSTREAM'' then SKIP_DOWNSTREAM
      else if u = ''CONTINUE_INDEPENDENT'' then CONTINUE_INDEPENDENT
      else FAIL_FAST)"

definition task_spec_of :: "task_payload \<Rightarrow> TaskSpec" where
  "task_spec_of t =
     \<lparr>TaskId = pl_TaskID t, Dependencies = pl_Dependencies t, Command = pl_Command t, Env = pl_Env t,
      TimeoutSeconds = pl_TimeoutSec t, MaxRetries = pl_MaxRetries t\<rparr>"

definition workflow_spec_of :: "(string \<Rightarrow> string) \<Rightarrow> payload \<Rightarrow> WorkflowSpec" where
  "workflow_spec_of unicode_upper p =
     \<lparr>WorkflowId = pl_WorkflowID p, Tasks = map task_spec_of (pl_Tasks p),
      Failure_Policy = parse_policy unicode_upper (pl_FailurePolicy p)\<rparr>"

type_synonym console = "string \<times> (string + unit)"

definition runSubmit ::
    "(string \<Rightarrow> err + string) \<Rightarrow> (string \<Rightarrow> err + payload) \<Rightarrow> (string \<Rightarrow> string)
     \<Rightarrow> (WorkflowSpec \<Rightarrow> 's \<Rightarrow> 's \<times> (err + SubmitWorkflowResponse)) \<Rightarrow> string list \<Rightarrow> 's \<Rightarrow> 's \<times> console" where
  "runSubmit readFile unmarshal unicode_upper submit args s =
     (case args of
        [] \<Rightarrow> (s, [], Inl ''Usage: submit <workflow.json>'')
      | path # _ \<Rightarrow>
          (case readFile path of
             Inl e \<Rightarrow> (s, [], Inl (''failed to read file: '' @ Error_String e))
           | Inr bytes \<Rightarrow>
               (case unmarshal bytes of
                  Inl e \<Rightarrow> (s, [], Inl (''failed to parse JSON: '' @ Error_String e))
                | Inr p \<Rightarrow>
                    (case submit (workflow_spec_of unicode_upper p) s of
                       (s, Inl e) \<Rightarrow> (s, [], Inl (''SubmitWorkflow RPC failed: '' @ Error_String e))
                     | (s, Inr res) \<Rightarrow>
                         if \<not> swr_Success res then (s, [], Inl (''submit error: '' @ swr_Error res))
                         else (s, ''Submitted workflow: '' @ swr_WorkflowId res @ newline @
                                  ''Run `cli status '' @ swr_WorkflowId res @ '' --watch` to follow execution.'' @ newline,
                               Inr ())))))"

section \<open>Status\<close>

definition isTerminalState :: "WorkflowState \<Rightarrow> bool" where
  "isTerminalState s \<longleftrightarrow> s = WORKFLOW_COMPLETE \<or> s = WORKFLOW_FAILED \<or> s = WORKFLOW_CANCELLED"

definition colorReset :: string where "colorReset = ESC @ ''[0m''"
definition colorGreen :: string where "colorGreen = ESC @ ''[32m''"
definition colorRed :: string where "colorRed = ESC @ ''[31m''"
definition colorYellow :: string where "colorYellow = ESC @ ''[33m''"
definition colorCyan :: string where "colorCyan = ESC @ ''[36m''"
definition colorGray :: string where "colorGray = ESC @ ''[90m''"

definition stateIcon :: "TaskState \<Rightarrow> string" where
  "stateIcon s =
     (case s of
        TASK_COMPLETE \<Rightarrow> [CHR 0xE2, CHR 0x9C, CHR 0x93]
      | TASK_FAILED \<Rightarrow> [CHR 0xE2, CHR 0x9C, CHR 0x97]
      | TASK_RUNNING \<Rightarrow> [CHR 0xE2, CHR 0x96, CHR 0xB6]
      | TASK_QUEUED \<Rightarrow> [CHR 0xE2, CHR 0x8B, CHR 0xAF]
      | TASK_SKIPPED \<Rightarrow> [CHR 0xE2, CHR 0x8A, CHR 0x98]
      | _ \<Rightarrow> [CHR 0xE2, CHR 0x97, CHR 0x8B])"

definition colorForTaskState :: "TaskState \<Rightarrow> string" where
  "colorForTaskState s =
     (case s of
        TASK_COMPLETE \<Rightarrow> colorGreen
      | TASK_FAILED \<Rightarrow> colorRed
      | TASK_RUNNING \<Rightarrow> colorCyan
      | TASK_QUEUED \<Rightarrow> colorYellow
      | TASK_SKIPPED \<Rightarrow> colorGray
      | _ \<Rightarrow> colorGray)"

definition colorForWorkflowState :: "WorkflowState \<Rightarrow> string" where
  "colorForWorkflowState s =
     (case s of
        WORKFLOW_COMPLETE \<Rightarrow> colorGreen
      | WORKFLOW_FAILED \<Rightarrow> colorRed
      | WORKFLOW_CANCELLED \<Rightarrow> colorGray
      | _ \<Rightarrow> colorCyan)"

text \<open>The frame of the header: a corner, fifty bars, a corner.\<close>

definition frame :: "char \<Rightarrow> char \<Rightarrow> string" where
  "frame left right =
     [CHR 0xE2, CHR 0x95, left] @ concat (replicate 50 [CHR 0xE2, CHR 0x95, CHR 0x90]) @
     [CHR 0xE2, CHR 0x95, right] @ newline"

definition print_task :: "TaskStatus \<Rightarrow> string" where
  "print_task t =
     ''    '' @ colorForTaskState (ts_State t) @ stateIcon (ts_State t) @ ''  '' @ pad_right 32 (ts_TaskId t) @ '' '' @
     TaskState_String (ts_State t) @
     (if sint (ts_AttemptCount t) > 0 then '' ['' @ decimal (sint (ts_AttemptCount t)) @ '' attempt(s)]'' else []) @
     colorReset @ newline @
     (if ts_Error t \<noteq> [] then ''         error: '' @ ts_Error t @ newline else [])"

definition elapsed :: "WorkflowStatus \<Rightarrow> string" where
  "elapsed res =
     Duration_String (Duration_Round
       (sint ((ws_CompletedAtUnixMs res - ws_SubmittedAtUnixMs res) * 1000000)) 1000000)"

definition printWorkflowStatus :: "(i64 \<Rightarrow> string) \<Rightarrow> WorkflowStatus \<Rightarrow> string" where
  "printWorkflowStatus local_time res =
     frame (CHR 0x94) (CHR 0x97) @
     ''  Workflow  : '' @ ws_WorkflowId res @ newline @
     ''  State     : '' @ colorForWorkflowState (ws_State res) @ WorkflowState_String (ws_State res) @ colorReset @ newline @
     (if sint (ws_SubmittedAtUnixMs res) > 0
      then ''  Submitted : '' @ local_time (ws_SubmittedAtUnixMs res) @ newline else []) @
     (if sint (ws_CompletedAtUnixMs res) > 0
      then ''  Completed : '' @ local_time (ws_CompletedAtUnixMs res) @ ''  (elapsed '' @ elapsed res @ '')'' @ newline
      else []) @
     frame (CHR 0x9A) (CHR 0x9D) @
     newline @ ''  Tasks ('' @ decimal_nat (length (ws_TaskStatuses res)) @ ''):'' @ newline @
     concat (map print_task (ws_TaskStatuses res)) @ newline"

definition clear_screen :: string where
  "clear_screen = ESC @ ''[H'' @ ESC @ ''[2J''"

text \<open>
  The polling loop; \<open>poll i\<close> is the answer to the \<open>i\<close>-th call. \<^term>\<open>None\<close> means that the loop
  never ends.
\<close>

partial_function (option) status_loop ::
    "(i64 \<Rightarrow> string) \<Rightarrow> (nat \<Rightarrow> err + WorkflowStatus) \<Rightarrow> bool \<Rightarrow> nat \<Rightarrow> (string list \<times> (string + unit)) option" where
  "status_loop local_time poll watch i =
     (case poll i of
        Inl e \<Rightarrow> Some ([], Inl (''GetWorkflowStatus failed: '' @ Error_String e))
      | Inr res \<Rightarrow>
          (let screen = (if watch then clear_screen else []) @ printWorkflowStatus local_time res in
           if \<not> watch \<or> isTerminalState (ws_State res) then Some ([screen], Inr ())
           else do {
             (screens, r) \<leftarrow> status_loop local_time poll watch (Suc i);
             Some (screen # screens, r)
           }))"

definition runStatus ::
    "(i64 \<Rightarrow> string) \<Rightarrow> (string \<Rightarrow> nat \<Rightarrow> err + WorkflowStatus) \<Rightarrow> string list
     \<Rightarrow> (string list \<times> (string + unit)) option" where
  "runStatus local_time poll args =
     (case args of
        [] \<Rightarrow> Some ([], Inl ''Usage: status <workflow_id> [--watch]'')
      | workflowID # rest \<Rightarrow>
          (let watch = (rest \<noteq> [] \<and> hd rest = ''--watch'') in
           status_loop local_time (poll workflowID) watch 0))"

section \<open>Cancel\<close>

definition runCancel ::
    "(string \<Rightarrow> 's \<Rightarrow> 's \<times> (err + CancelWorkflowResponse)) \<Rightarrow> string list \<Rightarrow> 's \<Rightarrow> 's \<times> console" where
  "runCancel cancel args s =
     (case args of
        [] \<Rightarrow> (s, [], Inl ''Usage: cancel <workflow_id>'')
      | workflowID # _ \<Rightarrow>
          (case cancel workflowID s of
             (s, Inl e) \<Rightarrow> (s, [], Inl (''CancelWorkflow RPC failed: '' @ Error_String e))
           | (s, Inr res) \<Rightarrow>
               if \<not> cwr_Success res then (s, [], Inl (''cancel error: '' @ cwr_Error res))
               else (s, ''Cancelled workflow: '' @ workflowID @ newline, Inr ())))"

section \<open>The program\<close>

definition printUsage :: string where
  "printUsage =
     ''Usage: cli [--addr <host:port>] <command> [args]'' @ newline @ newline @
     ''Commands:'' @ newline @
     ''  submit <workflow.json>         Submit a workflow from a JSON file'' @ newline @
     ''  status <workflow_id> [--watch] Show workflow status (--watch polls every 2s)'' @ newline @
     ''  cancel <workflow_id>           Cancel a running workflow'' @ newline"

text \<open>
  \<^verbatim>\<open>main\<close> on the arguments that follow the flags; \<open>dial\<close> is the error of \<^verbatim>\<open>grpc.Dial\<close>, if any. The
  usage text is followed by an exit with status 1 and no message.
\<close>

definition cli_main ::
    "err option \<Rightarrow> (string list \<Rightarrow> 's \<Rightarrow> 's \<times> console) \<Rightarrow> (string list \<Rightarrow> (string list \<times> (string + unit)) option)
     \<Rightarrow> (string list \<Rightarrow> 's \<Rightarrow> 's \<times> console) \<Rightarrow> string list \<Rightarrow> 's \<Rightarrow> ('s \<times> console) option" where
  "cli_main dial submit_cmd status_cmd cancel_cmd args s =
     (case args of
        [] \<Rightarrow> Some (s, printUsage, Inl [])
      | cmd # rest \<Rightarrow>
          (case dial of
             Some e \<Rightarrow> Some (s, [], Inl (''failed to connect: '' @ Error_String e))
           | None \<Rightarrow>
               if cmd = ''submit'' then Some (submit_cmd rest s)
               else if cmd = ''status'' then map_option (\<lambda>(screens, r). (s, concat screens, r)) (status_cmd rest)
               else if cmd = ''cancel'' then Some (cancel_cmd rest s)
               else Some (s, [], Inl (''unknown command: '' @ cmd))))"

end
