(* ===== verification/Cli_Props.thy ===== *)
theory Cli_Props
  imports Cli Service_Props
begin

text \<open>
  Properties of the command line client: which policy a payload names, when a watched
  status ends, and what submitting a file does to the scheduler behind the service.
\<close>

section \<open>Policies\<close>

text \<open>Lower and mixed case spellings are accepted; anything else, a misspelling included, is FAIL_FAST.\<close>

lemma parse_policy_names [simp]:
  "parse_policy uu ''skip_downstream'' = SKIP_DOWNSTREAM"
  "parse_policy uu ''Continue_Independent'' = CONTINUE_INDEPENDENT"
  "parse_policy uu ''FAIL_FAST'' = FAIL_FAST" "parse_policy uu [] = FAIL_FAST"
  by (simp_all add: parse_policy_def ToUpper_def is_ascii_def ascii_upper_def, code_simp+)

lemma parse_policy_known: "parse_policy uu s \<in> {FAIL_FAST, SKIP_DOWNSTREAM, CONTINUE_INDEPENDENT}"
  by (simp add: parse_policy_def Let_def)

section \<open>Watching\<close>

text \<open>An answer on which the watch loop stops, and what an answer shows on the screen.\<close>

definition stops :: "err + WorkflowStatus \<Rightarrow> bool" where
  "stops a =
     (case a of
        Inl e \<Rightarrow> True
      | Inr res \<Rightarrow> ws_State res \<in> {WORKFLOW_COMPLETE, WORKFLOW_FAILED, WORKFLOW_CANCELLED})"

definition shown :: "(i64 \<Rightarrow> string) \<Rightarrow> err + WorkflowStatus \<Rightarrow> string list" where
  "shown lt a = (case a of Inl e \<Rightarrow> [] | Inr res \<Rightarrow> [clear_screen @ printWorkflowStatus lt res])"

definition watch_result :: "err + WorkflowStatus \<Rightarrow> string + unit" where
  "watch_result a =
     (case a of Inl e \<Rightarrow> Inl (''GetWorkflowStatus failed: '' @ Error_String e) | Inr res \<Rightarrow> Inr ())"

lemma status_loop_stop:
  "stops (poll i) \<Longrightarrow> status_loop lt poll True i = Some (shown lt (poll i), watch_result (poll i))"
  by (subst status_loop.simps) (auto simp: stops_def isTerminalState_def shown_def watch_result_def split: sum.splits)

lemma status_loop_go:
  "\<not> stops (poll i) \<Longrightarrow> status_loop lt poll True i =
   map_option (map_prod (append (shown lt (poll i))) id) (status_loop lt poll True (Suc i))"
  by (subst status_loop.simps)
     (auto simp: stops_def isTerminalState_def shown_def map_prod_def split: sum.splits option.split bind_split)

lemma status_loop_runs:
  assumes "stops (poll (i + n))" and "\<And>j. j < n \<Longrightarrow> \<not> stops (poll (i + j))"
  shows "status_loop lt poll True i =
    Some (concat (map (\<lambda>j. shown lt (poll j)) [i..<Suc (i + n)]), watch_result (poll (i + n)))"
  using assms
proof (induction n arbitrary: i)
  case 0
  then show ?case by (simp add: status_loop_stop)
next
  case (Suc n)
  have "\<not> stops (poll i)" using Suc.prems(2) [of 0] by simp
  moreover have "status_loop lt poll True (Suc i) =
      Some (concat (map (\<lambda>j. shown lt (poll j)) [Suc i..<Suc (Suc i + n)]), watch_result (poll (Suc i + n)))"
    by (rule Suc.IH) (use Suc.prems(1) Suc.prems(2) [of "Suc _"] in auto)
  ultimately show ?case by (simp add: status_loop_go upt_conv_Cons del: upt_Suc)
qed

lemma status_loop_Some_stops:
  assumes "status_loop lt poll b i = Some out"
  shows "b \<longrightarrow> (\<exists>k\<ge>i. stops (poll k))"
proof (rule status_loop.raw_induct [where P = "\<lambda>lt poll b i out. b \<longrightarrow> (\<exists>k\<ge>i. stops (poll k))", OF _ assms])
  fix f lt poll b i out
  assume IH: "\<And>lt poll b i y. f lt poll b i = Some y \<Longrightarrow> b \<longrightarrow> (\<exists>k\<ge>i. stops (poll k))"
    and step: "(case poll i of
        Inl e \<Rightarrow> Some ([], Inl (''GetWorkflowStatus failed: '' @ Error_String e))
      | Inr res \<Rightarrow>
          (let screen = (if b then clear_screen else []) @ printWorkflowStatus lt res in
           if \<not> b \<or> isTerminalState (ws_State res) then Some ([screen], Inr ())
           else do { (screens, r) \<leftarrow> f lt poll b (Suc i); Some (screen # screens, r) })) = Some out"
  show "b \<longrightarrow> (\<exists>k\<ge>i. stops (poll k))"
  proof (cases "b \<and> \<not> stops (poll i)")
    case True
    then obtain res where "poll i = Inr res" "\<not> isTerminalState (ws_State res)"
      by (auto simp: stops_def isTerminalState_def split: sum.splits)
    with step True obtain o' where "f lt poll b (Suc i) = Some o'" by (auto simp: Let_def split: bind_splits)
    from IH [OF this] True show ?thesis by (meson Suc_leD)
  qed auto
qed

text \<open>
  C28. Watching a workflow ends exactly when it should: \<^verbatim>\<open>status --watch\<close> returns if and only if
  some poll fails or finds the workflow finished; it then stops at the first such poll,
  having shown every answer in order, and fails exactly if that poll failed.
\<close>

theorem watch_ends_with_the_workflow:
  "(if \<exists>k. stops (poll w k)
    then runStatus lt poll [w, ''--watch''] =
      Some (concat (map (\<lambda>j. shown lt (poll w j)) [0..<Suc (LEAST k. stops (poll w k))]),
            watch_result (poll w (LEAST k. stops (poll w k))))
    else runStatus lt poll [w, ''--watch''] = None)"
proof (cases "\<exists>k. stops (poll w k)")
  case True
  let ?n = "LEAST k. stops (poll w k)"
  have "stops (poll w (0 + ?n))" unfolding add_0 using True by (rule LeastI_ex)
  moreover have "\<not> stops (poll w (0 + j))" if "j < ?n" for j
    unfolding add_0 using that by (rule not_less_Least)
  ultimately have "status_loop lt (poll w) True 0 =
      Some (concat (map (\<lambda>j. shown lt (poll w j)) [0..<Suc (0 + ?n)]), watch_result (poll w (0 + ?n)))"
    by (rule status_loop_runs)
  with True show ?thesis by (simp add: runStatus_def)
next
  case False
  then have "status_loop lt (poll w) True 0 = None"
    using status_loop_Some_stops [of lt "poll w" True 0] by (cases "status_loop lt (poll w) True 0") auto
  with False show ?thesis by (simp add: runStatus_def)
qed

section \<open>Submitting\<close>

lemma task_spec_of_fields [simp]:
  "TaskId (task_spec_of t) = pl_TaskID t" "Dependencies (task_spec_of t) = pl_Dependencies t"
  by (simp_all add: task_spec_of_def)

lemma Tasks_workflow_spec_of [simp]: "Tasks (workflow_spec_of uu p) = map task_spec_of (pl_Tasks p)"
  by (simp add: workflow_spec_of_def)

text \<open>
  Submitting a file to the service itself: the workflow built from the payload reaches
  the scheduler as it is. If the command succeeds, the workflow is valid and every task of
  the payload is cached with its own command, dependencies and limits, and stored QUEUED or
  PENDING according to its dependencies. If the workflow is invalid, the command fails with
  a message that names the defect and the scheduler is unchanged.
\<close>

lemma submit_command_is_faithful:
  assumes "bolt_spec B" and "reachable B c" and "readFile path = Inr bytes" and "unmarshal bytes = Inr p"
    and "w = workflow_spec_of uu p" and "small_workflow w" and "submit_orders w ords" and "fresh_workflow B c w"
    and "runSubmit readFile unmarshal uu (\<lambda>w c. Service_SubmitWorkflow B clk ords c w) (path # rest) c = (c', out, res)"
  shows "reachable B c' \<and>
    (res = Inr () \<longrightarrow> valid_workflow w \<and>
       (\<forall>t\<in>set (pl_Tasks p). taskSpecCache c' (pl_TaskID t) = Some (task_spec_of t) \<and>
          (\<exists>r. task_table B (state c') (pl_TaskID t) = Some r \<and>
               State r = (if pl_Dependencies t = [] then TASK_QUEUED else TASK_PENDING)))) \<and>
    (\<not> valid_workflow w \<longrightarrow> c' = c \<and> out = [] \<and>
       (\<exists>e. res = Inl (''submit error: invalid DAG: '' @ Error_String e) \<and> dag_error w e))"
proof -
  note inv = bolt_spec.reachable_inv [OF assms(1,2)]
  obtain d r where s: "SubmitWorkflow B clk ords c w = (d, r)" by fastforce
  have run: "c' = d" "r = Inl e \<Longrightarrow> \<not> fatal e \<Longrightarrow> out = [] \<and> res = Inl (''submit error: '' @ Error_String e)"
      "r = Inl e \<Longrightarrow> res \<noteq> Inr ()" for e
    using assms(3,4,9) s unfolding assms(5)
    by (auto simp: runSubmit_def Service_SubmitWorkflow_def split: sum.splits if_splits)
  have reach: "reachable B d"
    by (rule bolt_spec.reachable_submit [OF assms(1,2,6-8) s])
  have err: "dag_error w e" if "ValidateAndSort (ords 0) (ords 1) (ords 2) w = Inl e" for e
    using submit_ordersD(1,3) [OF assms(7)]
    by (cases rule: ValidateAndSort_cases [of w "ords 0" "ords 2" "ords 1"])
       (use that in \<open>auto simp: dag_error_def\<close>)
  have tasks: "task_spec_of t \<in> set (Tasks w)" if "t \<in> set (pl_Tasks p)" for t
    using that assms(5) by simp
  show ?thesis
  proof (rule bolt_spec.SubmitWorkflow_cases [OF assms(1) inv assms(6-8), of clk])
    fix e assume "\<not> valid_workflow w" "ValidateAndSort (ords 0) (ords 1) (ords 2) w = Inl e"
      "SubmitWorkflow B clk ords c w = (c, Inl (InvalidDAG e))"
    with run(1) run(2,3) [of "InvalidDAG e"] reach err s show ?thesis by (auto simp: fatal_def)
  next
    fix d' e assume "valid_workflow w" "SubmitWorkflow B clk ords c w = (d', Inl e)"
    with run(1) run(3) [of e] reach s show ?thesis by simp
  next
    fix d' assume "valid_workflow w" "SubmitWorkflow B clk ords c w = (d', Inr ())"
      and t: "\<And>t. t \<in> set (Tasks w) \<Longrightarrow> taskSpecCache d' (TaskId t) = Some t \<and>
         task_accepted (task_table B (state d')) w t"
    with run(1) reach s show ?thesis
      using t [OF tasks] by (auto simp: task_accepted_def)
  qed
qed

text \<open>A file system and a JSON decoder that know one file.\<close>

definition sample_payload :: payload where
  "sample_payload = \<lparr>pl_WorkflowID = WorkflowId sample_workflow, pl_FailurePolicy = FailurePolicy_String (Failure_Policy sample_workflow),
     pl_Tasks = map (\<lambda>t. \<lparr>pl_TaskID = TaskId t, pl_Dependencies = Dependencies t, pl_Command = Command t,
       pl_Env = Env t, pl_TimeoutSec = TimeoutSeconds t, pl_MaxRetries = MaxRetries t\<rparr>) (Tasks sample_workflow)\<rparr>"

lemma sample_payload_spec: "workflow_spec_of id sample_payload = sample_workflow"
proof -
  have policy: "parse_policy id ''SKIP_DOWNSTREAM'' = SKIP_DOWNSTREAM" by code_simp
  show ?thesis
    by (simp add: workflow_spec_of_def sample_payload_def policy)
       (simp add: sample_workflow_def sample_task_def task_spec_of_def)
qed

end
