(* ===== verification/Grpc_Stubs.thy ===== *)
theory Grpc_Stubs
  imports Stream_Service
begin

text \<open>
  The client and server stubs of \<^verbatim>\<open>internal/proto/scheduler/scheduler_grpc.pb.go\<close>: what the
  client sends under which method name, and how a decoded request reaches the service. The
  gRPC library is a parameter: a connection is its \<^verbatim>\<open>Invoke\<close> and \<^verbatim>\<open>NewStream\<close>, and the
  locale \<open>grpc_conn\<close> states what the stubs rely on. Calls thread the state of the server.
\<close>

section \<open>Messages and servers\<close>

text \<open>The values that the stubs pass as \<^verbatim>\<open>interface{}\<close>; a request is named by its workflow id.\<close>

datatype any =
    A_WorkflowSpec (un_WorkflowSpec: WorkflowSpec)
  | A_GetWorkflowStatusRequest (un_GetWorkflowStatusRequest: string)
  | A_CancelWorkflowRequest (un_CancelWorkflowRequest: string)
  | A_SubmitWorkflowResponse (un_SubmitWorkflowResponse: SubmitWorkflowResponse)
  | A_WorkflowStatus (un_WorkflowStatus: WorkflowStatus)
  | A_CancelWorkflowResponse (un_CancelWorkflowResponse: CancelWorkflowResponse)

text \<open>What \<^verbatim>\<open>new(T)\<close> gives.\<close>

definition new_WorkflowSpec :: any where
  "new_WorkflowSpec = A_WorkflowSpec \<lparr>WorkflowId = [], Tasks = [], Failure_Policy = FAIL_FAST\<rparr>"
definition new_SubmitWorkflowResponse :: any where
  "new_SubmitWorkflowResponse = A_SubmitWorkflowResponse \<lparr>swr_WorkflowId = [], swr_Success = False, swr_Error = []\<rparr>"
definition new_WorkflowStatus :: any where
  "new_WorkflowStatus = A_WorkflowStatus
     \<lparr>ws_WorkflowId = [], ws_State = WORKFLOW_RUNNING, ws_TaskStatuses = [], ws_SubmittedAtUnixMs = 0, ws_CompletedAtUnixMs = 0\<rparr>"
definition new_CancelWorkflowResponse :: any where
  "new_CancelWorkflowResponse = A_CancelWorkflowResponse \<lparr>cwr_Success = False, cwr_Error = []\<rparr>"

record 's SchedulerServer =
  srv_SubmitWorkflow :: "WorkflowSpec \<Rightarrow> 's \<Rightarrow> 's \<times> (err + SubmitWorkflowResponse)"
  srv_GetWorkflowStatus :: "string \<Rightarrow> 's \<Rightarrow> 's \<times> (err + WorkflowStatus)"
  srv_CancelWorkflow :: "string \<Rightarrow> 's \<Rightarrow> 's \<times> (err + CancelWorkflowResponse)"
  srv_WorkerStream :: "stream_input list \<Rightarrow> 's \<Rightarrow> 's \<times> CoordinatorMessage list \<times> (err + unit) option"

text \<open>\<open>unimplemented\<close> is \<^verbatim>\<open>status.Error\<close> with \<^verbatim>\<open>codes.Unimplemented\<close>.\<close>

definition UnimplementedSchedulerServer :: "(string \<Rightarrow> err) \<Rightarrow> 's SchedulerServer" where
  "UnimplementedSchedulerServer unimplemented =
     \<lparr>srv_SubmitWorkflow = (\<lambda>_ s. (s, Inl (unimplemented ''method SubmitWorkflow not implemented''))),
      srv_GetWorkflowStatus = (\<lambda>_ s. (s, Inl (unimplemented ''method GetWorkflowStatus not implemented''))),
      srv_CancelWorkflow = (\<lambda>_ s. (s, Inl (unimplemented ''method CancelWorkflow not implemented''))),
      srv_WorkerStream = (\<lambda>_ s. (s, [], Some (Inl (unimplemented ''method WorkerStream not implemented''))))\<rparr>"

text \<open>
  \<^verbatim>\<open>SchedulerService\<close> embeds the unimplemented server and overrides each of its methods. Clocks,
  map orders and the other goroutines are fixed for the calls under consideration.
\<close>

definition SchedulerService ::
    "(string \<Rightarrow> err) \<Rightarrow> 'b bolt \<Rightarrow> (nat \<Rightarrow> clock) \<Rightarrow> (nat \<Rightarrow> string list) \<Rightarrow> (nat \<Rightarrow> 'b Coordinator \<Rightarrow> 'b Coordinator)
     \<Rightarrow> 'b Coordinator SchedulerServer" where
  "SchedulerService unimplemented B clk ords env =
     (UnimplementedSchedulerServer unimplemented)
       \<lparr>srv_SubmitWorkflow := (\<lambda>w c. Service_SubmitWorkflow B clk ords c w),
        srv_GetWorkflowStatus := (\<lambda>w c. (c, GetWorkflowStatus B (state c) w)),
        srv_CancelWorkflow := (\<lambda>w c. Service_CancelWorkflow B clk c w),
        srv_WorkerStream := WorkerStream B env\<rparr>"

section \<open>Method names\<close>

definition Scheduler_SubmitWorkflow_FullMethodName :: string where
  "Scheduler_SubmitWorkflow_FullMethodName = ''/scheduler.Scheduler/SubmitWorkflow''"
definition Scheduler_GetWorkflowStatus_FullMethodName :: string where
  "Scheduler_GetWorkflowStatus_FullMethodName = ''/scheduler.Scheduler/GetWorkflowStatus''"
definition Scheduler_CancelWorkflow_FullMethodName :: string where
  "Scheduler_CancelWorkflow_FullMethodName = ''/scheduler.Scheduler/CancelWorkflow''"
definition Scheduler_WorkerStream_FullMethodName :: string where
  "Scheduler_WorkerStream_FullMethodName = ''/scheduler.Scheduler/WorkerStream''"

lemmas method_names = Scheduler_SubmitWorkflow_FullMethodName_def Scheduler_GetWorkflowStatus_FullMethodName_def
  Scheduler_CancelWorkflow_FullMethodName_def Scheduler_WorkerStream_FullMethodName_def

section \<open>Server side\<close>

text \<open>
  \<open>dec\<close> fills the message it is given from the request. An interceptor gets the request, the
  full method name and the handler that it may call.
\<close>

type_synonym 's call_result = "'s \<times> (err + any)"
type_synonym 's interceptor = "any \<Rightarrow> string \<Rightarrow> (any \<Rightarrow> 's \<Rightarrow> 's call_result) \<Rightarrow> 's \<Rightarrow> 's call_result"
type_synonym 's method_handler =
  "'s SchedulerServer \<Rightarrow> (any \<Rightarrow> err + any) \<Rightarrow> 's interceptor option \<Rightarrow> 's \<Rightarrow> 's call_result"

definition Scheduler_SubmitWorkflow_Handler :: "'s method_handler" where
  "Scheduler_SubmitWorkflow_Handler srv dec interceptor s =
     (case dec new_WorkflowSpec of
        Inl e \<Rightarrow> (s, Inl e)
      | Inr inp \<Rightarrow>
          (case interceptor of
             None \<Rightarrow> apsnd (map_sum id A_SubmitWorkflowResponse) (srv_SubmitWorkflow srv (un_WorkflowSpec inp) s)
           | Some f \<Rightarrow>
               f inp Scheduler_SubmitWorkflow_FullMethodName
                 (\<lambda>req s. apsnd (map_sum id A_SubmitWorkflowResponse) (srv_SubmitWorkflow srv (un_WorkflowSpec req) s)) s))"

definition Scheduler_GetWorkflowStatus_Handler :: "'s method_handler" where
  "Scheduler_GetWorkflowStatus_Handler srv dec interceptor s =
     (case dec (A_GetWorkflowStatusRequest []) of
        Inl e \<Rightarrow> (s, Inl e)
      | Inr inp \<Rightarrow>
          (case interceptor of
             None \<Rightarrow> apsnd (map_sum id A_WorkflowStatus) (srv_GetWorkflowStatus srv (un_GetWorkflowStatusRequest inp) s)
           | Some f \<Rightarrow>
               f inp Scheduler_GetWorkflowStatus_FullMethodName
                 (\<lambda>req s. apsnd (map_sum id A_WorkflowStatus) (srv_GetWorkflowStatus srv (un_GetWorkflowStatusRequest req) s)) s))"

definition Scheduler_CancelWorkflow_Handler :: "'s method_handler" where
  "Scheduler_CancelWorkflow_Handler srv dec interceptor s =
     (case dec (A_CancelWorkflowRequest []) of
        Inl e \<Rightarrow> (s, Inl e)
      | Inr inp \<Rightarrow>
          (case interceptor of
             None \<Rightarrow> apsnd (map_sum id A_CancelWorkflowResponse) (srv_CancelWorkflow srv (un_CancelWorkflowRequest inp) s)
           | Some f \<Rightarrow>
               f inp Scheduler_CancelWorkflow_FullMethodName
                 (\<lambda>req s. apsnd (map_sum id A_CancelWorkflowResponse) (srv_CancelWorkflow srv (un_CancelWorkflowRequest req) s)) s))"

lemmas handler_stubs = Scheduler_SubmitWorkflow_Handler_def Scheduler_GetWorkflowStatus_Handler_def
  Scheduler_CancelWorkflow_Handler_def

definition Scheduler_WorkerStream_Handler ::
    "'s SchedulerServer \<Rightarrow> stream_input list \<Rightarrow> 's \<Rightarrow> 's \<times> CoordinatorMessage list \<times> (err + unit) option" where
  "Scheduler_WorkerStream_Handler srv stream s = srv_WorkerStream srv stream s"

record StreamDesc =
  sd_StreamName :: string
  sd_ServerStreams :: bool
  sd_ClientStreams :: bool

record 's ServiceDesc =
  ServiceName :: string
  Methods :: "(string \<times> 's method_handler) list"
  Streams :: "(StreamDesc \<times> ('s SchedulerServer \<Rightarrow> stream_input list \<Rightarrow> 's \<Rightarrow> 's \<times> CoordinatorMessage list \<times> (err + unit) option)) list"

definition Scheduler_ServiceDesc :: "'s ServiceDesc" where
  "Scheduler_ServiceDesc =
     \<lparr>ServiceName = ''scheduler.Scheduler'',
      Methods = [(''SubmitWorkflow'', Scheduler_SubmitWorkflow_Handler),
                 (''GetWorkflowStatus'', Scheduler_GetWorkflowStatus_Handler),
                 (''CancelWorkflow'', Scheduler_CancelWorkflow_Handler)],
      Streams = [(\<lparr>sd_StreamName = ''WorkerStream'', sd_ServerStreams = True, sd_ClientStreams = True\<rparr>,
                  Scheduler_WorkerStream_Handler)]\<rparr>"

text \<open>\<open>RegisterService\<close> is the method of the server object of the library.\<close>

definition RegisterSchedulerServer ::
    "('s ServiceDesc \<Rightarrow> 's SchedulerServer \<Rightarrow> 'r) \<Rightarrow> 's SchedulerServer \<Rightarrow> 'r" where
  "RegisterSchedulerServer RegisterService srv = RegisterService Scheduler_ServiceDesc srv"

section \<open>Client side\<close>

text \<open>
  \<^verbatim>\<open>Invoke\<close> gets the method name, the request and the message to be filled, and returns that
  message and an error, if any.
\<close>

type_synonym 's invoke = "string \<Rightarrow> any \<Rightarrow> any \<Rightarrow> 's \<Rightarrow> 's \<times> any \<times> err option"

definition Client_SubmitWorkflow :: "'s invoke \<Rightarrow> WorkflowSpec \<Rightarrow> 's \<Rightarrow> 's \<times> (err + SubmitWorkflowResponse)" where
  "Client_SubmitWorkflow Invoke inp s =
     (case Invoke Scheduler_SubmitWorkflow_FullMethodName (A_WorkflowSpec inp) new_SubmitWorkflowResponse s of
        (s, _, Some e) \<Rightarrow> (s, Inl e)
      | (s, out, None) \<Rightarrow> (s, Inr (un_SubmitWorkflowResponse out)))"

definition Client_GetWorkflowStatus :: "'s invoke \<Rightarrow> string \<Rightarrow> 's \<Rightarrow> 's \<times> (err + WorkflowStatus)" where
  "Client_GetWorkflowStatus Invoke inp s =
     (case Invoke Scheduler_GetWorkflowStatus_FullMethodName (A_GetWorkflowStatusRequest inp) new_WorkflowStatus s of
        (s, _, Some e) \<Rightarrow> (s, Inl e)
      | (s, out, None) \<Rightarrow> (s, Inr (un_WorkflowStatus out)))"

definition Client_CancelWorkflow :: "'s invoke \<Rightarrow> string \<Rightarrow> 's \<Rightarrow> 's \<times> (err + CancelWorkflowResponse)" where
  "Client_CancelWorkflow Invoke inp s =
     (case Invoke Scheduler_CancelWorkflow_FullMethodName (A_CancelWorkflowRequest inp) new_CancelWorkflowResponse s of
        (s, _, Some e) \<Rightarrow> (s, Inl e)
      | (s, out, None) \<Rightarrow> (s, Inr (un_CancelWorkflowResponse out)))"

definition Client_WorkerStream ::
    "(StreamDesc \<Rightarrow> string \<Rightarrow> err + 'stream) \<Rightarrow> err + 'stream" where
  "Client_WorkerStream NewStream =
     (case NewStream (fst (Streams Scheduler_ServiceDesc ! 0)) Scheduler_WorkerStream_FullMethodName of
        Inl e \<Rightarrow> Inl e
      | Inr stream \<Rightarrow> Inr stream)"

section \<open>What a connection promises\<close>

text \<open>
  The contract of the library for a connection to a server with one registered service: a call
  that succeeds has run the handler of the method once, on the request that was sent, and
  returns its response; a call that fails has run it at most once. The failure may be the
  handler's own, or a lost request or response.
\<close>

definition method_path :: "'s ServiceDesc \<Rightarrow> string \<Rightarrow> string" where
  "method_path desc m = ''/'' @ ServiceName desc @ ''/'' @ m"

locale grpc_conn =
  fixes Invoke :: "'s invoke" and desc :: "'s ServiceDesc" and srv :: "'s SchedulerServer"
  assumes answered: "(m, h) \<in> set (Methods desc) \<Longrightarrow> Invoke (method_path desc m) inp out s = (s', out', None) \<Longrightarrow>
      h srv (\<lambda>_. Inr inp) None s = (s', Inr out')"
    and unanswered: "(m, h) \<in> set (Methods desc) \<Longrightarrow> Invoke (method_path desc m) inp out s = (s', out', Some e) \<Longrightarrow>
      s' = s \<or> s' = fst (h srv (\<lambda>_. Inr inp) None s)"

text \<open>A client over a connection, seen as a server: what is left of a call on the way.\<close>

definition relayed :: "('s \<times> (err + 'a)) \<Rightarrow> ('s \<times> (err + 'a)) \<Rightarrow> 's \<Rightarrow> bool" where
  "relayed client server s \<longleftrightarrow>
     (case client of
        (s', Inr res) \<Rightarrow> server = (s', Inr res)
      | (s', Inl e) \<Rightarrow> s' = s \<or> s' = fst server)"

context grpc_conn
begin

lemma relay:
  assumes "(m, h) \<in> set (Methods desc)" and "h srv (\<lambda>_. Inr inp) None s = apsnd (map_sum id A) (f s)"
    and "\<And>x. U (A x) = x"
  shows "relayed (case Invoke (method_path desc m) inp out s of
      (s, _, Some e) \<Rightarrow> (s, Inl e) | (s, out, None) \<Rightarrow> (s, Inr (U out))) (f s) s"
proof -
  obtain s' out' e where i: "Invoke (method_path desc m) inp out s = (s', out', e)" by (metis prod_cases3)
  obtain t r where f: "f s = (t, r)" by fastforce
  show ?thesis
  proof (cases e)
    case None
    with answered [OF assms(1) i [unfolded None]] assms(2,3) i f show ?thesis
      by (cases r) (auto simp: relayed_def)
  next
    case (Some e')
    with unanswered [OF assms(1) i [unfolded Some]] assms(2) i f show ?thesis
      by (auto simp: relayed_def)
  qed
qed

end

text \<open>Each client method names the handler of the same server method.\<close>

locale scheduler_conn = grpc_conn Invoke Scheduler_ServiceDesc srv
  for Invoke :: "'s invoke" and srv :: "'s SchedulerServer"
begin

lemma submit_relayed: "relayed (Client_SubmitWorkflow Invoke w s) (srv_SubmitWorkflow srv w s) s"
  using relay [of "''SubmitWorkflow''" Scheduler_SubmitWorkflow_Handler "A_WorkflowSpec w" s A_SubmitWorkflowResponse
      "srv_SubmitWorkflow srv w" un_SubmitWorkflowResponse new_SubmitWorkflowResponse]
  by (simp add: Client_SubmitWorkflow_def Scheduler_ServiceDesc_def method_path_def method_names handler_stubs)

lemma status_relayed: "relayed (Client_GetWorkflowStatus Invoke w s) (srv_GetWorkflowStatus srv w s) s"
  using relay [of "''GetWorkflowStatus''" Scheduler_GetWorkflowStatus_Handler "A_GetWorkflowStatusRequest w" s A_WorkflowStatus
      "srv_GetWorkflowStatus srv w" un_WorkflowStatus new_WorkflowStatus]
  by (simp add: Client_GetWorkflowStatus_def Scheduler_ServiceDesc_def method_path_def method_names handler_stubs)

lemma cancel_relayed: "relayed (Client_CancelWorkflow Invoke w s) (srv_CancelWorkflow srv w s) s"
  using relay [of "''CancelWorkflow''" Scheduler_CancelWorkflow_Handler "A_CancelWorkflowRequest w" s A_CancelWorkflowResponse
      "srv_CancelWorkflow srv w" un_CancelWorkflowResponse new_CancelWorkflowResponse]
  by (simp add: Client_CancelWorkflow_def Scheduler_ServiceDesc_def method_path_def method_names handler_stubs)

end

text \<open>A connection within one process, which looks the method up and calls it.\<close>

definition direct_invoke :: "'s ServiceDesc \<Rightarrow> 's SchedulerServer \<Rightarrow> 's invoke" where
  "direct_invoke desc srv path inp out s =
     (case map_of (map (\<lambda>(m, h). (method_path desc m, h)) (Methods desc)) path of
        None \<Rightarrow> (s, out, Some (LibErr ''unknown method''))
      | Some h \<Rightarrow>
          (case h srv (\<lambda>_. Inr inp) None s of
             (s, Inl e) \<Rightarrow> (s, out, Some e)
           | (s, Inr res) \<Rightarrow> (s, res, None)))"

lemma direct_methods:
  assumes "(m, h) \<in> set (Methods Scheduler_ServiceDesc)"
  shows "map_of (map (\<lambda>(m, h). (method_path Scheduler_ServiceDesc m, h)) (Methods Scheduler_ServiceDesc))
    (method_path Scheduler_ServiceDesc m) = Some h"
  using assms by (auto simp: Scheduler_ServiceDesc_def method_path_def)

interpretation direct: scheduler_conn "direct_invoke Scheduler_ServiceDesc srv" srv for srv
  by unfold_locales (auto simp: direct_invoke_def direct_methods split: prod.splits sum.splits)

end
