(* ===== verification/Remote_Props.thy ===== *)
theory Remote_Props
  imports Cli_Props Grpc_Stubs
begin

text \<open>
  The client program against the service, over the stubs and a connection that may lose
  requests and responses.
\<close>

section \<open>Submitting over a connection\<close>

text \<open>What a command makes of a relayed call is what it makes of the call, or an error.\<close>

lemma runSubmit_relayed:
  assumes "relayed (submit w c) (serve w c) c" and "readFile path = Inr bytes" and "unmarshal bytes = Inr p"
    and "w = workflow_spec_of uu p"
    and "runSubmit readFile unmarshal uu submit (path # rest) c = (c', out, res)"
  shows "runSubmit readFile unmarshal uu serve (path # rest) c = (c', out, res) \<or>
    (\<exists>m. res = Inl m) \<and> out = [] \<and>
    (c' = c \<or> (\<exists>out' res'. runSubmit readFile unmarshal uu serve (path # rest) c = (c', out', res')))"
proof -
  obtain s r where s: "submit w c = (s, r)" by fastforce
  obtain t q where t: "serve w c = (t, q)" by fastforce
  show ?thesis
  proof (cases r)
    case (Inr a)
    with assms(1) s t have "serve w c = submit w c" by (simp add: relayed_def)
    then show ?thesis using assms(2-5) by (simp add: runSubmit_def)
  next
    case (Inl e)
    then have "res = Inl (''SubmitWorkflow RPC failed: '' @ Error_String e)" "out = []" "c' = s"
      using assms(2-5) s by (auto simp: runSubmit_def)
    moreover have "s = c \<or> s = t" using assms(1) s t Inl by (simp add: relayed_def)
    moreover have "\<exists>out' res'. runSubmit readFile unmarshal uu serve (path # rest) c = (t, out', res')"
      using assms(2-4) t by (auto simp: runSubmit_def split: sum.splits)
    ultimately show ?thesis by blast
  qed
qed

text \<open>
  C26. Submitting a file is faithful end to end: over the client stub, a connection that may lose
  the request or the response, the server stub and the service, the coordinator stays in a
  reachable state. If the command reports success, the workflow is valid and every task of the
  payload is cached with its own command, dependencies and limits, and stored QUEUED or
  PENDING according to its dependencies. If the workflow is invalid, the command fails and the
  coordinator is unchanged.
\<close>

theorem remote_submission_is_faithful:
  assumes "bolt_spec B" and "reachable B c"
    and "scheduler_conn Invoke (SchedulerService unimplemented B clk ords env)"
    and "readFile path = Inr bytes" and "unmarshal bytes = Inr p"
    and "w = workflow_spec_of uu p" and "small_workflow w" and "submit_orders w ords" and "fresh_workflow B c w"
    and "runSubmit readFile unmarshal uu (Client_SubmitWorkflow Invoke) (path # rest) c = (c', out, res)"
  shows "reachable B c' \<and>
    (res = Inr () \<longrightarrow> valid_workflow w \<and>
       (\<forall>t\<in>set (pl_Tasks p). taskSpecCache c' (pl_TaskID t) = Some (task_spec_of t) \<and>
          (\<exists>r. task_table B (state c') (pl_TaskID t) = Some r \<and>
               State r = (if pl_Dependencies t = [] then TASK_QUEUED else TASK_PENDING)))) \<and>
    (\<not> valid_workflow w \<longrightarrow> c' = c \<and> out = [] \<and> res \<noteq> Inr ())"
proof -
  let ?serve = "\<lambda>w c. Service_SubmitWorkflow B clk ords c w"
  note local_run = submit_command_is_faithful [where readFile = readFile and unmarshal = unmarshal and path = path,
      OF assms(1,2,4-9)]
  have "relayed (Client_SubmitWorkflow Invoke w c) (?serve w c) c"
    using scheduler_conn.submit_relayed [OF assms(3), of w c] by (simp add: SchedulerService_def)
  from runSubmit_relayed [where readFile = readFile and unmarshal = unmarshal and path = path and serve = ?serve,
      OF this assms(4-6,10)] show ?thesis
  proof (elim disjE conjE exE)
    assume "runSubmit readFile unmarshal uu ?serve (path # rest) c = (c', out, res)"
    from local_run [OF this] show ?thesis by auto
  next
    fix m assume "res = Inl m" "out = []" "c' = c"
    with assms(2) show ?thesis by simp
  next
    fix m out' res' assume "res = Inl m" "out = []" "runSubmit readFile unmarshal uu ?serve (path # rest) c = (c', out', res')"
    with local_run [of clk rest c' out' res'] show ?thesis by auto
  qed
qed

theorem remote_submission_is_faithful_witness:
  "\<exists>out. runSubmit (\<lambda>_. Inr ''json'') (\<lambda>_. Inr sample_payload) id
       (Client_SubmitWorkflow (direct_invoke Scheduler_ServiceDesc
          (SchedulerService LibErr list_bolt (\<lambda>_ _. 7) (\<lambda>_. [''a'', ''b'']) (\<lambda>_ c. c)))) [''wf.json''] run0 = (run1, out, Inr ()) \<and>
     (\<exists>r. task_table list_bolt (state run1) ''b'' = Some r \<and> State r = TASK_PENDING)"
proof -
  let ?srv = "SchedulerService LibErr list_bolt (\<lambda>_ _. 7) (\<lambda>_. [''a'', ''b'']) (\<lambda>_ c. c)"
  let ?client = "Client_SubmitWorkflow (direct_invoke Scheduler_ServiceDesc ?srv)"
  have call: "?client sample_workflow run0 =
      (run1, Inr \<lparr>swr_WorkflowId = WorkflowId sample_workflow, swr_Success = True, swr_Error = []\<rparr>)"
    using run1 [THEN conjunct2]
    by (simp add: Client_SubmitWorkflow_def direct_invoke_def Scheduler_ServiceDesc_def method_path_def method_names
        handler_stubs SchedulerService_def Service_SubmitWorkflow_def)
  obtain out where run: "runSubmit (\<lambda>_. Inr ''json'') (\<lambda>_. Inr sample_payload) id ?client [''wf.json''] run0 = (run1, out, Inr ())"
    using call by (simp add: runSubmit_def sample_payload_spec)
  have small: "small_workflow sample_workflow" by (simp add: small_workflow_def)
  from remote_submission_is_faithful [OF lb.bolt_spec_axioms reachable_run0 direct.scheduler_conn_axioms refl refl
      sample_payload_spec [symmetric] small sample_orders sample_fresh run]
  have "\<forall>t\<in>set (pl_Tasks sample_payload). \<exists>r. task_table list_bolt (state run1) (pl_TaskID t) = Some r \<and>
     State r = (if pl_Dependencies t = [] then TASK_QUEUED else TASK_PENDING)" by blast
  then have "\<exists>r. task_table list_bolt (state run1) ''b'' = Some r \<and> State r = TASK_PENDING"
    by (simp add: sample_payload_def)
  with run show ?thesis by blast
qed

end
