(* ===== verification/Dashboard_Props.thy ===== *)
theory Dashboard_Props
  imports Dashboard Service_Props
begin

text \<open>
  Properties of the dashboard's REST handlers on the stores of reachable coordinators.
\<close>

section \<open>Helpers\<close>

lemma count_done_failed:
  "countTaskDoneAndFailed ts =
     (length (filter (\<lambda>t. ts_State t = TASK_COMPLETE \<or> ts_State t = TASK_SKIPPED) ts),
      length (filter (\<lambda>t. ts_State t = TASK_FAILED) ts))"
  by (induction ts) (auto split: TaskState.split)

lemma trimOutput_bound: "length (trimOutput s n) \<le> n + 3" "take n (trimOutput s n) = take n s"
  by (simp_all add: trimOutput_def)

lemma statusByID_set:
  assumes "distinct (map ts_TaskId ts)"
  shows "statusByID ts k = Some st \<longleftrightarrow> st \<in> set ts \<and> ts_TaskId st = k"
proof -
  have "fold (\<lambda>ts m. m(ts_TaskId ts \<mapsto> ts)) ts m k = Some st \<longleftrightarrow>
      st \<in> set ts \<and> ts_TaskId st = k \<or> k \<notin> ts_TaskId ` set ts \<and> m k = Some st" for m
    using assms by (induction ts arbitrary: m) (auto simp: image_iff)
  then show ?thesis by (simp add: statusByID_def)
qed

definition tasks_where :: "table \<Rightarrow> string \<Rightarrow> (TaskState \<Rightarrow> bool) \<Rightarrow> string set" where
  "tasks_where T w P = {t. \<exists>r. T t = Some r \<and> WorkflowID r = w \<and> P (State r)}"

text \<open>A summary tells the truth about the workflow of its id.\<close>

definition truthful :: "i64 \<Rightarrow> table \<Rightarrow> WorkflowStateRecord \<Rightarrow> workflowSummary \<Rightarrow> bool" where
  "truthful now T rec s \<longleftrightarrow>
     sum_ID s = wsr_WorkflowID rec \<and> sum_State s = WorkflowState_String (wsr_State rec) \<and>
     sum_SubmittedAtMs s = SubmittedAtMs rec \<and> sum_CompletedAtMs s = CompletedAtMs rec \<and>
     sum_DurationMs s = computeDuration rec now \<and>
     sum_TaskCount s = card (tasks_where T (sum_ID s) (\<lambda>_. True)) \<and>
     sum_DoneCount s = card (tasks_where T (sum_ID s) (\<lambda>st. st = TASK_COMPLETE \<or> st = TASK_SKIPPED)) \<and>
     sum_FailedCount s = card (tasks_where T (sum_ID s) (\<lambda>st. st = TASK_FAILED))"

context bolt_spec
begin

lemma statuses_count:
  assumes "tasks_wf B db" and "GetTaskStatusesForWorkflow B db w = (ts, e)"
  shows "length (filter (\<lambda>t. P (ts_State t)) ts) = card (tasks_where (task_table B db) w P)"
proof -
  let ?ks = "filter (\<lambda>t. WorkflowID (the (task_table B db t)) = w \<and> P (State (the (task_table B db t)))) (task_keys B db)"
  have "length (filter (\<lambda>t. P (ts_State t)) ts) = length ?ks"
    using assms by (auto simp: statuses_table filter_map comp_def status_of_def conj_commute)
  also have "\<dots> = card (set ?ks)" 
    by (rule distinct_card [symmetric]) (simp add: task_keys(2) [OF assms(1)])
  also have "set ?ks = tasks_where (task_table B db) w P"
    using task_keys(1) [OF assms(1)] by (auto simp: tasks_where_def)
  finally show ?thesis .
qed

lemma summarize_truthful:
  assumes "tasks_wf B db" and "GetTaskStatusesForWorkflow B db (wsr_WorkflowID rec) = (ts, e)"
  shows "truthful now (task_table B db) rec (summarize now p rec ts)"
  using statuses_count [OF assms, of "\<lambda>_. True"] statuses_count [OF assms, of "\<lambda>st. st = TASK_FAILED"]
    statuses_count [OF assms, of "\<lambda>st. st = TASK_COMPLETE \<or> st = TASK_SKIPPED"]
  by (simp add: truthful_def summarize_def count_done_failed)

lemma summaries_table:
  assumes "tasks_wf B db"
  shows "\<exists>ss. summaries B db now recs = Some ss \<and> list_all2 (truthful now (task_table B db)) recs ss"
proof (induction recs)
  case (Cons rec recs)
  obtain ts where "GetTaskStatusesForWorkflow B db (wsr_WorkflowID rec) = (ts, None)"
    by (simp add: statuses_table [OF assms])
  with Cons summarize_truthful [OF assms, of rec ts None now "[]"] show ?case by auto
qed simp

lemma workflow_list:
  assumes "tasks_wf B db" and "workflows_wf B db" and "sorts_by newer_workflow srt"
  obtains ss where "handleAPIWorkflowList B srt now db = JsonOK ss"
    "distinct (map sum_ID ss)" "set (map sum_ID ss) = dom (wf_table B db)"
    "sorted_wrt (\<lambda>x y. sint (sum_SubmittedAtMs x) \<ge> sint (sum_SubmittedAtMs y)) ss"
    "\<And>s. s \<in> set ss \<Longrightarrow> \<exists>rec. wf_table B db (sum_ID s) = Some rec \<and> truthful now (task_table B db) rec s"
proof -
  obtain rs where rs: "GetAllWorkflowStates B db = (rs, None)" "set rs = ran (wf_table B db)"
    "distinct (map wsr_WorkflowID rs)"
    by (rule GetAllWorkflowStates_table [OF assms(2)])
  obtain ss where ss: "summaries B db now rs = Some ss" "list_all2 (truthful now (task_table B db)) rs ss"
    using summaries_table [OF assms(1)] by blast
  have ids: "map sum_ID ss = map wsr_WorkflowID rs"
    using ss(2) by (induction rule: list_all2_induct) (simp_all add: truthful_def)
  have own: "wf_table B db (wsr_WorkflowID rec) = Some rec" if "rec \<in> set rs" for rec
  proof -
    from that rs(2) obtain w where w: "wf_table B db w = Some rec" by (auto simp: ran_def)
    with wf_table_key [OF assms(2) w] show ?thesis by simp
  qed
  have srt: "mset (srt ss) = mset ss" "sorted_wrt (\<lambda>x y. \<not> newer_workflow y x) (srt ss)"
    using assms(3) by (simp_all add: sorts_by_def)
  have dom: "wsr_WorkflowID ` set rs = dom (wf_table B db)"
  proof
    show "dom (wf_table B db) \<subseteq> wsr_WorkflowID ` set rs"
      using rs(2) wf_table_key [OF assms(2)] by (fastforce simp: ran_def)
  qed (use own in auto)
  show thesis
  proof (rule that [of "srt ss"])
    show "handleAPIWorkflowList B srt now db = JsonOK (srt ss)"
      by (simp add: handleAPIWorkflowList_def rs(1) ss(1))
    show "distinct (map sum_ID (srt ss))"
      using rs(3) ids srt(1) by (metis mset_eq_imp_distinct_iff mset_map)
    show "set (map sum_ID (srt ss)) = dom (wf_table B db)"
      using dom ids srt(1) by (metis list.set_map mset_eq_setD)
    show "sorted_wrt (\<lambda>x y. sint (sum_SubmittedAtMs x) \<ge> sint (sum_SubmittedAtMs y)) (srt ss)"
      using srt(2) by (simp add: newer_workflow_def not_less)
    show "\<exists>rec. wf_table B db (sum_ID s) = Some rec \<and> truthful now (task_table B db) rec s" if "s \<in> set (srt ss)" for s
    proof -
      have "s \<in> set ss" using that srt(1) by (metis mset_eq_setD)
      then obtain rec where "rec \<in> set rs" "truthful now (task_table B db) rec s"
        using ss(2) by (fastforce simp: list_all2_conv_all_nth in_set_conv_nth)
      with own [of rec] show ?thesis by (auto simp: truthful_def)
    qed
  qed
qed

lemma workflow_detail:
  assumes "tasks_wf B db" and "workflows_wf B db" and "w \<noteq> []"
  shows "case wf_table B db w of
      None \<Rightarrow> handleAPIWorkflowDetail B now db (''/api/workflows/'' @ w) = HttpError ''workflow not found'' 404
    | Some rec \<Rightarrow> \<exists>d. handleAPIWorkflowDetail B now db (''/api/workflows/'' @ w) = JsonOK d \<and>
        truthful now (task_table B db) rec (det_Summary d) \<and>
        (case spec_table B db w of
           Some spec \<Rightarrow> map td_ID (det_Tasks d) = map TaskId (Tasks spec) \<and>
             map td_Command (det_Tasks d) = map Command (Tasks spec)
         | None \<Rightarrow> set (map td_ID (det_Tasks d)) = tasks_where (task_table B db) w (\<lambda>_. True))"
proof -
  obtain ts where ts: "GetTaskStatusesForWorkflow B db w = (ts, None)"
    and eq: "ts = map (\<lambda>t. status_of (the (task_table B db t)))
       (filter (\<lambda>t. WorkflowID (the (task_table B db t)) = w) (task_keys B db))"
    by (simp add: statuses_table [OF assms(1)])
  have id: "TaskID r = t" if "task_table B db t = Some r" for t r
    using table_record(1) [OF assms(1) that] by (simp add: record_wf_def)
  have all: "ts_TaskId ` set ts = tasks_where (task_table B db) w (\<lambda>_. True)"
  proof -
    have "map ts_TaskId ts = filter (\<lambda>t. WorkflowID (the (task_table B db t)) = w) (task_keys B db)"
      unfolding eq map_map
      by (rule map_idI) (use task_keys(1) [OF assms(1)] in \<open>auto simp: status_of_def id\<close>)
    then have "ts_TaskId ` set ts = set (filter (\<lambda>t. WorkflowID (the (task_table B db t)) = w) (task_keys B db))"
      by (metis list.set_map)
    then show ?thesis unfolding tasks_where_def using task_keys(1) [OF assms(1)] by auto
  qed
  have ids: "td_ID (spec_detail m t) = TaskId t" "td_Command (spec_detail m t) = Command t" for m t
    by (simp_all add: spec_detail_def Let_def split: option.split)
  from assms(2) show ?thesis
  proof (cases rule: wf_bucket_cases [of db w])
    case absent
    then show ?thesis
      using assms(3) by (simp add: handleAPIWorkflowDetail_def TrimPrefix_def GetWorkflowState_def fatal_def)
  next
    case (stored r)
    have st: "GetWorkflowState B db w = Inr r"
      using stored(2) by (auto simp: wf_table_def split: sum.splits)
    have "wsr_WorkflowID r = w" using stored(3) by (simp add: wf_record_ok_def)
    with ts have tr: "truthful now (task_table B db) r (summarize now p r ts)" for p
      by (intro summarize_truthful [OF assms(1)]) simp
    show ?thesis
    proof (cases "GetWorkflow B db w")
      case (Inl e)
      with GetWorkflow_error [OF Inl] stored(2) st ts tr assms(3) all show ?thesis
        by (simp add: handleAPIWorkflowDetail_def TrimPrefix_def spec_table_def status_detail_def image_image)
    next
      case (Inr spec)
      with stored(2) st ts tr assms(3) show ?thesis
        by (simp add: handleAPIWorkflowDetail_def TrimPrefix_def spec_table_def ids comp_def)
    qed
  qed
qed

end

section \<open>Properties\<close>

text \<open>
  C29. The workflow list of the dashboard is the store's: it has each stored workflow once and
  nothing else, newest submission first, and every row tells the stored state and times
  and the true numbers of tasks, of finished (COMPLETE or SKIPPED) and of FAILED tasks of
  that workflow.
\<close>

theorem dashboard_lists_the_store:
  assumes "bolt_spec B" and "reachable B c" and "sorts_by newer_workflow srt"
  shows "\<exists>ss. handleAPIWorkflowList B srt now (state c) = JsonOK ss \<and>
    distinct (map sum_ID ss) \<and> set (map sum_ID ss) = dom (wf_table B (state c)) \<and>
    sorted_wrt (\<lambda>x y. sint (sum_SubmittedAtMs x) \<ge> sint (sum_SubmittedAtMs y)) ss \<and>
    (\<forall>s\<in>set ss. \<exists>rec. wf_table B (state c) (sum_ID s) = Some rec \<and> truthful now (task_table B (state c)) rec s)"
  by (rule bolt_spec.workflow_list [OF assms(1) bolt_spec.reachable_store(1,2) [OF assms(1,2)] assms(3), of now]) blast

definition by_time :: "workflowSummary list \<Rightarrow> workflowSummary list" where
  "by_time = sort_key (\<lambda>s. - sint (sum_SubmittedAtMs s))"

theorem dashboard_lists_the_store_witness:
  "\<exists>s. handleAPIWorkflowList list_bolt by_time 9 (state run3) = JsonOK [s] \<and> sum_ID s = ''w''"
proof -
  have "sorts_by newer_workflow by_time"
    using sorted_sort_key [of "\<lambda>s. - sint (sum_SubmittedAtMs s)"]
    by (auto simp: sorts_by_def by_time_def newer_workflow_def sorted_map not_less)
  from dashboard_lists_the_store [OF lb.bolt_spec_axioms reachable_runs(3) this, of 9]
  obtain ss where ss: "handleAPIWorkflowList list_bolt by_time 9 (state run3) = JsonOK ss" "distinct (map sum_ID ss)"
    "set (map sum_ID ss) = dom (wf_table list_bolt (state run3))" by blast
  have "dom (wf_table list_bolt (state run3)) = {''w''}"
    by (auto simp: dom_def wf_table_def GetWorkflowState_def sample_db_def list_bolt_def workflow_state_roundtrip
        split: if_splits)
  with ss(2,3) have "map sum_ID ss = [''w'']" by (cases ss; cases "tl ss"; fastforce)
  with ss(1) show ?thesis by auto
qed

text \<open>
  C30. The detail page answers 404 with the store's message for an unknown workflow; otherwise
  its summary is truthful and it has one row per task of the stored specification, in
  that order and with that command, or, when the specification is gone, one row for each
  stored task of the workflow and no other.
\<close>

theorem dashboard_details_a_workflow:
  assumes "bolt_spec B" and "reachable B c" and "w \<noteq> []"
  shows "case wf_table B (state c) w of
      None \<Rightarrow> handleAPIWorkflowDetail B now (state c) (''/api/workflows/'' @ w) = HttpError ''workflow not found'' 404
    | Some rec \<Rightarrow> \<exists>d. handleAPIWorkflowDetail B now (state c) (''/api/workflows/'' @ w) = JsonOK d \<and>
        truthful now (task_table B (state c)) rec (det_Summary d) \<and>
        (case spec_table B (state c) w of
           Some spec \<Rightarrow> map td_ID (det_Tasks d) = map TaskId (Tasks spec) \<and>
             map td_Command (det_Tasks d) = map Command (Tasks spec)
         | None \<Rightarrow> set (map td_ID (det_Tasks d)) = tasks_where (task_table B (state c)) w (\<lambda>_. True))"
  by (rule bolt_spec.workflow_detail [OF assms(1) bolt_spec.reachable_store(1,2) [OF assms(1,2)] assms(3)])

theorem dashboard_details_a_workflow_witness:
  "\<exists>d. handleAPIWorkflowDetail list_bolt 9 (state run3) ''/api/workflows/w'' = JsonOK d \<and>
     sum_State (det_Summary d) = ''WORKFLOW_RUNNING''"
  using dashboard_details_a_workflow [OF lb.bolt_spec_axioms reachable_runs(3), of "''w''" 9]
  by (auto simp: truthful_def)

end
