(* ===== verification/Http_Routes.thy ===== *)
theory Http_Routes
  imports Dashboard Sample_Run "HOL-Library.Sublist"
begin

text \<open>
  The HTTP server of the coordinator: the patterns that \<^verbatim>\<open>main\<close> and \<^verbatim>\<open>register\<close> give to one
  \<^verbatim>\<open>http.ServeMux\<close>, the functions of \<^verbatim>\<open>net/http\<close> that clean a path and choose a handler, and the
  answer of that handler. Paths hold no percent escapes, so \<^verbatim>\<open>EscapedPath\<close> is the path itself; the
  text of the page, the sorting functions and the clock are parameters.
\<close>

section \<open>Clean paths\<close>

text \<open>\<^verbatim>\<open>path.Clean\<close> on a rooted path: empty and dot segments go, a double dot takes the one before it.\<close>

fun split_slash :: "string \<Rightarrow> string list" where
  "split_slash [] = [[]]"
| "split_slash (ch # s) =
     (if ch = CHR ''/'' then [] # split_slash s else (ch # hd (split_slash s)) # tl (split_slash s))"

fun clean_segments :: "string list \<Rightarrow> string list \<Rightarrow> string list" where
  "clean_segments [] out = rev out"
| "clean_segments (s # ss) out =
     (if s = [] \<or> s = ''.'' then clean_segments ss out
      else if s = ''..'' then clean_segments ss (tl out)
      else clean_segments ss (s # out))"

definition rooted :: "string list \<Rightarrow> string" where
  "rooted ss = (if ss = [] then ''/'' else concat (map (\<lambda>s. CHR ''/'' # s) ss))"

definition path_Clean :: "string \<Rightarrow> string" where
  "path_Clean p = rooted (clean_segments (split_slash p) [])"

definition cleanPath :: "string \<Rightarrow> string" where
  "cleanPath p =
     (if p = [] then ''/''
      else
        let p = (if hd p \<noteq> CHR ''/'' then CHR ''/'' # p else p);
            np = path_Clean p in
        if last p = CHR ''/'' \<and> np \<noteq> ''/'' then np @ ''/'' else np)"

section \<open>The rule of ServeMux\<close>

text \<open>
  A pattern matches the path it is, and a pattern that ends in a slash every path below it; the
  longest match wins. A path without a slash at its end that no pattern equals is redirected, if
  the path with the slash is a pattern; then a path that is not clean is redirected to its clean form.
\<close>

definition mux_matches :: "string \<Rightarrow> string \<Rightarrow> bool" where
  "mux_matches pat path \<longleftrightarrow> path = pat \<or> (pat \<noteq> [] \<and> last pat = CHR ''/'' \<and> prefix pat path)"

fun mux_match :: "(string \<times> 'h) list \<Rightarrow> string \<Rightarrow> (string \<times> 'h) option" where
  "mux_match [] path = None"
| "mux_match ((pat, h) # pats) path =
     (case mux_match pats path of
        None \<Rightarrow> if mux_matches pat path then Some (pat, h) else None
      | Some (pat', h') \<Rightarrow>
          if mux_matches pat path \<and> length pat > length pat' then Some (pat, h) else Some (pat', h'))"

definition exactMatch :: "(string \<times> 'h) option \<Rightarrow> string \<Rightarrow> bool" where
  "exactMatch n path \<longleftrightarrow> (case n of None \<Rightarrow> False | Some (pat, h) \<Rightarrow> pat = path)"

definition matchOrRedirect :: "(string \<times> 'h) list \<Rightarrow> string \<Rightarrow> string + (string \<times> 'h) option" where
  "matchOrRedirect pats path =
     (let n = mux_match pats path in
      if \<not> exactMatch n path \<and> path \<noteq> [] \<and> last path \<noteq> CHR ''/'' \<and> exactMatch (mux_match pats (path @ ''/'')) (path @ ''/'')
      then Inl (path @ ''/'') else Inr n)"

datatype 'h served = Serve 'h | Redirect string | NoHandler

definition findHandler :: "(string \<times> 'h) list \<Rightarrow> string \<Rightarrow> 'h served" where
  "findHandler pats p =
     (let path = cleanPath p in
      case matchOrRedirect pats path of
        Inl u \<Rightarrow> Redirect u
      | Inr n \<Rightarrow>
          if path \<noteq> p then Redirect path
          else (case n of None \<Rightarrow> NoHandler | Some (pat, h) \<Rightarrow> Serve h))"

section \<open>The routes of the coordinator\<close>

datatype page_handler =
    promhttp_Handler | pprof_Index | pprof_Cmdline | pprof_Profile | pprof_Symbol | pprof_Trace
  | root_func | handleAPIWorkflowList_func | handleAPIWorkflowDetail_func | handleAPIWorkers_func

text \<open>The patterns of \<^verbatim>\<open>register\<close>, and then all of them.\<close>

definition dashboard_patterns :: "(string \<times> page_handler) list" where
  "dashboard_patterns =
     [(''/'', root_func), (''/api/workflows'', handleAPIWorkflowList_func),
      (''/api/workflows/'', handleAPIWorkflowDetail_func), (''/api/workers'', handleAPIWorkers_func)]"

definition main_patterns :: "(string \<times> page_handler) list" where
  "main_patterns =
     [(''/metrics'', promhttp_Handler), (''/debug/pprof/'', pprof_Index), (''/debug/pprof/cmdline'', pprof_Cmdline),
      (''/debug/pprof/profile'', pprof_Profile), (''/debug/pprof/symbol'', pprof_Symbol), (''/debug/pprof/trace'', pprof_Trace)]
     @ dashboard_patterns"

text \<open>
  What a request is answered: a value of one of the REST handlers, the page, a 404, a redirect, or
  whatever a handler of another package gives. The state that the handlers read is one record.
\<close>

datatype http_response =
    ListResponse "workflowSummary list response"
  | DetailResponse "workflowDetail response"
  | WorkersResponse "workerSummary list response"
  | PageResponse string
  | NotFound
  | MovedPermanently string
  | OtherResponse page_handler

record 'b dashboardServer =
  ds_store :: "'b DB"
  ds_bolt :: "'b bolt"
  ds_now :: i64
  ds_sort_workflows :: "workflowSummary list \<Rightarrow> workflowSummary list"
  ds_sort_workers :: "workerSummary list \<Rightarrow> workerSummary list"
  dashboardHTML :: string

definition handleRoot :: "'b dashboardServer \<Rightarrow> string \<Rightarrow> http_response" where
  "handleRoot d path = (if path = ''/'' \<or> path = ''/dashboard'' then PageResponse (dashboardHTML d) else NotFound)"

definition run_handler :: "'b dashboardServer \<Rightarrow> page_handler \<Rightarrow> string \<Rightarrow> http_response" where
  "run_handler d h path =
     (case h of
        root_func \<Rightarrow> handleRoot d path
      | handleAPIWorkflowList_func \<Rightarrow>
          ListResponse (handleAPIWorkflowList (ds_bolt d) (ds_sort_workflows d) (ds_now d) (ds_store d))
      | handleAPIWorkflowDetail_func \<Rightarrow> DetailResponse (handleAPIWorkflowDetail (ds_bolt d) (ds_now d) (ds_store d) path)
      | handleAPIWorkers_func \<Rightarrow>
          WorkersResponse (handleAPIWorkers (ds_bolt d) (ds_sort_workers d) (ds_now d) (ds_store d))
      | _ \<Rightarrow> OtherResponse h)"

definition ServeHTTP :: "'b dashboardServer \<Rightarrow> string \<Rightarrow> http_response" where
  "ServeHTTP d p =
     (case findHandler main_patterns p of
        Serve h \<Rightarrow> run_handler d h p
      | Redirect u \<Rightarrow> MovedPermanently u
      | NoHandler \<Rightarrow> NotFound)"

text \<open>A client that follows one redirect.\<close>

definition browse :: "'b dashboardServer \<Rightarrow> string \<Rightarrow> http_response" where
  "browse d p = (case ServeHTTP d p of MovedPermanently u \<Rightarrow> ServeHTTP d u | r \<Rightarrow> r)"

section \<open>Cleaning is idempotent\<close>

definition clean_segment :: "string \<Rightarrow> bool" where
  "clean_segment s \<longleftrightarrow> s \<noteq> [] \<and> s \<noteq> ''.'' \<and> s \<noteq> ''..'' \<and> CHR ''/'' \<notin> set s"

lemma split_slash_ne [simp]: "split_slash s \<noteq> []"
  by (cases s) simp_all

lemma split_slash_segments: "s \<in> set (split_slash p) \<Longrightarrow> CHR ''/'' \<notin> set s"
proof (induction p arbitrary: s)
  case (Cons ch p)
  have "hd (split_slash p) \<in> set (split_slash p)" by simp
  with Cons show ?case by (auto split: if_splits dest: list.set_sel(2) [OF split_slash_ne])
qed simp

lemma split_slash_append:
  "CHR ''/'' \<notin> set s \<Longrightarrow> split_slash (s @ p) = (s @ hd (split_slash p)) # tl (split_slash p)"
  by (induction s) auto

lemma split_rooted:
  "list_all clean_segment ss \<Longrightarrow>
   split_slash (concat (map (\<lambda>s. CHR ''/'' # s) ss) @ p) = butlast ([] # ss) @ (last ([] # ss) @ hd (split_slash p)) # tl (split_slash p)"
proof (induction ss)
  case (Cons s ss)
  then show ?case
    by (simp add: clean_segment_def split_slash_append hd_append)
qed simp

lemma clean_segments_clean:
  "list_all clean_segment out \<Longrightarrow> (\<And>s. s \<in> set ss \<Longrightarrow> CHR ''/'' \<notin> set s) \<Longrightarrow> list_all clean_segment (clean_segments ss out)"
proof (induction ss out rule: clean_segments.induct)
  case (2 s ss out)
  then show ?case by (cases out) (auto simp: clean_segment_def)
qed (simp add: list_all_iff)

lemma clean_segments_id: "list_all clean_segment ss \<Longrightarrow> clean_segments (ss @ rest) out = clean_segments rest (rev ss @ out)"
  by (induction ss arbitrary: out) (simp_all add: clean_segment_def)

text \<open>The clean paths: clean segments, and perhaps a slash at the end.\<close>

definition clean_path :: "string list \<Rightarrow> bool \<Rightarrow> string" where
  "clean_path ss slash = rooted ss @ (if slash \<and> ss \<noteq> [] then ''/'' else [])"

lemma cleanPath_form:
  obtains ss slash where "list_all clean_segment ss" and "cleanPath p = clean_path ss slash"
proof (cases "p = []")
  case True
  then show ?thesis using that [of "[]" False] by (simp add: cleanPath_def clean_path_def rooted_def)
next
  case False
  define p' where "p' = (if hd p \<noteq> CHR ''/'' then CHR ''/'' # p else p)"
  let ?ss = "clean_segments (split_slash p') []"
  have c: "list_all clean_segment ?ss"
    by (rule clean_segments_clean) (simp_all add: split_slash_segments)
  have "cleanPath p = (if last p' = CHR ''/'' \<and> rooted ?ss \<noteq> ''/'' then rooted ?ss @ ''/'' else rooted ?ss)"
    using False by (simp add: cleanPath_def p'_def path_Clean_def Let_def)
  moreover have "rooted ?ss = ''/'' \<longleftrightarrow> ?ss = []"
    using c by (cases ?ss) (auto simp: rooted_def clean_segment_def)
  ultimately show ?thesis using that [OF c, of "last p' = CHR ''/''"] by (simp add: clean_path_def)
qed

lemma concat_clean:
  assumes "list_all clean_segment ss" and "ss \<noteq> []"
  shows "hd (concat (map (\<lambda>s. CHR ''/'' # s) ss)) = CHR ''/''" "last (concat (map (\<lambda>s. CHR ''/'' # s) ss)) \<noteq> CHR ''/''"
    "concat (map (\<lambda>s. CHR ''/'' # s) ss) \<noteq> []"
proof -
  obtain ts t where ss: "ss = ts @ [t]" using assms(2) by (metis append_butlast_last_id)
  have t: "t \<noteq> []" "CHR ''/'' \<notin> set t" using assms(1) by (simp_all add: ss clean_segment_def)
  have l: "last t \<noteq> CHR ''/''" using last_in_set [OF t(1)] t(2) by metis
  show "last (concat (map (\<lambda>s. CHR ''/'' # s) ss)) \<noteq> CHR ''/''" using t by (simp add: ss l)
  show "hd (concat (map (\<lambda>s. CHR ''/'' # s) ss)) = CHR ''/''" using assms(2) by (cases ss) simp_all
  show "concat (map (\<lambda>s. CHR ''/'' # s) ss) \<noteq> []" using assms(2) by simp
qed

lemma cleanPath_clean:
  assumes "list_all clean_segment ss"
  shows "cleanPath (clean_path ss slash) = clean_path ss slash"
proof (cases "ss = []")
  case True
  then show ?thesis by (simp add: cleanPath_def clean_path_def rooted_def path_Clean_def)
next
  case False
  let ?c = "concat (map (\<lambda>s. CHR ''/'' # s) ss)"
  note C = concat_clean [OF assms False]
  have e: "butlast ([] # ss) @ [last ([] # ss)] = [] # ss" by (rule append_butlast_last_id) simp
  have s0: "split_slash ?c = [] # ss" using split_rooted [OF assms, of "[]"] e by simp
  have s1: "split_slash (?c @ ''/'') = ([] # ss) @ [[]]" using split_rooted [OF assms, of "''/''"] e by simp
  have k: "clean_segments ss [] = ss" "clean_segments (ss @ [[]]) [] = ss"
    using clean_segments_id [OF assms, of "[]" "[]"] clean_segments_id [OF assms, of "[[]]" "[]"] by simp_all
  have n: "?c \<noteq> ''/''" using C(2) by auto
  have r: "path_Clean ?c = ?c" "path_Clean (?c @ ''/'') = ?c"
    using False k by (simp_all add: path_Clean_def s0 s1 rooted_def)
  show ?thesis using False C n r by (auto simp: cleanPath_def clean_path_def rooted_def Let_def)
qed

lemma cleanPath_idem [simp]: "cleanPath (cleanPath p) = cleanPath p"
  by (metis cleanPath_form cleanPath_clean)

lemma cleanPath_rooted: "prefix ''/'' (cleanPath p)"
proof -
  obtain ss slash where "list_all clean_segment ss" "cleanPath p = clean_path ss slash" by (rule cleanPath_form)
  then show ?thesis by (cases ss) (simp_all add: clean_path_def rooted_def)
qed

section \<open>Handlers found\<close>

lemma snoc_eq: "xs @ [x] = ys \<longleftrightarrow> ys \<noteq> [] \<and> last ys = x \<and> xs = butlast ys"
  by (metis append_butlast_last_id butlast_snoc last_snoc snoc_eq_iff_butlast)

lemma mux_match_in: "mux_match pats path = Some (pat, h) \<Longrightarrow> (pat, h) \<in> set pats \<and> mux_matches pat path"
  by (induction pats path arbitrary: pat h rule: mux_match.induct) (auto split: option.splits if_splits)

text \<open>Only one clean path is redirected.\<close>

lemma slash_redirect:
  assumes "exactMatch (mux_match main_patterns (path @ ''/'')) (path @ ''/'')" and "path \<noteq> []"
  shows "path = ''/debug/pprof'' \<or> path = ''/api/workflows''"
proof -
  from assms(1) obtain h where "mux_match main_patterns (path @ ''/'') = Some (path @ ''/'', h)"
    by (auto simp: exactMatch_def split: option.splits)
  from mux_match_in [OF this] assms(2) show ?thesis
    by (auto simp: main_patterns_def dashboard_patterns_def snoc_eq)
qed

lemma exact_matches:
  "mux_match main_patterns ''/api/workflows'' = Some (''/api/workflows'', handleAPIWorkflowList_func)"
  "mux_match main_patterns ''/api/workers'' = Some (''/api/workers'', handleAPIWorkers_func)"
  "mux_match main_patterns ''/debug/pprof'' = Some (''/'', root_func)"
  "mux_match main_patterns ''/debug/pprof/'' = Some (''/debug/pprof/'', pprof_Index)"
  by (simp_all add: main_patterns_def dashboard_patterns_def mux_matches_def)

lemma matchOrRedirect_main:
  assumes "prefix ''/'' path"
  shows "matchOrRedirect main_patterns path =
    (if path = ''/debug/pprof'' then Inl ''/debug/pprof/'' else Inr (mux_match main_patterns path))"
proof -
  have "path \<noteq> []" using assms by auto
  with slash_redirect [of path] exact_matches show ?thesis
    by (auto simp: matchOrRedirect_def Let_def exactMatch_def)
qed

text \<open>Below the root there is always a handler.\<close>

lemma match_found:
  assumes "prefix ''/'' path"
  obtains pat h where "mux_match main_patterns path = Some (pat, h)"
proof -
  have "mux_matches ''/'' path" using assms by (simp add: mux_matches_def)
  moreover have "\<exists>x. mux_match pats path = Some x" if "(pat, h) \<in> set pats" "mux_matches pat path" for pats :: "(string \<times> page_handler) list" and pat h
    using that by (induction pats) (auto split: option.splits)
  moreover have "(''/'', root_func) \<in> set main_patterns" by (simp add: main_patterns_def dashboard_patterns_def)
  ultimately show ?thesis using that by (metis surj_pair)
qed

lemma ServeHTTP_clean:
  assumes "cleanPath p = p"
  shows "ServeHTTP d p =
    (if p = ''/debug/pprof'' then MovedPermanently ''/debug/pprof/''
     else run_handler d (snd (the (mux_match main_patterns p))) p)"
proof -
  have "prefix ''/'' p" using cleanPath_rooted [of p] assms by simp
  then obtain pat h where "mux_match main_patterns p = Some (pat, h)" by (rule match_found)
  with assms matchOrRedirect_main [OF \<open>prefix ''/'' p\<close>] show ?thesis
    by (simp add: ServeHTTP_def findHandler_def)
qed

lemma ServeHTTP_unclean:
  assumes "cleanPath p \<noteq> p"
  shows "ServeHTTP d p =
    MovedPermanently (if cleanPath p = ''/debug/pprof'' then ''/debug/pprof/'' else cleanPath p)"
  using assms matchOrRedirect_main [OF cleanPath_rooted [of p]] by (simp add: ServeHTTP_def findHandler_def)

text \<open>What is left of the patterns for a path that equals none of those without a slash at the end.\<close>

lemma match_subtree:
  assumes "prefix ''/'' path" and "\<not> prefix ''/debug/pprof/'' path"
    and "path \<notin> {''/metrics'', ''/api/workflows'', ''/api/workers''}"
  shows "mux_match main_patterns path =
    Some (if prefix ''/api/workflows/'' path then (''/api/workflows/'', handleAPIWorkflowDetail_func) else (''/'', root_func))"
proof -
  have other: "\<not> mux_matches pat path" if "prefix ''/debug/pprof/'' pat" "last pat \<noteq> CHR ''/''" for pat
    using assms(2) that by (auto simp: mux_matches_def)
  have "\<not> mux_matches ''/metrics'' path" "\<not> mux_matches ''/api/workflows'' path" "\<not> mux_matches ''/api/workers'' path"
    "\<not> mux_matches ''/debug/pprof/'' path" "mux_matches ''/'' path"
    "mux_matches ''/api/workflows/'' path \<longleftrightarrow> prefix ''/api/workflows/'' path"
    using assms by (auto simp: mux_matches_def)
  then show ?thesis
    by (simp add: main_patterns_def dashboard_patterns_def other)
qed

text \<open>Handlers do not redirect, so a client never meets two redirects in a row.\<close>

lemma run_handler_answers: "run_handler d h path \<noteq> MovedPermanently u"
  by (simp add: run_handler_def handleRoot_def split: page_handler.split)

lemma browse_target:
  defines "q p \<equiv> (if cleanPath p = ''/debug/pprof'' then ''/debug/pprof/'' else cleanPath p)"
  shows "browse d p = run_handler d (snd (the (mux_match main_patterns (q p)))) (q p)"
proof -
  have c: "cleanPath ''/debug/pprof/'' = ''/debug/pprof/''" by (simp add: cleanPath_def path_Clean_def rooted_def)
  have q: "cleanPath (q p) = q p" "q p \<noteq> ''/debug/pprof''" using c by (simp_all add: q_def)
  show ?thesis
  proof (cases "cleanPath p = p")
    case True
    then show ?thesis using q ServeHTTP_clean [OF True, of d] ServeHTTP_clean [OF c, of d]
      by (auto simp: browse_def q_def run_handler_answers split: http_response.split)
  next
    case False
    then show ?thesis using q ServeHTTP_unclean [OF False, of d] ServeHTTP_clean [OF q(1), of d]
      by (simp add: browse_def q_def)
  qed
qed

lemma clean_id: "clean_segment w \<Longrightarrow> cleanPath (''/api/workflows/'' @ w) = ''/api/workflows/'' @ w"
  using cleanPath_clean [of "[''api'', ''workflows'', w]" False]
  by (simp add: clean_path_def rooted_def clean_segment_def)

text \<open>The answers outside the paths of the other packages.\<close>

lemma browse_dashboard:
  defines "q p \<equiv> cleanPath p"
  assumes "q p \<noteq> ''/metrics''" and "q p \<noteq> ''/debug/pprof''" and "\<not> prefix ''/debug/pprof/'' (q p)"
  shows "browse d p =
    (if q p = ''/api/workflows''
     then ListResponse (handleAPIWorkflowList (ds_bolt d) (ds_sort_workflows d) (ds_now d) (ds_store d))
     else if q p = ''/api/workers''
     then WorkersResponse (handleAPIWorkers (ds_bolt d) (ds_sort_workers d) (ds_now d) (ds_store d))
     else if prefix ''/api/workflows/'' (q p)
     then DetailResponse (handleAPIWorkflowDetail (ds_bolt d) (ds_now d) (ds_store d) (q p))
     else if q p = ''/'' \<or> q p = ''/dashboard'' then PageResponse (dashboardHTML d)
     else NotFound)"
proof -
  have b: "browse d p = run_handler d (snd (the (mux_match main_patterns (q p)))) (q p)"
    using assms(3) browse_target [of d p] by (simp add: q_def)
  consider "q p = ''/api/workflows''" | "q p = ''/api/workers''" | "q p \<notin> {''/metrics'', ''/api/workflows'', ''/api/workers''}"
    using assms(2) by blast
  then show ?thesis
  proof cases
    case 3
    note m = match_subtree [OF cleanPath_rooted assms(4) [unfolded q_def] 3 [unfolded q_def], folded q_def]
    show ?thesis using 3 unfolding b m by (simp add: run_handler_def handleRoot_def)
  qed (simp_all add: b exact_matches run_handler_def)
qed

section \<open>Properties\<close>


text \<open>A sample server, on the store of a sample run.\<close>

definition sample_server :: "lbucket dashboardServer" where
  "sample_server = \<lparr>ds_store = state run3, ds_bolt = list_bolt, ds_now = 0, ds_sort_workflows = id, ds_sort_workers = id,
     dashboardHTML = ''page''\<rparr>"


end
