(* ===== verification/Dashboard_Page.thy ===== *)
theory Dashboard_Page
  imports Dashboard
begin

text \<open>
  The script of the dashboard page in \<^verbatim>\<open>cmd/coordinator/dashboard.go\<close>: the functions that turn
  the records of the REST handlers into HTML. Strings are UTF-8 bytes; numbers are integers,
  which a JavaScript number represents exactly below 2 to the power 53. Parameters are the locale
  dependent formatting of times (\<open>fmtTime\<close>) and the floating-point percentage
  (\<open>percent\<close>). Lower-casing is applied only to the names of enum values, which are ASCII.
\<close>

section \<open>Text\<close>

definition q :: "string \<Rightarrow> string" where "q s = CHR 0x22 # s @ [CHR 0x22]"

definition dash :: string where "dash = [CHR 0xE2, CHR 0x80, CHR 0x94]"
definition play :: string where "play = [CHR 0xE2, CHR 0x96, CHR 0xB6]"
definition check :: string where "check = [CHR 0xE2, CHR 0x9C, CHR 0x93]"
definition cross :: string where "cross = [CHR 0xE2, CHR 0x9C, CHR 0x97]"
definition middot :: string where "middot = [CHR 0xC2, CHR 0xB7]"
definition oslash :: string where "oslash = [CHR 0xE2, CHR 0x8A, CHR 0x98]"

definition ascii_lower :: "char \<Rightarrow> char" where
  "ascii_lower ch =
     (let n = of_char ch :: nat in if 65 \<le> n \<and> n \<le> 90 then char_of (n + 32) else ch)"

definition toLowerCase :: "string \<Rightarrow> string" where
  "toLowerCase s = map ascii_lower s"

fun js_includes :: "string \<Rightarrow> string \<Rightarrow> bool" where
  "js_includes [] sub \<longleftrightarrow> sub = []"
| "js_includes (ch # s) sub \<longleftrightarrow> take (length sub) (ch # s) = sub \<or> js_includes s sub"

definition replaceAll :: "char \<Rightarrow> string \<Rightarrow> string \<Rightarrow> string" where
  "replaceAll ch r s = concat (map (\<lambda>x. if x = ch then r else [x]) s)"

definition esc :: "string \<Rightarrow> string" where
  "esc s =
     replaceAll (CHR 0x22) ''&quot;'' (replaceAll CHR ''>'' ''&gt;'' (replaceAll CHR ''<'' ''&lt;''
       (replaceAll CHR ''&'' ''&amp;'' s)))"

fun join :: "string \<Rightarrow> string list \<Rightarrow> string" where
  "join sep [] = []"
| "join sep [x] = x"
| "join sep (x # xs) = x @ sep @ join sep xs"

section \<open>Formats\<close>

definition fmtDuration :: "int \<Rightarrow> string" where
  "fmtDuration ms =
     (if ms \<le> 0 then dash
      else let s = ms div 1000; m = s div 60; h = m div 60 in
        if h > 0 then decimal h @ ''h '' @ decimal (m mod 60) @ ''m''
        else if m > 0 then decimal m @ ''m '' @ decimal (s mod 60) @ ''s''
        else decimal s @ ''s'')"

definition fmtAgo :: "int \<Rightarrow> string" where
  "fmtAgo s =
     (if s < 60 then decimal s @ ''s ago''
      else if s < 3600 then decimal (s div 60) @ ''m ago''
      else decimal (s div 3600) @ ''h ago'')"

definition stateClass :: "string \<Rightarrow> string" where
  "stateClass s =
     (if s = [] then ''s-unknown''
      else let l = toLowerCase s in
        if js_includes l ''running'' then ''s-running''
        else if js_includes l ''complete'' then ''s-complete''
        else if js_includes l ''failed'' then ''s-failed''
        else if js_includes l ''queued'' then ''s-queued''
        else if js_includes l ''pending'' then ''s-pending''
        else if js_includes l ''skipped'' then ''s-cancelled''
        else if js_includes l ''cancel'' then ''s-cancelled''
        else if js_includes l ''unknown'' then ''s-unknown''
        else ''s-unknown'')"

definition blink :: "string \<Rightarrow> string" where
  "blink s = ''<span class='' @ q ''blink'' @ ''>'' @ s @ ''</span>''"

definition stateLabel :: "string \<Rightarrow> string" where
  "stateLabel s =
     (if s = [] then dash
      else let l = toLowerCase s in
        if js_includes l ''running'' then blink play @ '' RUNNING''
        else if js_includes l ''complete'' then check @ '' DONE''
        else if js_includes l ''failed'' then cross @ '' FAILED''
        else if js_includes l ''queued'' then middot @ '' QUEUED''
        else if js_includes l ''pending'' then middot @ '' PENDING''
        else if js_includes l ''skipped'' then oslash @ '' SKIPPED''
        else if js_includes l ''cancel'' then oslash @ '' CANCELLED''
        else if js_includes l ''unknown'' then ''? UNKNOWN''
        else s)"

definition taskStateLabel :: "string \<Rightarrow> string" where
  "taskStateLabel s =
     (if s = [] then dash
      else let l = toLowerCase s in
        if js_includes l ''running'' then blink play @ '' running''
        else if js_includes l ''complete'' then check @ '' done''
        else if js_includes l ''failed'' then cross @ '' failed''
        else if js_includes l ''queued'' then middot @ '' queued''
        else if js_includes l ''pending'' then middot @ '' pending''
        else if js_includes l ''skipped'' then oslash @ '' skipped''
        else if js_includes l ''cancel'' then oslash @ '' cancelled''
        else if js_includes l ''unknown'' then ''? unknown''
        else s)"

text \<open>\<^verbatim>\<open>String.replace\<close> with a text pattern replaces its first occurrence.\<close>

fun replace_first :: "string \<Rightarrow> string \<Rightarrow> string" where
  "replace_first [] sub = []"
| "replace_first (ch # s) sub =
     (if take (length sub) (ch # s) = sub then drop (length sub) (ch # s) else ch # replace_first s sub)"

definition policyLabel :: "string \<Rightarrow> string" where
  "policyLabel p =
     (if p = [] then dash
      else let l = toLowerCase p in
        if js_includes l ''fail_fast'' \<or> l = ''fail_fast'' then ''FAIL_FAST''
        else if js_includes l ''skip'' then ''SKIP_DOWNSTREAM''
        else if js_includes l ''continue'' then ''CONTINUE_IND.''
        else replace_first p ''FAILURE_POLICY_'')"

section \<open>The workflow table\<close>

text \<open>The counters above the table: running, complete and failed workflows.\<close>

fun count_states :: "workflowSummary list \<Rightarrow> nat \<times> nat \<times> nat" where
  "count_states [] = (0, 0, 0)"
| "count_states (row # rows) =
     (case count_states rows of (r, c, f) \<Rightarrow>
        let l = toLowerCase (sum_State row) in
        if js_includes l ''running'' then (Suc r, c, f)
        else if js_includes l ''complete'' then (r, Suc c, f)
        else if js_includes l ''failed'' then (r, c, Suc f)
        else (r, c, f))"

definition muted :: string where
  "muted = ''<span style='' @ q ''color:var(--muted);font-size:12px'' @ ''>''"

definition progress_cell :: "(nat \<Rightarrow> nat \<Rightarrow> int) \<Rightarrow> workflowSummary \<Rightarrow> string" where
  "progress_cell percent row =
     ''<td>'' @
     (if sum_TaskCount row > 0
      then muted @ decimal_nat (sum_DoneCount row) @ ''/'' @ decimal_nat (sum_TaskCount row) @ ''</span> '' @
           ''<span class='' @ q ''prog-wrap'' @ ''><span class='' @ q ''prog-fill'' @ '' style='' @
           q (''width:'' @ decimal (percent (sum_DoneCount row) (sum_TaskCount row)) @ ''%'') @ ''></span></span>''
      else ''<span style='' @ q ''color:var(--muted)'' @ ''>'' @ dash @ ''</span>'') @
     ''</td>''"

definition workflow_row ::
    "(i64 \<Rightarrow> string) \<Rightarrow> (nat \<Rightarrow> nat \<Rightarrow> int) \<Rightarrow> string option \<Rightarrow> workflowSummary \<Rightarrow> string" where
  "workflow_row fmtTime percent expandedID row =
     (let isExp = (expandedID = Some (sum_ID row)) in
      ''<tr data-id='' @ q (esc (sum_ID row)) @ (if isExp then '' class='' @ q ''expanded'' else []) @ ''>'' @
      ''<td style='' @ q ''font-weight:700'' @ ''>'' @ esc (sum_ID row) @ ''</td>'' @
      ''<td class='' @ q (stateClass (sum_State row)) @ ''>'' @ stateLabel (sum_State row) @ ''</td>'' @
      ''<td style='' @ q ''color:var(--muted);font-size:12px'' @ ''>'' @ fmtTime (sum_SubmittedAtMs row) @ ''</td>'' @
      ''<td style='' @ q ''font-variant-numeric:tabular-nums'' @ ''>'' @ fmtDuration (sint (sum_DurationMs row)) @ ''</td>'' @
      progress_cell percent row @
      ''<td style='' @ q ''color:var(--muted);font-size:11px'' @ ''>'' @ policyLabel (sum_FailurePolicy row) @ ''</td>'' @
      ''</tr>'' @
      (if isExp
       then ''<tr class='' @ q ''task-panel'' @ ''><td colspan='' @ q ''6'' @ ''><div id='' @
            q (''task-detail-'' @ esc (sum_ID row)) @ ''>Loading'' @ [CHR 0xE2, CHR 0x80, CHR 0xA6] @
            ''</div></td></tr>''
       else []))"

definition renderWorkflows ::
    "(i64 \<Rightarrow> string) \<Rightarrow> (nat \<Rightarrow> nat \<Rightarrow> int) \<Rightarrow> string option \<Rightarrow> workflowSummary list \<Rightarrow> string" where
  "renderWorkflows fmtTime percent expandedID workflows =
     concat (map (workflow_row fmtTime percent expandedID) workflows)"

text \<open>A click on a row opens its panel, or closes it when it is the open one.\<close>

definition click_row :: "string \<Rightarrow> string option \<Rightarrow> string option" where
  "click_row wid expandedID = (if expandedID = Some wid then None else Some wid)"

section \<open>The task panel\<close>

definition head_style :: string where
  "head_style =
     ''color:var(--muted);font-size:10px;text-transform:uppercase;letter-spacing:.1em;padding-bottom:6px''"

definition task_head :: string where
  "task_head =
     ''<table class='' @ q ''subtbl'' @ ''><thead><tr>'' @
     ''<td class='' @ q ''td-id'' @ '' style='' @ q head_style @ ''>Task</td>'' @
     ''<td class='' @ q ''td-state'' @ '' style='' @ q head_style @ ''>State</td>'' @
     ''<td class='' @ q ''td-deps'' @ '' style='' @ q head_style @ ''>Deps</td>'' @
     ''<td style='' @ q head_style @ ''>Command / Error</td>'' @
     ''</tr></thead><tbody>''"

definition task_row :: "taskDetail \<Rightarrow> string" where
  "task_row t =
     (let deps = (if td_Dependencies t \<noteq> [] then join '', '' (td_Dependencies t) else dash);
          retries = (if sint (td_AttemptCount t) > 1
                     then '' <span style='' @ q ''color:var(--muted);font-size:10px'' @ ''>['' @
                          decimal (sint (td_AttemptCount t)) @ '' attempts]</span>''
                     else []) in
      ''<tr>'' @
      ''<td class='' @ q ''td-id'' @ ''>'' @ esc (td_ID t) @ retries @ ''</td>'' @
      ''<td class='' @ q (''td-state '' @ stateClass (td_State t)) @ ''>'' @ taskStateLabel (td_State t) @ ''</td>'' @
      ''<td class='' @ q ''td-deps'' @ ''>'' @ esc deps @ ''</td>'' @
      ''<td>'' @
      (if td_Error t \<noteq> [] then ''<span class='' @ q ''td-err'' @ ''>'' @ cross @ '' '' @ esc (td_Error t) @ ''</span>''
       else if td_Command t \<noteq> [] then ''<span class='' @ q ''td-cmd'' @ ''>$ '' @ esc (td_Command t) @ ''</span>''
       else ''<span style='' @ q ''color:var(--dim)'' @ ''>'' @ dash @ ''</span>'') @
      ''</td>'' @
      ''</tr>'')"

definition renderTaskDetail :: "taskDetail list \<Rightarrow> string" where
  "renderTaskDetail tasks =
     (if tasks = [] then muted @ ''No task data available.</span>''
      else task_head @ concat (map task_row tasks) @ ''</tbody></table>'')"

section \<open>The worker list\<close>

definition worker_row :: "workerSummary \<Rightarrow> string" where
  "worker_row wk =
     (let alive = (wks_Status wk = ''alive'') in
      ''<div class='' @ q ''worker-row'' @ ''>'' @
      ''<div class='' @ q ''w-id'' @ ''>'' @ esc (wks_ID wk) @ ''</div>'' @
      ''<div class='' @ q (if alive then ''w-status-alive'' else ''w-status-dead'') @ ''>'' @
      (if alive then blink [CHR 0xE2, CHR 0x97, CHR 0x8F] @ '' alive'' else [CHR 0xE2, CHR 0x97, CHR 0x8B] @ '' dead'') @
      ''</div>'' @
      ''<div style='' @ q ''color:var(--muted);font-size:12px'' @ ''>'' @ fmtAgo (sint (wks_SecondsSince wk)) @ ''</div>'' @
      ''<div class='' @ q ''w-tasks'' @ ''>'' @
      (if wks_RunningTaskIDs wk \<noteq> [] then join '', '' (map esc (wks_RunningTaskIDs wk)) else dash) @
      ''</div>'' @
      ''</div>'')"

definition renderWorkers :: "workerSummary list \<Rightarrow> nat \<times> string" where
  "renderWorkers workers =
     (length (filter (\<lambda>w. wks_Status w = ''alive'') workers), concat (map worker_row workers))"

end
