(* ===== verification/Page_Props.thy ===== *)
theory Page_Props
  imports Dashboard_Page
begin

text \<open>
  The page of the dashboard shows data as data: escaping is faithful, the markup of the
  page does not depend on ids, commands, errors or dependencies, and every state of the
  Go enums has its own label.
\<close>

section \<open>Escaping\<close>

definition esc_char :: "char \<Rightarrow> string" where
  "esc_char ch =
     (if ch = CHR ''&'' then ''&amp;'' else if ch = CHR ''<'' then ''&lt;''
      else if ch = CHR ''>'' then ''&gt;'' else if ch = CHR 0x22 then ''&quot;'' else [ch])"

lemma replaceAll_append: "replaceAll ch r (s @ t) = replaceAll ch r s @ replaceAll ch r t"
  by (simp add: replaceAll_def)

lemma esc_conv: "esc s = concat (map esc_char s)"
  by (induction s) (simp_all add: esc_def replaceAll_append esc_char_def, simp_all add: replaceAll_def)

text \<open>What a browser shows for the four entities.\<close>

fun unescape :: "string \<Rightarrow> string" where
  "unescape [] = []"
| "unescape (ch # s) =
     (if take 5 (ch # s) = ''&amp;'' then CHR ''&'' # unescape (drop 4 s)
      else if take 4 (ch # s) = ''&lt;'' then CHR ''<'' # unescape (drop 3 s)
      else if take 4 (ch # s) = ''&gt;'' then CHR ''>'' # unescape (drop 3 s)
      else if take 6 (ch # s) = ''&quot;'' then CHR 0x22 # unescape (drop 5 s)
      else ch # unescape s)"

lemma unescape_esc: "unescape (esc s) = s"
proof (induction s)
  case (Cons ch s)
  have "unescape (esc_char ch @ t) = ch # unescape t" for t
    by (auto simp: esc_char_def)
  with Cons show ?case by (simp add: esc_conv)
qed (simp add: esc_conv)

text \<open>The characters that delimit tags and attribute values.\<close>

definition markup :: "string \<Rightarrow> string" where
  "markup s = filter (\<lambda>ch. ch = CHR ''<'' \<or> ch = CHR ''>'' \<or> ch = CHR 0x22) s"

lemma markup_rec [simp]:
  "markup [] = []"
  "markup (ch # s) = (if ch = CHR ''<'' \<or> ch = CHR ''>'' \<or> ch = CHR 0x22 then ch # markup s else markup s)"
  by (simp_all add: markup_def)

lemma markup_append [simp]: "markup (s @ t) = markup s @ markup t"
  by (simp add: markup_def)

lemma markup_esc [simp]: "markup (esc s) = []"
  by (induction s) (auto simp: esc_conv esc_char_def markup_def)

lemma markup_q [simp]: "markup (q s) = CHR 0x22 # markup s @ [CHR 0x22]"
  by (simp add: q_def markup_def)

lemma markup_decimal_nat [simp]: "markup (decimal_nat n) = []"
proof (induction n rule: decimal_nat.induct)
  case (1 n)
  have digit: "markup [char_of (48 + k)] = []" if "k < 10" for k :: nat
  proof -
    have "k = 0 \<or> k = 1 \<or> k = 2 \<or> k = 3 \<or> k = 4 \<or> k = 5 \<or> k = 6 \<or> k = 7 \<or> k = 8 \<or> k = 9"
      using that by arith
    then show ?thesis by (elim disjE) (simp_all add: markup_def, code_simp+)
  qed
  show ?case
    using 1 digit [of n] digit [of "n mod 10"] by (subst decimal_nat.simps) auto
qed

lemma markup_decimal [simp]: "markup (decimal n) = []"
  by (simp add: decimal_def)

lemma markup_fmt [simp]: "markup (fmtDuration ms) = []" "markup (fmtAgo s) = []"
  by (simp_all add: fmtDuration_def fmtAgo_def Let_def dash_def)

lemma markup_join [simp]: "markup (join '', '' (map esc xs)) = []"
proof (induction xs)
  case (Cons x xs)
  then show ?case by (cases xs) simp_all
qed simp

lemma markup_rows:
  assumes "map shape xs = map shape' ys" and "\<And>x y. shape x = shape' y \<Longrightarrow> markup (f x) = markup (g y)"
  shows "markup (concat (map f xs)) = markup (concat (map g ys))"
  using assms(1)
proof (induction xs arbitrary: ys)
  case (Cons x xs)
  then obtain y ys' where "ys = y # ys'" "shape x = shape' y" "map shape xs = map shape' ys'" by (cases ys) auto
  with Cons.IH assms(2) show ?case by simp
qed simp

section \<open>Labels\<close>

text \<open>Facts with which the simplifier lower-cases a literal.\<close>

lemmas lower_eval = toLowerCase_def ascii_lower_def char_of_eq_iff

lemma state_classes:
  "map (\<lambda>s. stateClass (TaskState_String s)) [TASK_PENDING, TASK_QUEUED, TASK_RUNNING, TASK_COMPLETE, TASK_FAILED, TASK_SKIPPED, TASK_UNKNOWN]
   = [''s-pending'', ''s-queued'', ''s-running'', ''s-complete'', ''s-failed'', ''s-cancelled'', ''s-unknown'']"
  "map (\<lambda>s. stateClass (WorkflowState_String s)) [WORKFLOW_RUNNING, WORKFLOW_COMPLETE, WORKFLOW_FAILED, WORKFLOW_CANCELLED]
   = [''s-running'', ''s-complete'', ''s-failed'', ''s-cancelled'']"
  "map (\<lambda>p. policyLabel (FailurePolicy_String p)) [FAIL_FAST, SKIP_DOWNSTREAM, CONTINUE_INDEPENDENT]
   = [''FAIL_FAST'', ''SKIP_DOWNSTREAM'', ''CONTINUE_IND.'']"
  by (simp_all add: stateClass_def policyLabel_def lower_eval)

section \<open>Properties\<close>

text \<open>What the markup of a row may depend on.\<close>

definition workflow_shape :: "string option \<Rightarrow> workflowSummary \<Rightarrow> string \<times> bool \<times> bool \<times> string" where
  "workflow_shape ex row =
     (sum_State row, sum_TaskCount row > 0, ex = Some (sum_ID row), sum_FailurePolicy row)"

definition task_shape :: "taskDetail \<Rightarrow> string \<times> bool \<times> bool \<times> bool" where
  "task_shape t = (td_State t, sint (td_AttemptCount t) > 1, td_Error t = [], td_Command t = [])"

definition worker_shape :: "workerSummary \<Rightarrow> string" where
  "worker_shape wk = wks_Status wk"

text \<open>
  C32. Nothing a user submits can inject markup into the dashboard: escaping hides no text (a
  browser shows the original), and the tags and quotes of the workflow table, of the task
  panel and of the worker list are the same for any two lists of rows that agree in the
  state names, the policy, which row is open and which fields are empty, whatever the
  ids, commands, errors, dependencies, outputs and numbers are.
\<close>

theorem page_markup_is_independent_of_data:
  assumes "\<And>ms. markup (fmt ms) = []" and "map (workflow_shape ex) ws = map (workflow_shape ex') ws'"
    and "map task_shape ts = map task_shape ts'" and "map worker_shape ks = map worker_shape ks'"
  shows "unescape (esc s) = s \<and>
    markup (renderWorkflows fmt pct ex ws) = markup (renderWorkflows fmt pct' ex' ws') \<and>
    markup (renderTaskDetail ts) = markup (renderTaskDetail ts') \<and>
    markup (snd (renderWorkers ks)) = markup (snd (renderWorkers ks'))"
proof (intro conjI)
  have "markup (workflow_row fmt pct ex x) = markup (workflow_row fmt pct' ex' y)"
    if "workflow_shape ex x = workflow_shape ex' y" for x y
    using that assms(1) unfolding workflow_shape_def workflow_row_def progress_cell_def Let_def by simp
  then show "markup (renderWorkflows fmt pct ex ws) = markup (renderWorkflows fmt pct' ex' ws')"
    unfolding renderWorkflows_def by (rule markup_rows [OF assms(2)])
  have "markup (task_row x) = markup (task_row y)" if "task_shape x = task_shape y" for x y
    using that unfolding task_shape_def task_row_def Let_def by simp
  then have "markup (concat (map task_row ts)) = markup (concat (map task_row ts'))"
    by (rule markup_rows [OF assms(3)])
  moreover have "ts = [] \<longleftrightarrow> ts' = []" using assms(3) by (metis map_is_Nil_conv)
  ultimately show "markup (renderTaskDetail ts) = markup (renderTaskDetail ts')"
    by (simp add: renderTaskDetail_def)
  have "markup (worker_row x) = markup (worker_row y)" if "worker_shape x = worker_shape y" for x y
    using that unfolding worker_shape_def worker_row_def Let_def by (simp add: dash_def)
  then show "markup (snd (renderWorkers ks)) = markup (snd (renderWorkers ks'))"
    unfolding renderWorkers_def snd_conv by (rule markup_rows [OF assms(4)])
qed (rule unescape_esc)

definition sample_summary :: "string \<Rightarrow> workflowSummary" where
  "sample_summary i = \<lparr>sum_ID = i, sum_State = ''WORKFLOW_RUNNING'', sum_SubmittedAtMs = 7, sum_CompletedAtMs = 0,
     sum_DurationMs = 5, sum_TaskCount = 2, sum_DoneCount = 1, sum_FailedCount = 0, sum_FailurePolicy = ''FAIL_FAST''\<rparr>"

definition sample_detail :: "string \<Rightarrow> taskDetail" where
  "sample_detail cmd = \<lparr>td_ID = ''t'', td_State = ''TASK_RUNNING'', td_Command = cmd, td_Dependencies = [],
     td_AttemptCount = 0, td_MaxRetries = 0, td_Error = [], td_Output = []\<rparr>"

definition sample_worker_row :: "string \<Rightarrow> workerSummary" where
  "sample_worker_row i = \<lparr>wks_ID = i, wks_LastHeartbeatMs = 7, wks_SecondsSince = 1, wks_RunningTaskIDs = [], wks_Status = ''alive''\<rparr>"

theorem page_markup_is_independent_of_data_witness:
  "markup (renderWorkflows (\<lambda>_. []) (\<lambda>_ _. 50) None [sample_summary ''<script>'']) =
     markup (renderWorkflows (\<lambda>_. []) (\<lambda>_ _. 0) None [sample_summary ''w'']) \<and>
   markup (renderTaskDetail [sample_detail ''<script>'']) = markup (renderTaskDetail [sample_detail ''make'']) \<and>
   markup (snd (renderWorkers [sample_worker_row ''<script>''])) = markup (snd (renderWorkers [sample_worker_row ''k'']))"
proof -
  have "map (workflow_shape None) [sample_summary ''<script>''] = map (workflow_shape None) [sample_summary ''w'']"
    "map task_shape [sample_detail ''<script>''] = map task_shape [sample_detail ''make'']"
    "map worker_shape [sample_worker_row ''<script>''] = map worker_shape [sample_worker_row ''k'']"
    by (simp_all add: workflow_shape_def task_shape_def worker_shape_def
        sample_summary_def sample_detail_def sample_worker_row_def)
  from page_markup_is_independent_of_data [OF markup_rec(1) this] show ?thesis by blast
qed

end
