(* ===== verification/Page_Script.thy ===== *)
theory Page_Script
  imports Page_Props
begin

text \<open>
  The dashboard page at work: the variables of its script, the parts of the document that it
  writes, and the requests it waits for. Each piece of the script that runs without an \<^verbatim>\<open>await\<close>
  is one function; what the browser runs next (a timer, a click, an answer) is a step of the
  relation \<open>page_step\<close>. Assigning \<^verbatim>\<open>innerHTML\<close> makes new elements, so an element has a number: an
  answer that arrives for an element that was replaced is written to a detached element.
\<close>

section \<open>State\<close>

datatype content = Loading | Html string | Text string

record panel =
  pn_node :: nat
  pn_id :: string
  pn_content :: content

text \<open>A fetch that has not been answered: of the two lists, or of the details for an element.\<close>

datatype request = Req_Refresh | Req_Detail nat string

record Page =
  expandedID :: "string option"
  pg_workflows :: "workflowSummary list"
  pg_workers :: "workerSummary list"
  wf_body :: string
  wf_panel :: "panel option"
  wf_empty :: bool
  s_total :: string
  s_running :: string
  s_complete :: string
  s_failed :: string
  s_workers :: string
  workers_list :: string
  workers_empty :: bool
  clock :: string
  dot_active :: bool
  dot_timers :: nat
  pg_nodes :: nat
  pending :: "request list"

text \<open>The document as it is delivered; hidden texts are hidden by their style.\<close>

definition page_init :: Page where
  "page_init =
     \<lparr>expandedID = None, pg_workflows = [], pg_workers = [], wf_body = [], wf_panel = None, wf_empty = False,
      s_total = dash, s_running = dash, s_complete = dash, s_failed = dash, s_workers = dash,
      workers_list = [], workers_empty = False, clock = [], dot_active = False, dot_timers = 0,
      pg_nodes = 0, pending = []\<rparr>"

section \<open>Fetching\<close>

text \<open>
  How \<^verbatim>\<open>fetch\<close> may end: without an answer, or with a status, its text and a body, which is JSON or
  not. \<^verbatim>\<open>r.ok\<close> means a status from 200 to 299. The error is the message of the exception.
\<close>

datatype 'a fetch_reply = NetError string | Reply nat string "string + 'a"

definition fetchJSON :: "'a fetch_reply \<Rightarrow> string + 'a" where
  "fetchJSON r =
     (case r of
        NetError m \<Rightarrow> Inl m
      | Reply status statusText body \<Rightarrow>
          if \<not> (200 \<le> status \<and> status \<le> 299) then Inl (decimal_nat status @ '' '' @ statusText)
          else body)"

text \<open>\<open>time\<close> and \<open>date\<close> are the locale formats of the browser.\<close>

definition fmtTime :: "(i64 \<Rightarrow> string) \<Rightarrow> (i64 \<Rightarrow> string) \<Rightarrow> i64 \<Rightarrow> string" where
  "fmtTime time date ms = (if ms = 0 then dash else time ms @ '' '' @ date ms)"

section \<open>The pieces of the script\<close>

definition getPanel :: "Page \<Rightarrow> string \<Rightarrow> panel option" where
  "getPanel p i =
     (case wf_panel p of None \<Rightarrow> None | Some n \<Rightarrow> if pn_id n = i then Some n else None)"

definition loadTaskDetail :: "string \<Rightarrow> Page \<Rightarrow> Page" where
  "loadTaskDetail i p =
     (case getPanel p i of
        None \<Rightarrow> p
      | Some el \<Rightarrow> p\<lparr>pending := pending p @ [Req_Detail (pn_node el) i]\<rparr>)"

text \<open>A null or empty id counts as false.\<close>

definition truthy :: "string option \<Rightarrow> bool" where
  "truthy v \<longleftrightarrow> v \<noteq> None \<and> v \<noteq> Some []"

definition show_rows :: "(i64 \<Rightarrow> string) \<Rightarrow> (nat \<Rightarrow> nat \<Rightarrow> int) \<Rightarrow> Page \<Rightarrow> Page" where
  "show_rows ft pct p =
     (case count_states (pg_workflows p) of (running, complete, failed) \<Rightarrow>
        p\<lparr>wf_empty := False, s_total := decimal_nat (length (pg_workflows p)), s_running := decimal_nat running,
          s_complete := decimal_nat complete, s_failed := decimal_nat failed,
          wf_body := renderWorkflows ft pct (expandedID p) (pg_workflows p),
          wf_panel := (case find (\<lambda>row. expandedID p = Some (sum_ID row)) (pg_workflows p) of
             None \<Rightarrow> None
           | Some row \<Rightarrow> Some \<lparr>pn_node = pg_nodes p, pn_id = sum_ID row, pn_content = Loading\<rparr>),
          pg_nodes := Suc (pg_nodes p)\<rparr>)"

definition renderWorkflows_page :: "(i64 \<Rightarrow> string) \<Rightarrow> (nat \<Rightarrow> nat \<Rightarrow> int) \<Rightarrow> Page \<Rightarrow> Page" where
  "renderWorkflows_page ft pct p =
     (if pg_workflows p = [] then p\<lparr>wf_body := [], wf_panel := None, wf_empty := True\<rparr>
      else let p = show_rows ft pct p in
        if truthy (expandedID p) then
          (case getPanel p (the (expandedID p)) of
             None \<Rightarrow> p
           | Some el \<Rightarrow> if pn_content el = Loading then loadTaskDetail (the (expandedID p)) p else p)
        else p)"

definition renderWorkers_page :: "Page \<Rightarrow> Page" where
  "renderWorkers_page p =
     (let p = p\<lparr>s_workers := decimal_nat (fst (renderWorkers (pg_workers p)))\<rparr> in
      if pg_workers p = [] then p\<lparr>workers_list := [], workers_empty := True\<rparr>
      else p\<lparr>workers_empty := False, workers_list := snd (renderWorkers (pg_workers p))\<rparr>)"

definition on_click :: "(i64 \<Rightarrow> string) \<Rightarrow> (nat \<Rightarrow> nat \<Rightarrow> int) \<Rightarrow> string \<Rightarrow> Page \<Rightarrow> Page" where
  "on_click ft pct i p =
     (if expandedID p = Some i then renderWorkflows_page ft pct (p\<lparr>expandedID := None\<rparr>)
      else loadTaskDetail i (renderWorkflows_page ft pct (p\<lparr>expandedID := Some i\<rparr>)))"

definition refresh_begin :: "Page \<Rightarrow> Page" where
  "refresh_begin p = p\<lparr>dot_active := True, pending := pending p @ [Req_Refresh]\<rparr>"

text \<open>
  The rest of \<^verbatim>\<open>refresh\<close>, once both answers are there or one has failed. A list that Go encodes as
  \<^verbatim>\<open>null\<close> is \<^term>\<open>None\<close>.
\<close>

definition refresh_end ::
    "(i64 \<Rightarrow> string) \<Rightarrow> (nat \<Rightarrow> nat \<Rightarrow> int) \<Rightarrow> workflowSummary list option fetch_reply \<Rightarrow> workerSummary list option fetch_reply
     \<Rightarrow> Page \<Rightarrow> Page" where
  "refresh_end ft pct a b p =
     (let p = p\<lparr>pending := remove1 Req_Refresh (pending p), dot_timers := Suc (dot_timers p)\<rparr> in
      case (fetchJSON a, fetchJSON b) of
        (Inr ws, Inr ks) \<Rightarrow>
          (let p = renderWorkers_page (renderWorkflows_page ft pct
                     (p\<lparr>pg_workflows := (case ws of None \<Rightarrow> [] | Some xs \<Rightarrow> xs),
                        pg_workers := (case ks of None \<Rightarrow> [] | Some xs \<Rightarrow> xs)\<rparr>)) in
           if truthy (expandedID p) \<and> getPanel p (the (expandedID p)) \<noteq> None
           then loadTaskDetail (the (expandedID p)) p else p)
      | _ \<Rightarrow> p)"

text \<open>The rest of \<^verbatim>\<open>loadTaskDetail\<close>. An absent list of tasks is empty.\<close>

definition detail_content :: "taskDetail list fetch_reply \<Rightarrow> content" where
  "detail_content r =
     (case fetchJSON r of
        Inr tasks \<Rightarrow> Html (renderTaskDetail tasks)
      | Inl m \<Rightarrow> Text (''Error: '' @ m))"

definition detail_end :: "nat \<Rightarrow> string \<Rightarrow> taskDetail list fetch_reply \<Rightarrow> Page \<Rightarrow> Page" where
  "detail_end node i r p =
     p\<lparr>pending := remove1 (Req_Detail node i) (pending p),
       wf_panel := map_option (\<lambda>el. if pn_node el = node then el\<lparr>pn_content := detail_content r\<rparr> else el) (wf_panel p)\<rparr>"

definition updateClock :: "string \<Rightarrow> Page \<Rightarrow> Page" where
  "updateClock now p = p\<lparr>clock := now\<rparr>"

definition dot_off :: "Page \<Rightarrow> Page" where
  "dot_off p = p\<lparr>dot_active := False, dot_timers := dot_timers p - 1\<rparr>"

text \<open>
  What the browser may do next. \<open>Lst\<close> and \<open>Det\<close> say which answers the server gives; a row can be
  clicked when it is in the table.
\<close>

inductive page_step ::
    "(i64 \<Rightarrow> string) \<Rightarrow> (nat \<Rightarrow> nat \<Rightarrow> int) \<Rightarrow> (workflowSummary list option \<Rightarrow> bool) \<Rightarrow> (string \<Rightarrow> taskDetail list \<Rightarrow> bool)
     \<Rightarrow> Page \<Rightarrow> Page \<Rightarrow> bool" for ft pct Lst Det where
  tick: "page_step ft pct Lst Det p (updateClock now p)"
| refresh: "page_step ft pct Lst Det p (refresh_begin p)"
| refreshed: "Req_Refresh \<in> set (pending p) \<Longrightarrow> (\<And>ws. fetchJSON a = Inr ws \<Longrightarrow> Lst ws) \<Longrightarrow>
    page_step ft pct Lst Det p (refresh_end ft pct a b p)"
| click: "i \<in> sum_ID ` set (pg_workflows p) \<Longrightarrow> page_step ft pct Lst Det p (on_click ft pct i p)"
| detail: "Req_Detail node i \<in> set (pending p) \<Longrightarrow> (\<And>ts. fetchJSON r = Inr ts \<Longrightarrow> Det i ts) \<Longrightarrow>
    page_step ft pct Lst Det p (detail_end node i r p)"
| off: "dot_timers p > 0 \<Longrightarrow> page_step ft pct Lst Det p (dot_off p)"

end
