(* ===== verification/Script_Props.thy ===== *)
theory Script_Props
  imports Page_Script
begin

text \<open>
  What the page shows, whatever the order of timers, clicks and answers: an invariant of the
  relation \<open>page_step\<close>.
\<close>

section \<open>The invariant\<close>

text \<open>What a panel may show: nothing yet, an error, or the details of its own workflow.\<close>

definition panel_shows :: "(string \<Rightarrow> taskDetail list \<Rightarrow> bool) \<Rightarrow> panel \<Rightarrow> bool" where
  "panel_shows Det el \<longleftrightarrow>
     (case pn_content el of
        Loading \<Rightarrow> True
      | Text t \<Rightarrow> \<exists>m. t = ''Error: '' @ m
      | Html h \<Rightarrow> \<exists>ts. Det (pn_id el) ts \<and> h = renderTaskDetail ts)"

text \<open>A panel that is still loading waits for an answer.\<close>

definition panel_waits :: "request list \<Rightarrow> panel \<Rightarrow> bool" where
  "panel_waits P el \<longleftrightarrow>
     (pn_content el = Loading \<longrightarrow> pn_id el = [] \<or> Req_Detail (pn_node el) (pn_id el) \<in> set P)"

text \<open>Table and counters are those of the list that was received last.\<close>

definition table_ok :: "(i64 \<Rightarrow> string) \<Rightarrow> (nat \<Rightarrow> nat \<Rightarrow> int) \<Rightarrow> (workflowSummary list option \<Rightarrow> bool) \<Rightarrow> Page \<Rightarrow> bool" where
  "table_ok ft pct Lst p \<longleftrightarrow>
     (if pg_workflows p = [] then wf_body p = []
      else Lst (Some (pg_workflows p)) \<and> \<not> wf_empty p \<and>
        wf_body p = renderWorkflows ft pct (expandedID p) (pg_workflows p) \<and>
        s_total p = decimal_nat (length (pg_workflows p)) \<and>
        (case count_states (pg_workflows p) of (r, c, f) \<Rightarrow>
           s_running p = decimal_nat r \<and> s_complete p = decimal_nat c \<and> s_failed p = decimal_nat f))"

text \<open>The panel is that of the open row, and every request knows its element.\<close>

definition panel_ok :: "Page \<Rightarrow> bool" where
  "panel_ok p \<longleftrightarrow>
     (\<forall>el. wf_panel p = Some el \<longrightarrow>
        expandedID p = Some (pn_id el) \<and> pn_id el \<in> sum_ID ` set (pg_workflows p) \<and> pn_node el < pg_nodes p) \<and>
     (\<forall>i. expandedID p = Some i \<and> i \<in> sum_ID ` set (pg_workflows p) \<longrightarrow> wf_panel p \<noteq> None) \<and>
     (\<forall>n i. Req_Detail n i \<in> set (pending p) \<longrightarrow>
        n < pg_nodes p \<and> (\<forall>el. wf_panel p = Some el \<and> pn_node el = n \<longrightarrow> pn_id el = i))"

definition page_inv ::
    "(i64 \<Rightarrow> string) \<Rightarrow> (nat \<Rightarrow> nat \<Rightarrow> int) \<Rightarrow> (workflowSummary list option \<Rightarrow> bool) \<Rightarrow> (string \<Rightarrow> taskDetail list \<Rightarrow> bool) \<Rightarrow> Page \<Rightarrow> bool" where
  "page_inv ft pct Lst Det p \<longleftrightarrow> table_ok ft pct Lst p \<and> panel_ok p \<and>
     (\<forall>el. wf_panel p = Some el \<longrightarrow> panel_shows Det el \<and> panel_waits (pending p) el)"

section \<open>Every piece of the script keeps it\<close>

lemma getPanel_Some: "getPanel p i = Some el \<longleftrightarrow> wf_panel p = Some el \<and> pn_id el = i"
  by (auto simp: getPanel_def split: option.splits)

lemma loadTaskDetail_fields [simp]:
  "expandedID (loadTaskDetail i p) = expandedID p" "pg_workflows (loadTaskDetail i p) = pg_workflows p"
  "wf_body (loadTaskDetail i p) = wf_body p" "wf_panel (loadTaskDetail i p) = wf_panel p"
  "pg_nodes (loadTaskDetail i p) = pg_nodes p" "wf_empty (loadTaskDetail i p) = wf_empty p"
  "s_total (loadTaskDetail i p) = s_total p" "s_running (loadTaskDetail i p) = s_running p"
  "s_complete (loadTaskDetail i p) = s_complete p" "s_failed (loadTaskDetail i p) = s_failed p"
  by (simp_all add: loadTaskDetail_def split: option.splits)

lemma loadTaskDetail_pending:
  "set (pending (loadTaskDetail i p)) =
     set (pending p) \<union> {Req_Detail (pn_node el) i | el. wf_panel p = Some el \<and> pn_id el = i}"
  by (auto simp: loadTaskDetail_def getPanel_def split: option.splits)

lemma load_parts:
  "table_ok ft pct Lst p \<Longrightarrow> table_ok ft pct Lst (loadTaskDetail i p)"
  "panel_ok p \<Longrightarrow> panel_ok (loadTaskDetail i p)"
proof -
  show "table_ok ft pct Lst (loadTaskDetail i p)" if "table_ok ft pct Lst p"
    using that unfolding table_ok_def loadTaskDetail_fields .
  show "panel_ok (loadTaskDetail i p)" if "panel_ok p"
    using that by (auto simp: panel_ok_def loadTaskDetail_pending)
qed

lemma load_inv:
  assumes "page_inv ft pct Lst Det p"
  shows "page_inv ft pct Lst Det (loadTaskDetail i p)"
  using assms load_parts by (auto simp: page_inv_def panel_waits_def loadTaskDetail_pending)

text \<open>The invariant does not mention the other parts of the state.\<close>

lemma page_inv_cong:
  assumes "expandedID p' = expandedID p" "pg_workflows p' = pg_workflows p" "wf_body p' = wf_body p"
    "wf_panel p' = wf_panel p" "pg_nodes p' = pg_nodes p" "wf_empty p' = wf_empty p" "s_total p' = s_total p"
    "s_running p' = s_running p" "s_complete p' = s_complete p" "s_failed p' = s_failed p"
    "\<And>n i. Req_Detail n i \<in> set (pending p') \<longleftrightarrow> Req_Detail n i \<in> set (pending p)"
  shows "page_inv ft pct Lst Det p' \<longleftrightarrow> page_inv ft pct Lst Det p"
  unfolding page_inv_def table_ok_def panel_ok_def panel_waits_def assms ..

lemma pieces_inv:
  "page_inv ft pct Lst Det (updateClock now p) \<longleftrightarrow> page_inv ft pct Lst Det p"
  "page_inv ft pct Lst Det (dot_off p) \<longleftrightarrow> page_inv ft pct Lst Det p"
  "page_inv ft pct Lst Det (refresh_begin p) \<longleftrightarrow> page_inv ft pct Lst Det p"
  "page_inv ft pct Lst Det (renderWorkers_page p) \<longleftrightarrow> page_inv ft pct Lst Det p"
  "page_inv ft pct Lst Det (p\<lparr>pending := remove1 Req_Refresh (pending p), dot_timers := n\<rparr>) \<longleftrightarrow> page_inv ft pct Lst Det p"
  by (rule page_inv_cong;
      simp add: updateClock_def dot_off_def refresh_begin_def renderWorkers_page_def Let_def)+

text \<open>The rows are drawn anew, with a new element for the panel of the open row, if it is there.\<close>

definition open_row :: "Page \<Rightarrow> workflowSummary option" where
  "open_row p = find (\<lambda>row. expandedID p = Some (sum_ID row)) (pg_workflows p)"

definition new_panel :: "Page \<Rightarrow> workflowSummary \<Rightarrow> panel" where
  "new_panel p row = \<lparr>pn_node = pg_nodes p, pn_id = sum_ID row, pn_content = Loading\<rparr>"

lemma new_panel_fields [simp]:
  "pn_node (new_panel p row) = pg_nodes p" "pn_id (new_panel p row) = sum_ID row" "pn_content (new_panel p row) = Loading"
  by (simp_all add: new_panel_def)

lemma open_row_Some: "open_row p = Some row \<Longrightarrow> expandedID p = Some (sum_ID row) \<and> row \<in> set (pg_workflows p)"
  by (auto simp: open_row_def find_Some_iff)

lemma open_row_None: "open_row p = None \<Longrightarrow> expandedID p = Some i \<Longrightarrow> i \<notin> sum_ID ` set (pg_workflows p)"
  by (auto simp: open_row_def find_None_iff)

lemma show_rows_fields [simp]:
  "expandedID (show_rows ft pct p) = expandedID p" "pg_workflows (show_rows ft pct p) = pg_workflows p"
  "pending (show_rows ft pct p) = pending p" "pg_nodes (show_rows ft pct p) = Suc (pg_nodes p)"
  "wf_panel (show_rows ft pct p) = map_option (new_panel p) (open_row p)"
  by (simp_all add: show_rows_def open_row_def new_panel_def split: prod.splits option.splits)

lemma show_rows_panel:
  assumes "\<And>n i. Req_Detail n i \<in> set (pending p) \<Longrightarrow> n < pg_nodes p"
  shows "panel_ok (show_rows ft pct p)"
  unfolding panel_ok_def show_rows_fields
proof (intro conjI allI impI)
  show "expandedID p = Some (pn_id el)" "pn_id el \<in> sum_ID ` set (pg_workflows p)" "pn_node el < Suc (pg_nodes p)"
    if "map_option (new_panel p) (open_row p) = Some el" for el
    using that by (auto dest!: open_row_Some)
  show "map_option (new_panel p) (open_row p) \<noteq> None"
    if "expandedID p = Some i \<and> i \<in> sum_ID ` set (pg_workflows p)" for i
    using that open_row_None by auto
  show "n < Suc (pg_nodes p)" if "Req_Detail n i \<in> set (pending p)" for n i
    using assms [OF that] by simp
  show "pn_id el = i" if "Req_Detail n i \<in> set (pending p)"
    "map_option (new_panel p) (open_row p) = Some el \<and> pn_node el = n" for n i el
    using assms [OF that(1)] that(2) by auto
qed

lemma renderWorkflows_page_conv:
  assumes "pg_workflows p \<noteq> []"
  shows "renderWorkflows_page ft pct p =
    (if truthy (expandedID p) then loadTaskDetail (the (expandedID p)) (show_rows ft pct p) else show_rows ft pct p)"
proof (cases "open_row p")
  case None
  then show ?thesis using assms
    by (simp add: renderWorkflows_page_def loadTaskDetail_def getPanel_def)
next
  case (Some row)
  then show ?thesis using assms open_row_Some [OF Some]
    by (simp add: renderWorkflows_page_def loadTaskDetail_def getPanel_def)
qed

lemma render_inv:
  assumes "\<And>n i. Req_Detail n i \<in> set (pending p) \<Longrightarrow> n < pg_nodes p"
    and "pg_workflows p = [] \<or> Lst (Some (pg_workflows p))"
  shows "page_inv ft pct Lst Det (renderWorkflows_page ft pct p)"
proof (cases "pg_workflows p = []")
  case True
  then show ?thesis
    using assms(1) by (auto simp: renderWorkflows_page_def page_inv_def table_ok_def panel_ok_def)
next
  case False
  let ?p = "show_rows ft pct p" and ?q = "renderWorkflows_page ft pct p"
  have t: "table_ok ft pct Lst ?p"
    using assms(2) False by (simp add: table_ok_def show_rows_def split: prod.splits)
  have p: "wf_panel ?q = map_option (new_panel p) (open_row p)"
    using False by (simp add: renderWorkflows_page_conv)
  have "table_ok ft pct Lst ?q" "panel_ok ?q"
    using False load_parts(1) [OF t] load_parts(2) [OF show_rows_panel [OF assms(1)]] t show_rows_panel [OF assms(1)]
    by (simp_all add: renderWorkflows_page_conv)
  moreover have "panel_shows Det el \<and> panel_waits (pending ?q) el" if el: "wf_panel ?q = Some el" for el
  proof -
    obtain row where row: "open_row p = Some row" "el = new_panel p row" using el p by auto
    with open_row_Some [OF row(1)] False show ?thesis
      by (auto simp: panel_shows_def panel_waits_def renderWorkflows_page_conv truthy_def loadTaskDetail_pending)
  qed
  ultimately show ?thesis by (simp add: page_inv_def)
qed

lemma render_keeps:
  assumes "page_inv ft pct Lst Det p" and "pg_workflows p' = [] \<or> Lst (Some (pg_workflows p'))"
    and "set (pending p') \<subseteq> set (pending p)" and "pg_nodes p' = pg_nodes p"
  shows "page_inv ft pct Lst Det (renderWorkflows_page ft pct p')"
  using assms by (intro render_inv) (auto simp: page_inv_def panel_ok_def)

lemma received:
  assumes "page_inv ft pct Lst Det p"
  shows "pg_workflows p = [] \<or> Lst (Some (pg_workflows p))"
  using assms by (auto simp: page_inv_def table_ok_def split: if_splits)

lemma click_keeps:
  assumes "page_inv ft pct Lst Det p"
  shows "page_inv ft pct Lst Det (on_click ft pct i p)"
  using render_keeps [OF assms] received [OF assms] by (auto simp: on_click_def intro!: load_inv)

lemma detail_keeps:
  assumes "page_inv ft pct Lst Det p" and "Req_Detail node i \<in> set (pending p)"
    and "\<And>ts. fetchJSON r = Inr ts \<Longrightarrow> Det i ts"
  shows "page_inv ft pct Lst Det (detail_end node i r p)"
proof -
  let ?p = "detail_end node i r p"
  have f: "expandedID ?p = expandedID p" "pg_workflows ?p = pg_workflows p" "pg_nodes ?p = pg_nodes p"
    "pending ?p = remove1 (Req_Detail node i) (pending p)"
    "wf_panel ?p = map_option (\<lambda>el. if pn_node el = node then el\<lparr>pn_content := detail_content r\<rparr> else el) (wf_panel p)"
    by (simp_all add: detail_end_def)
  have t: "table_ok ft pct Lst ?p"
    using assms(1) unfolding page_inv_def by (auto simp: detail_end_def table_ok_def)
  have k: "panel_ok ?p"
    using assms(1) by (auto simp: page_inv_def panel_ok_def f dest!: set_remove1_subset [THEN subsetD] split: if_splits)
  have "panel_shows Det el \<and> panel_waits (pending ?p) el" if el: "wf_panel ?p = Some el" for el
  proof -
    obtain e where e: "wf_panel p = Some e" "el = (if pn_node e = node then e\<lparr>pn_content := detail_content r\<rparr> else e)"
      using el by (auto simp: f)
    have own: "pn_id e = i" if "pn_node e = node" using assms(1,2) e(1) that by (auto simp: page_inv_def panel_ok_def)
    have old: "panel_shows Det e" "panel_waits (pending p) e" using assms(1) e(1) by (auto simp: page_inv_def)
    show ?thesis
    proof (cases "pn_node e = node")
      case True
      with own e(2) assms(3) show ?thesis
        by (auto simp: panel_shows_def panel_waits_def detail_content_def split: sum.splits)
    next
      case False
      then have "Req_Detail (pn_node e) (pn_id e) \<in> set (remove1 (Req_Detail node i) (pending p)) \<longleftrightarrow>
        Req_Detail (pn_node e) (pn_id e) \<in> set (pending p)" by (intro in_set_remove1) simp
      with False e(2) old show ?thesis by (simp add: panel_waits_def f)
    qed
  qed
  with t k show ?thesis by (simp add: page_inv_def)
qed

lemma refresh_keeps:
  assumes "page_inv ft pct Lst Det p" and "\<And>ws. fetchJSON a = Inr ws \<Longrightarrow> Lst ws"
  shows "page_inv ft pct Lst Det (refresh_end ft pct a b p)"
proof -
  have inv: "page_inv ft pct Lst Det (p\<lparr>pending := remove1 Req_Refresh (pending p), dot_timers := n\<rparr>)" for n
    using assms(1) by (simp add: pieces_inv)
  let ?p = "p\<lparr>pending := remove1 Req_Refresh (pending p), dot_timers := Suc (dot_timers p)\<rparr>"
  have drawn: "page_inv ft pct Lst Det (renderWorkflows_page ft pct
      (?p\<lparr>pg_workflows := (case ws of None \<Rightarrow> [] | Some xs \<Rightarrow> xs), pg_workers := ks\<rparr>))"
    if "fetchJSON a = Inr ws" for ws ks
    by (rule render_keeps [OF inv [of "Suc (dot_timers p)"]]) (use assms(2) [OF that] in \<open>auto split: option.splits\<close>)
  show ?thesis
    unfolding refresh_end_def Let_def
    using assms(1) by (auto simp: pieces_inv intro!: drawn load_inv split: sum.splits)
qed

lemma page_step_keeps:
  assumes "page_step ft pct Lst Det p p'" and "page_inv ft pct Lst Det p"
  shows "page_inv ft pct Lst Det p'"
  using assms(1)
proof cases
  case refreshed then show ?thesis using refresh_keeps [OF assms(2)] by blast
next
  case detail then show ?thesis using detail_keeps [OF assms(2)] by blast
next
  case click then show ?thesis using click_keeps [OF assms(2)] by simp
next
  case tick then show ?thesis using assms(2) by (simp only: pieces_inv)
next
  case refresh then show ?thesis using assms(2) by (simp only: pieces_inv)
next
  case off then show ?thesis using assms(2) by (simp only: pieces_inv)
qed

section \<open>What the page shows\<close>

text \<open>The state after the script was loaded.\<close>

definition page_loaded :: "string \<Rightarrow> Page" where
  "page_loaded now = refresh_begin (updateClock now page_init)"

lemma page_loaded_inv: "page_inv ft pct Lst Det (page_loaded now)"
proof -
  have "page_inv ft pct Lst Det page_init" by (simp add: page_init_def page_inv_def table_ok_def panel_ok_def)
  then show ?thesis by (simp add: page_loaded_def pieces_inv)
qed

lemma page_steps_keep:
  assumes "(page_step ft pct Lst Det)\<^sup>*\<^sup>* p p'" and "page_inv ft pct Lst Det p"
  shows "page_inv ft pct Lst Det p'"
  using assms by (induction rule: rtranclp_induct) (auto intro: page_step_keeps)

text \<open>The counters count the workflows in a state, when the states are those of the Go enum.\<close>

definition state_names :: "string list" where
  "state_names = map WorkflowState_String [WORKFLOW_RUNNING, WORKFLOW_COMPLETE, WORKFLOW_FAILED, WORKFLOW_CANCELLED]"

definition rows_in :: "string \<Rightarrow> workflowSummary list \<Rightarrow> nat" where
  "rows_in st ws = length (filter (\<lambda>w. sum_State w = st) ws)"

lemma lower_names:
  "toLowerCase ''WORKFLOW_RUNNING'' = ''workflow_running''" "toLowerCase ''WORKFLOW_COMPLETE'' = ''workflow_complete''"
  "toLowerCase ''WORKFLOW_FAILED'' = ''workflow_failed''" "toLowerCase ''WORKFLOW_CANCELLED'' = ''workflow_cancelled''"
  by (simp_all add: lower_eval)

lemma includes_names:
  "js_includes ''workflow_running'' ''running''" "\<not> js_includes ''workflow_running'' ''complete''"
  "\<not> js_includes ''workflow_running'' ''failed''" "\<not> js_includes ''workflow_complete'' ''running''"
  "js_includes ''workflow_complete'' ''complete''" "\<not> js_includes ''workflow_complete'' ''failed''"
  "\<not> js_includes ''workflow_failed'' ''running''" "\<not> js_includes ''workflow_failed'' ''complete''"
  "js_includes ''workflow_failed'' ''failed''" "\<not> js_includes ''workflow_cancelled'' ''running''"
  "\<not> js_includes ''workflow_cancelled'' ''complete''" "\<not> js_includes ''workflow_cancelled'' ''failed''"
  by simp_all

lemma count_states_row:
  assumes "st \<in> set state_names"
  shows "js_includes (toLowerCase st) ''running'' \<longleftrightarrow> st = ''WORKFLOW_RUNNING''"
    and "js_includes (toLowerCase st) ''complete'' \<longleftrightarrow> st = ''WORKFLOW_COMPLETE''"
    and "js_includes (toLowerCase st) ''failed'' \<longleftrightarrow> st = ''WORKFLOW_FAILED''"
proof -
  consider "st = ''WORKFLOW_RUNNING''" | "st = ''WORKFLOW_COMPLETE''" | "st = ''WORKFLOW_FAILED''" | "st = ''WORKFLOW_CANCELLED''"
    using assms unfolding state_names_def by auto
  then show "js_includes (toLowerCase st) ''running'' \<longleftrightarrow> st = ''WORKFLOW_RUNNING''"
    "js_includes (toLowerCase st) ''complete'' \<longleftrightarrow> st = ''WORKFLOW_COMPLETE''"
    "js_includes (toLowerCase st) ''failed'' \<longleftrightarrow> st = ''WORKFLOW_FAILED''"
    by (cases; simp add: lower_names includes_names del: js_includes.simps)+
qed

lemma count_states_rows:
  assumes "\<forall>w\<in>set ws. sum_State w \<in> set state_names"
  shows "count_states ws =
    (rows_in ''WORKFLOW_RUNNING'' ws, rows_in ''WORKFLOW_COMPLETE'' ws, rows_in ''WORKFLOW_FAILED'' ws)"
  using assms
proof (induction ws)
  case (Cons w ws)
  then show ?case using count_states_row [of "sum_State w"] by (auto simp: rows_in_def Let_def)
qed (simp add: rows_in_def)


text \<open>A visit: the list arrives, the only row is opened, and its details arrive.\<close>

definition visit_list :: "workflowSummary list option fetch_reply" where
  "visit_list = Reply 200 ''OK'' (Inr (Some [sample_summary ''w'']))"

definition visit1 :: Page where
  "visit1 = refresh_end (\<lambda>_. []) (\<lambda>_ _. 50) visit_list (Reply 200 ''OK'' (Inr None)) (page_loaded [])"

definition visit2 :: Page where
  "visit2 = on_click (\<lambda>_. []) (\<lambda>_ _. 50) ''w'' visit1"

definition visit3 :: Page where
  "visit3 = detail_end 1 ''w'' (Reply 200 ''OK'' (Inr [sample_detail ''make''])) visit2"

lemma sample_summary_id [simp]: "sum_ID (sample_summary i) = i" "sum_State (sample_summary i) = ''WORKFLOW_RUNNING''"
  by (simp_all add: sample_summary_def)

lemma visit1_fields:
  "expandedID visit1 = None" "pg_workflows visit1 = [sample_summary ''w'']" "pending visit1 = []" "pg_nodes visit1 = 1"
  by (simp_all add: visit1_def visit_list_def refresh_end_def fetchJSON_def Let_def page_loaded_def refresh_begin_def
      updateClock_def page_init_def renderWorkers_page_def renderWorkflows_page_conv truthy_def)

lemma visit2_fields:
  "pg_workflows visit2 = [sample_summary ''w'']" "wf_panel visit2 = Some (new_panel visit1 (sample_summary ''w''))"
  "pending visit2 = [Req_Detail 1 ''w'', Req_Detail 1 ''w'']"
  by (simp_all add: visit2_def on_click_def visit1_fields renderWorkflows_page_conv truthy_def loadTaskDetail_def
      getPanel_def open_row_def new_panel_def)

lemma visit_steps:
  "(page_step (\<lambda>_. []) (\<lambda>_ _. 50) (\<lambda>ws. ws = Some [sample_summary ''w'']) (\<lambda>i ts. i = ''w'' \<and> ts = [sample_detail ''make'']))\<^sup>*\<^sup>*
     (page_loaded []) visit3"
  (is "?R\<^sup>*\<^sup>* _ _")
proof -
  have "?R (page_loaded []) visit1"
    unfolding visit1_def by (rule page_step.refreshed) (simp_all add: page_loaded_def refresh_begin_def visit_list_def fetchJSON_def)
  moreover have "?R visit1 visit2"
    unfolding visit2_def by (rule page_step.click) (simp add: visit1_fields)
  moreover have "?R visit2 visit3"
    unfolding visit3_def by (rule page_step.detail) (simp_all add: visit2_fields fetchJSON_def)
  ultimately show ?thesis by (meson converse_rtranclp_into_rtranclp r_into_rtranclp)
qed


section \<open>What the page does not do\<close>

text \<open>
  When the list becomes empty, the page clears the table but keeps the counters: the early return
  of \<^verbatim>\<open>renderWorkflows\<close> comes before they are written.
\<close>

theorem counters_of_an_empty_list_are_stale:
  "s_total (refresh_end ft pct (Reply 200 ''OK'' (Inr None)) (Reply 200 ''OK'' (Inr None)) p) = s_total p \<and>
   s_running (refresh_end ft pct (Reply 200 ''OK'' (Inr None)) (Reply 200 ''OK'' (Inr None)) p) = s_running p"
  by (simp add: refresh_end_def fetchJSON_def Let_def renderWorkflows_page_def renderWorkers_page_def getPanel_def)

text \<open>Opening a row asks for its details twice.\<close>

theorem opening_a_row_fetches_twice:
  "pending visit1 = [] \<and> pending (on_click (\<lambda>_. []) (\<lambda>_ _. 50) ''w'' visit1) = [Req_Detail 1 ''w'', Req_Detail 1 ''w'']"
  using visit1_fields(3) visit2_fields(3) by (simp add: visit2_def)

end
