(* ===== verification/Spec2Isabelle.thy ===== *)
theory Spec2Isabelle
  imports Divergences Coord_Interleave Coord_Process Store_Props Worker_Props Remote_Props Dashboard_Props
    Http_Routes Script_Props
begin

text \<open>
  Verification of the DAG scheduler, a Go program that runs workflows of dependent shell
  commands on a set of workers.

  \<^bold>\<open>The program.\<close> A coordinator process (\<^verbatim>\<open>cmd/coordinator\<close>) accepts workflows, keeps them in a bbolt
  database (\<^verbatim>\<open>internal/store\<close>) and hands out tasks whose dependencies are complete
  (\<^verbatim>\<open>internal/coordinator\<close>). Workers (\<^verbatim>\<open>cmd/worker\<close>) hold a stream to it (\<^verbatim>\<open>internal/worker\<close>), ask
  for tasks, run them and report. A command line client (\<^verbatim>\<open>cmd/cli\<close>) submits, watches and cancels
  workflows, and a dashboard (\<^verbatim>\<open>cmd/coordinator/dashboard.go\<close>) shows them.

  \<^bold>\<open>Conventions.\<close> A Go string is a \<^typ>\<open>string\<close>, that is, bytes; \<^verbatim>\<open>int32\<close> and \<^verbatim>\<open>int64\<close> are words read with
  \<^term>\<open>sint\<close>; a map is a partial function, and a function that ranges over a map takes the order of
  the iteration as an argument. A handler takes the state and returns the new state with a
  result in \<^typ>\<open>err + 'a\<close>. Panics and loops that do not end are error values of their own
  (\<^term>\<open>GoPanic\<close>, \<^term>\<open>Diverges\<close>). Clock readings and fresh UUIDs are arguments. Lemmas about the database
  are proved once in the locale \<open>bolt_spec\<close> of theory \<open>Bolt\<close>, the contract of bbolt and of the
  protobuf encoding; \<open>Bolt_List\<close> interprets it on buckets that are sorted lists.

  \<^bold>\<open>Theories, definitions and code.\<close>
  \<^item> \<open>Sched_Prelude\<close>, \<open>Proto_Types\<close>, \<open>Proto_Messages\<close>: types, errors, enums and messages of
    \<^verbatim>\<open>scheduler.pb.go\<close>, with the texts of enum values and errors.
  \<^item> \<open>Codec\<close>: the byte formats of \<^verbatim>\<open>serialization.go\<close>. Decoding an encoded record gives it back.
  \<^item> \<open>Task_Store\<close>, \<open>Meta_Store\<close>: one definition per operation of \<^verbatim>\<open>task_state.go\<close>, \<^verbatim>\<open>workflow_spec.go\<close>,
    \<^verbatim>\<open>workflow_state.go\<close> and \<^verbatim>\<open>workers.go\<close>. \<open>Task_Table\<close> and the second half of \<open>Meta_Store\<close> read the
    bytes as tables (\<open>task_table\<close>, \<open>wf_table\<close>, \<open>spec_table\<close>) and give the effect of every operation on
    them; \<open>Dep_Table\<close> treats the in-degree counters as an invariant of the table; \<open>Store_Props\<close> states
    that completions and updates of one task refine operations on the table, and exactness of scans.
  \<^item> \<open>Dag\<close>: \<^verbatim>\<open>dag.go\<close>. The resolver accepts exactly the workflows with unique ids, known
    dependencies and no cycle, whatever the order of map iteration.
  \<^item> \<open>Heartbeat\<close>: \<^verbatim>\<open>heartbeat.go\<close>. Exactly the workers past the threshold are declared dead.
  \<^item> \<open>Coordinator\<close>: the state of \<^verbatim>\<open>Coordinator\<close> as a record and the handlers of \<^verbatim>\<open>coordinator.go\<close>,
    \<^verbatim>\<open>recovery.go\<close> and \<^verbatim>\<open>watchdog.go\<close>. \<open>Coord_Inv\<close>, \<open>Coord_Submit\<close> and \<open>Coord_Restart\<close> prove that each
    keeps the invariant \<open>sys_inv\<close>, a submission under the condition that its task ids are new;
    \<open>Coord_Records\<close> proves that each keeps the weaker \<open>records_wf\<close> without that condition. \<open>Coord_System\<close> composes
    them to the relation \<open>sys_step\<close>, crashes and restarts included. A step is labelled with the
    workflow it submits, if any; \<open>fresh_step\<close> is a step that submits only new task ids, and \<open>reachable\<close>
    means reached by such steps.
  \<^item> \<open>Coord_Props\<close>, \<open>Coord_Failure\<close>: what completion, failure, cancellation, the death of a worker,
    submission, dispatch and restart do in reachable states. \<open>Divergences\<close>: concrete runs in
    which the code departs from its documentation. \<open>Sample_Run\<close>: the run on which the theorems
    are applied.
  \<^item> \<open>Coord_Interleave\<close>: the critical sections of \<^verbatim>\<open>CompleteTask\<close> as separate steps (\<open>conc_step\<close>), for any
    number of calls at a time, between dispatches and heartbeats. Applying what calls have
    committed (\<open>settle\<close>) gives a state that satisfies \<open>sys_inv\<close> after every step.
  \<^item> \<open>Background\<close>: the loops of the heartbeat monitor and of the watchdog. The watchdog reports
    exactly the workflows that have been running for more than ten minutes.
  \<^item> \<open>Coord_Process\<close>: \<^verbatim>\<open>main\<close> of the coordinator as a process on a database file that outlives it
    (\<open>coordinator_main\<close>, \<open>machine_step\<close>). Whatever starts, failures, submissions (task ids may be used
    again here), shutdowns and kills the file has seen, the next start on it succeeds and recovers its tasks.
  \<^item> \<open>Stream_Service\<close>: \<^verbatim>\<open>internal/worker/worker.go\<close> and the gRPC service of \<^verbatim>\<open>main.go\<close>. \<open>Service_Props\<close>
    states what the stream handler needs of the coordinator as the locale \<open>coordinator_api\<close>, shows
    that the coordinator provides it, and carries the guarantees of the state in which an input was
    handled to the messages that are sent for it.
  \<^item> \<open>Worker_Proc\<close>, \<open>Worker_Props\<close>: \<^verbatim>\<open>cmd/worker/main.go\<close>, with the interleavings of its goroutines as
    the relation \<open>worker_step\<close>, in which \<^verbatim>\<open>Send\<close> may fail; results, the exact content of requests and
    heartbeats, conservation of assignments, waits between connections, the end after \<^verbatim>\<open>Stop\<close>, and a task's
    way from the worker's report to the store.
  \<^item> \<open>Cli\<close>, \<open>Cli_Props\<close>: \<^verbatim>\<open>cmd/cli/main.go\<close>, with the text it prints; submission from the file to the
    service, and when watching ends.
  \<^item> \<open>Grpc_Stubs\<close>, \<open>Remote_Props\<close>: the client and server stubs of \<^verbatim>\<open>scheduler_grpc.pb.go\<close>. The locale
    \<open>grpc_conn\<close> states what a connection promises, lost requests and responses included;
    submission from the file to the store over it.
  \<^item> \<open>Dashboard\<close>, \<open>Dashboard_Props\<close>: the REST handlers; the list and the details are those of the
    store. \<open>Http_Routes\<close>: the patterns of the HTTP server, the rules of \<^verbatim>\<open>net/http\<close> that clean a path and
    choose a handler, and what every request is answered.
  \<^item> \<open>Dashboard_Page\<close>, \<open>Page_Props\<close>: the rendering functions of the page; submitted text cannot inject
    markup. \<open>Page_Script\<close>, \<open>Script_Props\<close>: its script as a state machine of timers, clicks and
    answers, and what the page shows in every order of them.
  \<^item> This theory: dependency order, finality of COMPLETE, and agreement of memory and
    store, for every reachable state.

  \<^bold>\<open>Bounds, fuel and termination.\<close> The recursion of the cycle search takes a depth, one more than the
  number of tasks: nested calls are on distinct unfinished tasks, and the resolver is proved to
  answer with a verdict and never with \<^term>\<open>Diverges\<close>. The loop of \<^verbatim>\<open>SkipDownstreamTasks\<close> is a
  \<open>while_option\<close> and the watch loop of the client a partial function; that the former always
  returns, and when the latter does, is proved. A task is assumed to list fewer than 2 to the
  power 31 dependencies (\<open>small_workflow\<close>), the range of the \<^verbatim>\<open>int32\<close> counters; \<open>reliable\<close> marks the
  theorems that need commits not to fail, and \<open>fresh_workflow\<close> is the condition that task ids are new.
  \<open>Divergences\<close> shows what happens when they are not.

  \<^bold>\<open>Not modelled.\<close> In \<open>sys_step\<close> a handler of the coordinator is one atomic step, although the code
  releases its mutex inside some handlers. \<open>Coord_Interleave\<close> splits \<^verbatim>\<open>CompleteTask\<close>; the other
  interleavings are left out, because not all of them are safe (\<open>Divergences\<close> has runs in which
  \<^verbatim>\<open>HandleDeadWorker\<close> comes between the sections of a report). A process ends between two handlers; \<open>Divergences\<close> has a crash inside one. Flags, sockets, logging,
  pprof, the Prometheus handler and the one histogram that is observed are I/O. The generated protobuf
  code beyond the types, and the static HTML and style sheet of the dashboard, are left out. bbolt,
  protobuf, gRPC, \<^verbatim>\<open>os/exec\<close>, \<^verbatim>\<open>encoding/json\<close>, \<^verbatim>\<open>sort.Slice\<close>, the file system, the local time zone and the
  locale formats of the browser are parameters.
\<close>

section \<open>Properties of every reachable state\<close>

text \<open>
  C1. Dependency order: whenever a reachable coordinator hands a task to a worker, the task
  is RUNNING in the store under the execution id of the assignment, and every dependency
  that its specification names is COMPLETE in the store at that moment, whatever
  requests, store failures, worker deaths and restarts came before, as long as no submission used
  task ids that the store already held.
\<close>

theorem dispatch_respects_dependencies:
  assumes "bolt_spec B" and "reachable B c"
    and "GetReadyTask B now uid c k = (c', Inr (Some a))"
  shows "\<exists>s r. taskSpecCache c (ta_TaskId a) = Some s \<and> TaskId s = ta_TaskId a \<and>
           task_table B (state c') (ta_TaskId a) = Some r \<and> State r = TASK_RUNNING \<and>
           ExecutionID r = ta_ExecutionId a \<and>
           (\<forall>d\<in>set (Dependencies s). \<exists>rd. task_table B (state c') d = Some rd \<and> State rd = TASK_COMPLETE)"
  by (rule bolt_spec.dispatched_dependencies_complete
        [OF assms(1) bolt_spec.reachable_inv [OF assms(1,2)] assms(3)]) blast

theorem dispatch_respects_dependencies_witness:
  "taskSpecCache run3 ''b'' = Some (sample_task ''b'' [''a''] 2) \<and>
   (\<exists>rd. task_table list_bolt (state run4) ''a'' = Some rd \<and> State rd = TASK_COMPLETE)"
  using dispatch_respects_dependencies [OF lb.bolt_spec_axioms reachable_runs(3) coord_results(2)]
  by simp

text \<open>
  C3. Execution order over the life of a workflow: in every reachable state (task ids are not
  submitted twice), a task of a stored workflow that is QUEUED, RUNNING or COMPLETE has all its
  dependencies COMPLETE.
\<close>

theorem started_tasks_have_complete_dependencies:
  assumes "bolt_spec B" and "reachable B c"
    and "spec_table B (state c) w = Some s" and "task \<in> set (Tasks s)" and "d \<in> set (Dependencies task)"
    and "task_table B (state c) (TaskId task) = Some r"
    and "State r \<in> {TASK_QUEUED, TASK_RUNNING, TASK_COMPLETE}"
  shows "\<exists>rd. task_table B (state c) d = Some rd \<and> State rd = TASK_COMPLETE"
proof -
  note S = store_invD [OF sys_invD(1) [OF bolt_spec.reachable_inv [OF assms(1,2)]]]
  have "linked (task_table B (state c)) task" using S(4) assms(3,4) by (auto simp: stored_inv_def)
  then show ?thesis
    using bolt_spec.linked_dependencies_complete [OF assms(1) S(3) _ assms(6) _ assms(5)] assms(7)
    by (auto simp: active_def)
qed

theorem started_tasks_have_complete_dependencies_witness:
  "State (the (task_table list_bolt (state run5) ''b'')) = TASK_COMPLETE \<and>
   (\<exists>rd. task_table list_bolt (state run5) ''a'' = Some rd \<and> State rd = TASK_COMPLETE)"
  using started_tasks_have_complete_dependencies [OF lb.bolt_spec_axioms reachable_runs(5),
      of "''w''" sample_workflow "sample_task ''b'' [''a''] 2" "''a''"]
  by (simp add: sample_spec)

text \<open>
  C4. What can happen to a COMPLETE task, when handlers run one at a time. From a reachable
  state, any single step keeps its record, output included, unless the step is the submission of a workflow that has
  a task of that id; restarts, cancellations, reports, scans and submissions that reuse
  other ids are among these steps. Along any number of steps in which no submission uses ids that the
  store holds, the record is kept for ever.
\<close>

theorem complete_is_final:
  assumes "bolt_spec B" and "reachable B c"
    and "task_table B (state c) t = Some r" and "State r = TASK_COMPLETE"
  shows "(\<forall>l c'. any_step B c l c' \<longrightarrow> (\<forall>w. l = Submitted w \<longrightarrow> t \<notin> task_ids w) \<longrightarrow>
       task_table B (state c') t = Some r) \<and>
    (\<forall>c'. (fresh_step B)\<^sup>*\<^sup>* c c' \<longrightarrow> task_table B (state c') t = Some r)"
proof (intro conjI allI impI)
  note inv = bolt_spec.reachable_inv [OF assms(1,2)]
  fix l c' assume "any_step B c l c'" and "\<forall>w. l = Submitted w \<longrightarrow> t \<notin> task_ids w"
  then show "task_table B (state c') t = Some r"
    using bolt_spec.complete_kept_unless_submitted [OF assms(1) inv _ assms(3,4)] by blast
next
  note inv = bolt_spec.reachable_inv [OF assms(1,2)]
  fix c' assume "(fresh_step B)\<^sup>*\<^sup>* c c'"
  then have "grows (task_table B (state c)) (task_table B (state c'))"
    using bolt_spec.fresh_steps_grow [OF assms(1) inv] by simp
  from growsD [OF this assms(3)] assms(4) show "task_table B (state c') t = Some r" by (auto simp: evolves_rec_def)
qed

theorem complete_is_final_witness:
  "task_table list_bolt (state run5) ''a'' = Some (run_record ''a'' TASK_COMPLETE ''e1'' ''ok'' 0 [''b''])"
proof -
  have "(fresh_step list_bolt)\<^sup>*\<^sup>* run3 run5"
    using run_steps(4,5) by (meson converse_rtranclp_into_rtranclp r_into_rtranclp)
  then show ?thesis using complete_is_final [OF lb.bolt_spec_axioms reachable_runs(3), of "''a''"] by simp
qed

text \<open>
  C5. The coordinator's memory matches its store in every reachable state (task ids are not
  submitted twice, handlers run one at a time): the ready queue
  has no duplicates and lists only tasks that are QUEUED in the store, no queued task is
  assigned, the two assignment maps have the same keys, and an assigned task is in the
  store under the assigned execution id, RUNNING (or SKIPPED, when its workflow was ended
  while it ran).
\<close>

theorem memory_matches_store:
  assumes "bolt_spec B" and "reachable B c"
  shows "distinct (readyQueue c) \<and> dom (runningTasks c) = dom (assignedTasks c) \<and>
    (\<forall>t\<in>set (readyQueue c). assignedTasks c t = None \<and>
       (\<exists>r. task_table B (state c) t = Some r \<and> State r = TASK_QUEUED)) \<and>
    (\<forall>t e. assignedTasks c t = Some e \<longrightarrow>
       (\<exists>r. task_table B (state c) t = Some r \<and> ExecutionID r = e \<and>
            (State r = TASK_RUNNING \<or> State r = TASK_SKIPPED)))"
proof -
  note I = sys_invD [OF bolt_spec.reachable_inv [OF assms]]
  have "assignedTasks c t = None" if "t \<in> set (readyQueue c)" for t
    using held_not_queued [OF I(2)] assigned_invD [OF I(3)] that by (cases "assignedTasks c t") blast+
  with I show ?thesis
    by (simp add: queue_inv_def assigned_inv_def held_def)
qed

theorem memory_matches_store_witness:
  "readyQueue run3 = [''b''] \<and> assignedTasks run3 ''b'' = None \<and>
   (\<exists>r. task_table list_bolt (state run3) ''b'' = Some r \<and> State r = TASK_QUEUED)"
  using memory_matches_store [OF lb.bolt_spec_axioms reachable_runs(3)] by simp

end
